(* ===== verification/Cellos_Prelude.thy ===== *)
theory Cellos_Prelude
  imports Main "HOL-Library.Word" "HOL-Library.Product_Lexorder"
begin

text \<open>
  Shared vocabulary of the Cellos development: the machine integers of the Rust sources, the
  \<open>Result\<close> type written with the source's constructor names, checked and saturating arithmetic,
  little-endian byte encodings with their round trips, \<open>Iterator::position\<close>, and the ordered map
  that models \<open>BTreeMap\<close> (a list of key/value pairs kept in key order, so iteration order and
  \<open>len\<close> are the source's).
\<close>

unbundle bit_operations_syntax

named_theorems cellos_defs "operations unfolded by the component proofs"
named_theorems cellos_inv "preservation lemmas of the component invariants"

section \<open>Machine integers and results\<close>

type_synonym u8 = "8 word"
type_synonym u16 = "16 word"
type_synonym u32 = "32 word"
type_synonym u64 = "64 word"
type_synonym usize = nat
type_synonym bytes = "u8 list"
type_synonym cell_id = u64

text \<open>The bound on Cell identifiers shared by the quota table and the authority table.\<close>

definition MAX_CELLS :: usize where "MAX_CELLS = 64"

text \<open>\<open>Result<T, E>\<close>: the sum type, with the source's constructor names.\<close>

abbreviation Ok :: "'a \<Rightarrow> 'e + 'a" where "Ok \<equiv> Inr"
abbreviation Err :: "'e \<Rightarrow> 'e + 'a" where "Err \<equiv> Inl"

text \<open>The kernel-wide error type \<open>ViError\<close>.\<close>

datatype vi_error =
    OutOfMemory | InvalidArgument | NotFound | PermissionDenied | AlreadyExists | WouldBlock
  | NotSupported | IO | InvalidInput | IsADirectory | NotADirectory | Unknown

text \<open>\<open>checked_add\<close>, \<open>saturating_add\<close> and \<open>saturating_sub\<close> at the width of the operands.\<close>

definition checked_add :: "'a::len word \<Rightarrow> 'a word \<Rightarrow> 'a word option" where
  "checked_add a b = (if unat a + unat b < 2 ^ LENGTH('a) then Some (a + b) else None)"

definition saturating_add :: "'a::len word \<Rightarrow> 'a word \<Rightarrow> 'a word" where
  "saturating_add a b = (if unat a + unat b < 2 ^ LENGTH('a) then a + b else - 1)"

definition saturating_sub :: "'a::len word \<Rightarrow> 'a word \<Rightarrow> 'a word" where
  "saturating_sub a b = (if b \<le> a then a - b else 0)"

lemma checked_add_SomeD:
  "checked_add a b = Some c \<Longrightarrow> unat c = unat a + unat b \<and> c = a + b"
  by (auto simp: checked_add_def unat_word_ariths split: if_splits)

lemma checked_add_1_less:
  "checked_add a 1 = Some c \<Longrightarrow> a < c"
proof -
  assume "checked_add a 1 = Some c"
  then have "unat c = unat a + unat (1 :: 'a word)" by (blast dest: checked_add_SomeD)
  then show ?thesis by (simp add: word_less_nat_alt)
qed

text \<open>Overflow is visible in the wrapped sum, which is how the operations are evaluated.\<close>

lemma add_wraps_iff: "a + b < a \<longleftrightarrow> \<not> unat a + unat b < 2 ^ LENGTH('a)" for a b :: "'a::len word"
proof -
  have b: "unat a < 2 ^ LENGTH('a)" "unat b < 2 ^ LENGTH('a)" by (rule unsigned_less)+
  have sum: "unat (a + b) = (unat a + unat b) mod 2 ^ LENGTH('a)" by (rule unat_word_ariths)
  show ?thesis
  proof (cases "unat a + unat b < 2 ^ LENGTH('a)")
    case True
    then show ?thesis using sum by (simp add: word_less_nat_alt)
  next
    case False
    have "unat a + unat b - 2 ^ LENGTH('a) < 2 ^ LENGTH('a)" using b by linarith
    with False have "(unat a + unat b) mod 2 ^ LENGTH('a) = unat a + unat b - 2 ^ LENGTH('a)"
      by (simp add: le_mod_geq)
    with sum False b have "unat (a + b) < unat a" by linarith
    with False show ?thesis by (simp add: word_less_nat_alt)
  qed
qed

lemma checked_add_code [code]: "checked_add a b = (if a + b < a then None else Some (a + b))"
  by (simp add: checked_add_def add_wraps_iff)

lemma saturating_add_code [code]: "saturating_add a b = (if a + b < a then - 1 else a + b)"
  by (simp add: saturating_add_def add_wraps_iff)

lemma unat_u64_less: "unat (w :: u64) < 2 ^ 64"
  by (rule less_le_trans [OF unsigned_less]) simp

lemma unat_max_word: "unat (- 1 :: 'a::len word) = 2 ^ LENGTH('a) - 1"
  by (simp add: unat_eq_nat_uint uint_word_ariths zmod_minus1 nat_diff_distrib nat_power_eq)

lemma checked_add_None_le:
  fixes a b c :: "'a::len word"
  assumes "checked_add a b = None"
  shows "\<not> unat a + unat b \<le> unat c"
proof -
  have "\<not> unat a + unat b < 2 ^ LENGTH('a)" using assms by (simp add: checked_add_def split: if_splits)
  moreover have "unat c < 2 ^ LENGTH('a)" by (rule unsigned_less)
  ultimately show ?thesis by linarith
qed

lemma unat_saturating_add:
  "unat (saturating_add a (b :: 'a::len word)) = min (unat a + unat b) (2 ^ LENGTH('a) - 1)"
proof (cases "unat a + unat b < 2 ^ LENGTH('a)")
  case True
  then show ?thesis by (simp add: saturating_add_def unat_word_ariths)
next
  case False
  then show ?thesis by (simp add: saturating_add_def unat_max_word)
qed

lemma unat_saturating_sub: "unat (saturating_sub a b) = unat a - unat b"
  by (simp add: saturating_sub_def unat_sub word_le_nat_alt)

lemma saturating_sub_add:
  "unat a + unat b < 2 ^ LENGTH('a) \<Longrightarrow> saturating_sub (a + b) b = a" for a b :: "'a::len word"
  by (simp add: saturating_sub_def word_le_nat_alt unat_word_ariths)

lemma saturating_sub_le: "saturating_sub a b \<le> a"
  by (simp add: word_le_nat_alt unat_saturating_sub)

text \<open>Bit-mask containment: the source's test \<open>x & !y == 0\<close>.\<close>

definition subset_bits :: "'a::len word \<Rightarrow> 'a word \<Rightarrow> bool" where
  "subset_bits x y \<longleftrightarrow> x AND NOT y = 0"

lemma subset_bits_iff: "subset_bits x y \<longleftrightarrow> (\<forall>n. bit x n \<longrightarrow> bit y n)"
  by (auto simp: subset_bits_def bit_eq_iff bit_simps dest: bit_imp_le_length)

lemma subset_bits_refl [simp]: "subset_bits x x"
  by (simp add: subset_bits_iff)

lemma subset_bits_trans: "subset_bits x y \<Longrightarrow> subset_bits y z \<Longrightarrow> subset_bits x z"
  by (simp add: subset_bits_iff)

lemma subset_bits_and [simp]: "subset_bits (x AND y) x" "subset_bits (x AND y) y"
  by (simp_all add: subset_bits_iff bit_simps)

lemma subset_bits_zero [simp]: "subset_bits 0 x"
  by (simp add: subset_bits_iff)

section \<open>Byte buffers\<close>

text \<open>
  \<open>to_le_bytes\<close> and \<open>from_le_bytes\<close> of an \<open>n\<close>-byte integer, the sub-slice \<open>xs[a..b]\<close> and
  \<open>copy_from_slice\<close> into a sub-slice starting at an offset.
\<close>

definition to_le_bytes :: "nat \<Rightarrow> 'a::len word \<Rightarrow> bytes" where
  "to_le_bytes n w = map (\<lambda>i. ucast (drop_bit (8 * i) w)) [0..<n]"

primrec from_le_bytes :: "bytes \<Rightarrow> 'a::len word" where
  "from_le_bytes [] = 0"
| "from_le_bytes (b # bs) = ucast b OR push_bit 8 (from_le_bytes bs)"

definition slice :: "nat \<Rightarrow> nat \<Rightarrow> 'a list \<Rightarrow> 'a list" where
  "slice a b xs = take (b - a) (drop a xs)"

definition write_at :: "nat \<Rightarrow> 'a list \<Rightarrow> 'a list \<Rightarrow> 'a list" where
  "write_at off bs buf = take off buf @ bs @ drop (off + length bs) buf"

lemma length_to_le_bytes [simp]: "length (to_le_bytes n w) = n"
  by (simp add: to_le_bytes_def)

lemma length_slice [simp]: "b \<le> length xs \<Longrightarrow> length (slice a b xs) = b - a"
  by (simp add: slice_def)

lemma length_write_at [simp]:
  "off + length bs \<le> length buf \<Longrightarrow> length (write_at off bs buf) = length buf"
  by (simp add: write_at_def)

lemma slice_write_at_same:
  "off \<le> length buf \<Longrightarrow> b = off + length bs \<Longrightarrow> slice off b (write_at off bs buf) = bs"
  by (simp add: slice_def write_at_def)

lemma nth_write_at:
  "off + length bs \<le> length buf \<Longrightarrow> i < length buf \<Longrightarrow>
   write_at off bs buf ! i =
     (if off \<le> i \<and> i < off + length bs then bs ! (i - off) else buf ! i)"
  by (auto simp: write_at_def nth_append min_def intro!: arg_cong [where f = "\<lambda>j. buf ! j"])

lemma nth_slice: "b \<le> length xs \<Longrightarrow> i < b - a \<Longrightarrow> slice a b xs ! i = xs ! (a + i)"
  by (simp add: slice_def)

lemma slice_write_at_other:
  assumes "off + length bs \<le> length buf" "b \<le> length buf" "b \<le> off \<or> off + length bs \<le> a"
  shows "slice a b (write_at off bs buf) = slice a b buf"
  using assms by (intro nth_equalityI) (auto simp: nth_slice nth_write_at)

text \<open>Layouts written and read field by field: a buffer is a concatenation of its fields.\<close>

lemma slice_append_skip:
  "length xs \<le> a \<Longrightarrow> slice a b (xs @ ys) = slice (a - length xs) (b - length xs) ys"
  by (simp add: slice_def)

lemma slice_append_take: "b = length xs \<Longrightarrow> slice 0 b (xs @ ys) = xs"
  by (simp add: slice_def)

lemma slice_full: "b = length xs \<Longrightarrow> slice 0 b xs = xs"
  by (simp add: slice_def)

lemma write_at_append_skip:
  "length xs \<le> off \<Longrightarrow> write_at off bs (xs @ ys) = xs @ write_at (off - length xs) bs ys"
  by (simp add: write_at_def)

lemma write_at_0: "write_at 0 bs ys = bs @ drop (length bs) ys"
  by (simp add: write_at_def)

lemmas layout_simps = slice_append_skip slice_append_take slice_full write_at_append_skip write_at_0

lemma take_slice_step: "a \<le> b \<Longrightarrow> take b xs = take a xs @ slice a b xs"
  by (simp add: slice_def flip: take_add)

lemma bit_from_le_bytes:
  "bit (from_le_bytes bs :: 'a::len word) n \<longleftrightarrow>
     n < LENGTH('a) \<and> n div 8 < length bs \<and> bit (bs ! (n div 8)) (n mod 8)"
proof (induction bs arbitrary: n)
  case Nil
  then show ?case by simp
next
  case (Cons b bs)
  show ?case
  proof (cases "n < 8")
    case True
    then show ?thesis by (auto simp: bit_simps dest: bit_imp_le_length)
  next
    case False
    then have "n div 8 = Suc ((n - 8) div 8)" "n mod 8 = (n - 8) mod 8"
      by (simp_all add: le_div_geq le_mod_geq)
    moreover have "\<not> bit b n" using False by (auto dest: bit_imp_le_length)
    ultimately show ?thesis using False by (auto simp: bit_simps Cons.IH dest: bit_imp_le_length)
  qed
qed

lemma from_le_to_le_bytes:
  "LENGTH('a) \<le> 8 * n \<Longrightarrow> from_le_bytes (to_le_bytes n (w :: 'a::len word)) = w"
  by (rule bit_eqI)
    (auto simp: bit_from_le_bytes to_le_bytes_def bit_simps div_less_iff_less_mult mult.commute
      dest: bit_imp_le_length)

lemma to_le_from_le_bytes:
  assumes "length bs = n" "8 * n \<le> LENGTH('a)"
  shows "to_le_bytes n (from_le_bytes bs :: 'a::len word) = bs"
proof (rule nth_equalityI)
  fix i assume "i < length (to_le_bytes n (from_le_bytes bs :: 'a word))"
  then have i: "i < n" by simp
  show "to_le_bytes n (from_le_bytes bs :: 'a word) ! i = bs ! i"
  proof (rule bit_eqI)
    fix k assume "possible_bit TYPE(u8) k"
    then have "k < 8" by simp
    moreover from this have "(k + 8 * i) div 8 = i" "(k + 8 * i) mod 8 = k"
      by simp_all
    moreover have "k + 8 * i < LENGTH('a)" using i \<open>k < 8\<close> assms(2) by linarith
    ultimately show "bit (to_le_bytes n (from_le_bytes bs :: 'a word) ! i) k = bit (bs ! i) k"
      using i assms(1) by (auto simp: to_le_bytes_def bit_simps bit_from_le_bytes add.commute)
  qed
qed (use assms in simp)

text \<open>\<open>slice.get(i)\<close> and \<open>slice.get(a..b)\<close>.\<close>

definition get_at :: "bytes \<Rightarrow> usize \<Rightarrow> u8 option" where
  "get_at bs i = (if i < length bs then Some (bs ! i) else None)"

definition get_range :: "bytes \<Rightarrow> usize \<Rightarrow> usize \<Rightarrow> bytes option" where
  "get_range bs a b = (if a \<le> b \<and> b \<le> length bs then Some (slice a b bs) else None)"

section \<open>Iterator adaptors\<close>

text \<open>\<open>iter().position(p)\<close>: the index of the first element satisfying \<open>p\<close>.\<close>

primrec position :: "('a \<Rightarrow> bool) \<Rightarrow> 'a list \<Rightarrow> nat option" where
  "position P [] = None"
| "position P (x # xs) = (if P x then Some 0 else map_option Suc (position P xs))"

lemma position_None_iff: "position P xs = None \<longleftrightarrow> (\<forall>x \<in> set xs. \<not> P x)"
  by (induction xs) auto

lemma position_SomeD:
  "position P xs = Some i \<Longrightarrow> i < length xs \<and> P (xs ! i) \<and> (\<forall>j < i. \<not> P (xs ! j))"
proof (induction xs arbitrary: i)
  case (Cons x xs)
  then show ?case by (auto simp: less_Suc_eq_0_disj split: if_splits)
qed simp

lemma position_NoneD: "position P xs = None \<Longrightarrow> i < length xs \<Longrightarrow> \<not> P (xs ! i)"
  by (simp add: position_None_iff)

lemma position_unique:
  assumes "i < length xs" "P (xs ! i)" "\<And>j. j < length xs \<Longrightarrow> P (xs ! j) \<Longrightarrow> j = i"
  shows "position P xs = Some i"
proof (cases "position P xs")
  case None
  then show ?thesis using assms(1,2) by (auto dest: position_NoneD)
next
  case (Some j)
  then show ?thesis using assms(3) by (auto dest: position_SomeD)
qed

section \<open>Ordered maps (\<open>BTreeMap\<close>)\<close>

type_synonym ('k, 'v) btree = "('k \<times> 'v) list"

definition bt_wf :: "('k::linorder, 'v) btree \<Rightarrow> bool" where
  "bt_wf m \<longleftrightarrow> sorted_wrt (<) (map fst m)"

abbreviation bt_get :: "('k, 'v) btree \<Rightarrow> 'k \<Rightarrow> 'v option" where
  "bt_get \<equiv> map_of"

fun bt_insert :: "'k::linorder \<Rightarrow> 'v \<Rightarrow> ('k, 'v) btree \<Rightarrow> ('k, 'v) btree" where
  "bt_insert k v [] = [(k, v)]"
| "bt_insert k v ((a, b) # m) =
     (if k < a then (k, v) # (a, b) # m
      else if k = a then (k, v) # m
      else (a, b) # bt_insert k v m)"

definition bt_remove :: "'k \<Rightarrow> ('k, 'v) btree \<Rightarrow> ('k, 'v) btree" where
  "bt_remove k m = filter (\<lambda>p. fst p \<noteq> k) m"

definition bt_retain :: "('k \<Rightarrow> 'v \<Rightarrow> bool) \<Rightarrow> ('k, 'v) btree \<Rightarrow> ('k, 'v) btree" where
  "bt_retain P m = filter (\<lambda>(k, v). P k v) m"

definition bt_contains :: "('k, 'v) btree \<Rightarrow> 'k \<Rightarrow> bool" where
  "bt_contains m k \<longleftrightarrow> bt_get m k \<noteq> None"

lemma bt_get_insert [simp]: "bt_get (bt_insert k v m) = (bt_get m)(k \<mapsto> v)"
  by (induction k v m rule: bt_insert.induct) (auto simp: fun_eq_iff)

lemma bt_get_remove [simp]: "bt_get (bt_remove k m) = (bt_get m)(k := None)"
  by (induction m) (auto simp: bt_remove_def fun_eq_iff)

lemma set_bt_insert: "set (map fst (bt_insert k v m)) = insert k (set (map fst m))"
  by (induction k v m rule: bt_insert.induct) auto

lemma bt_wf_Nil [simp]: "bt_wf []"
  by (simp add: bt_wf_def)

lemma bt_wf_insert [simp, intro]: "bt_wf m \<Longrightarrow> bt_wf (bt_insert k v m)"
  unfolding bt_wf_def
proof (induction k v m rule: bt_insert.induct)
  case (2 k v a b m)
  then show ?case using set_bt_insert [of k v m] by (auto dest: less_trans)
qed simp

lemma bt_wf_filter: "bt_wf m \<Longrightarrow> bt_wf (filter P m)"
  unfolding bt_wf_def by (induction m) auto

lemma bt_wf_remove [simp, intro]: "bt_wf m \<Longrightarrow> bt_wf (bt_remove k m)"
  by (simp add: bt_remove_def bt_wf_filter)

lemma bt_wf_retain [simp, intro]: "bt_wf m \<Longrightarrow> bt_wf (bt_retain P m)"
  by (simp add: bt_retain_def bt_wf_filter)

lemma bt_wf_distinct: "bt_wf m \<Longrightarrow> distinct (map fst m)"
  by (simp add: bt_wf_def strict_sorted_iff)

lemma bt_get_retain:
  "bt_wf m \<Longrightarrow> bt_get (bt_retain P m) k =
     (case bt_get m k of Some v \<Rightarrow> if P k v then Some v else None | None \<Rightarrow> None)"
  unfolding bt_retain_def
  by (drule bt_wf_distinct, induction m)
    (auto split: option.splits simp: map_of_eq_None_iff rev_image_eqI)

lemma bt_mem_get: "bt_wf m \<Longrightarrow> (k, v) \<in> set m \<longleftrightarrow> bt_get m k = Some v"
  by (simp add: bt_wf_distinct)

lemma length_bt_insert:
  "bt_wf m \<Longrightarrow> length (bt_insert k v m) = (if bt_contains m k then length m else Suc (length m))"
proof (induction k v m rule: bt_insert.induct)
  case (2 k v a b m)
  have "k < a \<Longrightarrow> k \<notin> fst ` set m" using 2(2) by (auto simp: bt_wf_def)
  with 2 show ?case by (auto simp: bt_contains_def bt_wf_def map_of_eq_None_iff)
qed (simp add: bt_contains_def)

lemma length_bt_remove_le: "length (bt_remove k m) \<le> length m"
  by (simp add: bt_remove_def)

lemma length_bt_retain_le: "length (bt_retain P m) \<le> length m"
  by (simp add: bt_retain_def)

lemma bt_insert_not_Nil [simp]: "bt_insert k v m \<noteq> []"
  by (cases "(k, v, m)" rule: bt_insert.cases) auto

section \<open>Identifier sources\<close>

text \<open>
  The contract shared by the components that mint identifiers from a counter: steps keep the
  component's invariant, never lower the counter, and an identifier that becomes live in a step was
  at or above the counter before it.  Hence an identifier below the counter that is not live (it was
  closed or revoked) never becomes live again.
\<close>

locale id_source =
  fixes inv :: "'s \<Rightarrow> bool"
    and step :: "'s \<Rightarrow> 's \<Rightarrow> bool"
    and live :: "'s \<Rightarrow> 'i::linorder \<Rightarrow> bool"
    and next_id :: "'s \<Rightarrow> 'i"
  assumes inv_step: "inv s \<Longrightarrow> step s t \<Longrightarrow> inv t"
    and next_mono: "inv s \<Longrightarrow> step s t \<Longrightarrow> next_id s \<le> next_id t"
    and minted_fresh: "inv s \<Longrightarrow> step s t \<Longrightarrow> live t i \<Longrightarrow> live s i \<or> next_id s \<le> i"
begin

lemma inv_steps: "step\<^sup>*\<^sup>* s t \<Longrightarrow> inv s \<Longrightarrow> inv t"
  by (induction rule: rtranclp_induct) (auto intro: inv_step)

lemma next_mono_steps: "step\<^sup>*\<^sup>* s t \<Longrightarrow> inv s \<Longrightarrow> next_id s \<le> next_id t"
proof (induction rule: rtranclp_induct)
  case (step u v)
  then show ?case using next_mono [OF inv_steps [OF step.hyps(1)] step.hyps(2)] by auto
qed simp

lemma dead_stays_dead:
  assumes "step\<^sup>*\<^sup>* s t" "inv s" "i < next_id s" "\<not> live s i"
  shows "\<not> live t i"
  using assms
proof (induction rule: rtranclp_induct)
  case (step u v)
  then show ?case
    using minted_fresh [OF inv_steps [OF step.hyps(1)] step.hyps(2), of i] next_mono_steps [OF step.hyps(1)]
    by auto
qed simp

end

end
