(* ===== verification/CSpace_Wire.thy ===== *)
theory CSpace_Wire
  imports Cellos_Prelude
begin

text \<open>
  The wire formats of the capability space (\<open>kernel/src/cell/cspace.rs\<close>, first part): status
  codes, principals and their 40-byte record, the 32-byte result header, the 48-byte handle
  request and the 64-byte CSpace request.  Buffers are byte lists; \<open>copy_from_slice\<close> is
  \<^const>\<open>write_at\<close> and \<open>buf[a..b]\<close> is \<^const>\<open>slice\<close>.
\<close>

section \<open>Statuses, principals and resource kinds\<close>

definition MAX_SLOTS_PER_CELL :: usize where "MAX_SLOTS_PER_CELL = 256"
definition MAX_LINEAGE_DEPTH :: usize where "MAX_LINEAGE_DEPTH = 8"

datatype control_status =
    Success | Denied | Stale | WrongType | Capacity | Exhausted | Busy | Small | Invalid
  | Indeterminate | Unsupported | AdmissionCut | Quarantined | Quiesced | Pending

text \<open>The \<open>#[repr(u32)]\<close> discriminants.\<close>

primrec status_as_u32 :: "control_status \<Rightarrow> u32" where
  "status_as_u32 Success = 0"
| "status_as_u32 Denied = 1"
| "status_as_u32 Stale = 2"
| "status_as_u32 WrongType = 3"
| "status_as_u32 Capacity = 4"
| "status_as_u32 Exhausted = 5"
| "status_as_u32 Busy = 6"
| "status_as_u32 Small = 7"
| "status_as_u32 Invalid = 8"
| "status_as_u32 Indeterminate = 9"
| "status_as_u32 Unsupported = 10"
| "status_as_u32 AdmissionCut = 11"
| "status_as_u32 Quarantined = 12"
| "status_as_u32 Quiesced = 13"
| "status_as_u32 Pending = 14"

definition status_from_u32 :: "u32 \<Rightarrow> control_status option" where
  "status_from_u32 val =
     (if val = 0 then Some Success
      else if val = 1 then Some Denied
      else if val = 2 then Some Stale
      else if val = 3 then Some WrongType
      else if val = 4 then Some Capacity
      else if val = 5 then Some Exhausted
      else if val = 6 then Some Busy
      else if val = 7 then Some Small
      else if val = 8 then Some Invalid
      else if val = 9 then Some Indeterminate
      else if val = 10 then Some Unsupported
      else if val = 11 then Some AdmissionCut
      else if val = 12 then Some Quarantined
      else if val = 13 then Some Quiesced
      else if val = 14 then Some Pending
      else None)"

datatype principal = Kernel | Cell (principal_id: cell_id) (principal_generation: u64)

datatype resource_kind =
  RK_None | BootFSFile | CSpaceAuthority | MemoryGrant | RingBuffer | NativeStream

section \<open>Principal records\<close>

definition read_u32 :: "nat \<Rightarrow> bytes \<Rightarrow> u32" where
  "read_u32 off buf = from_le_bytes (slice off (off + 4) buf)"

definition read_u64 :: "nat \<Rightarrow> bytes \<Rightarrow> u64" where
  "read_u64 off buf = from_le_bytes (slice off (off + 8) buf)"

definition write_u32 :: "nat \<Rightarrow> u32 \<Rightarrow> bytes \<Rightarrow> bytes" where
  "write_u32 off v buf = write_at off (to_le_bytes 4 v) buf"

definition write_u64 :: "nat \<Rightarrow> u64 \<Rightarrow> bytes \<Rightarrow> bytes" where
  "write_u64 off v buf = write_at off (to_le_bytes 8 v) buf"

text \<open>\<open>out\<close> is a fixed 40-byte array that the encoder first fills with zeros.\<close>

definition encode_record :: "principal \<Rightarrow> u64 \<Rightarrow> u64 \<Rightarrow> bytes" where
  "encode_record p flags sender_tid =
     (let out = write_u32 0 1 (replicate 40 0) in
      case p of
        Kernel \<Rightarrow> write_u32 4 1 out
      | Cell i generation \<Rightarrow>
          write_u64 32 sender_tid (write_u64 24 generation (write_u64 16 i
            (write_u64 8 flags (write_u32 4 2 out)))))"

definition decode_record :: "bytes \<Rightarrow> control_status + principal \<times> u64 \<times> u64" where
  "decode_record buf =
     (if length buf < 40 then Err Small
      else if read_u32 0 buf \<noteq> 1 then Err Invalid
      else
        let kind = read_u32 4 buf;
            flags = read_u64 8 buf;
            cell_id = read_u64 16 buf;
            generation = read_u64 24 buf;
            sender_tid = read_u64 32 buf
        in
        if kind = 1 then
          (if flags \<noteq> 0 \<or> cell_id \<noteq> 0 \<or> generation \<noteq> 0 \<or> sender_tid \<noteq> 0 then Err Invalid
           else Ok (Kernel, 0, 0))
        else if kind = 2 then
          (if cell_id = 0 \<or> generation = 0 \<or> sender_tid = 0 then Err Invalid
           else if flags AND NOT 1 \<noteq> 0 then Err Invalid
           else Ok (Cell cell_id generation, flags, sender_tid))
        else Err Invalid)"

section \<open>Result header and requests\<close>

record control_result_header =
  crh_version :: u32
  crh_status :: control_status
  crh_ticket :: u64
  crh_required_bytes :: u64
  crh_progress :: u64

definition header_new :: "control_status \<Rightarrow> u64 \<Rightarrow> u64 \<Rightarrow> u64 \<Rightarrow> control_result_header" where
  "header_new status ticket required_bytes progress =
     \<lparr>crh_version = 1, crh_status = status, crh_ticket = ticket,
      crh_required_bytes = required_bytes, crh_progress = progress\<rparr>"

definition header_encode :: "control_result_header \<Rightarrow> bytes \<Rightarrow> control_status + bytes" where
  "header_encode h out =
     (if length out < 32 then Err Small
      else Ok (write_u64 24 (crh_progress h) (write_u64 16 (crh_required_bytes h)
             (write_u64 8 (crh_ticket h) (write_u32 4 (status_as_u32 (crh_status h))
               (write_u32 0 (crh_version h) out))))))"

definition header_decode :: "bytes \<Rightarrow> control_status + control_result_header" where
  "header_decode buf =
     (if length buf < 32 then Err Small
      else if read_u32 0 buf \<noteq> 1 then Err Invalid
      else case status_from_u32 (read_u32 4 buf) of
        None \<Rightarrow> Err Invalid
      | Some status \<Rightarrow>
          Ok \<lparr>crh_version = read_u32 0 buf, crh_status = status, crh_ticket = read_u64 8 buf,
              crh_required_bytes = read_u64 16 buf, crh_progress = read_u64 24 buf\<rparr>)"

record handle_control_request =
  hcr_version :: u32
  hcr_action :: u32
  hcr_ticket :: u64
  hcr_destination_cell :: u64
  hcr_destination_generation :: u64
  hcr_rights :: u32
  hcr_expiry_present :: u32
  hcr_expiry_tick :: u64

definition handle_request_decode :: "bytes \<Rightarrow> control_status + handle_control_request" where
  "handle_request_decode buf =
     (if length buf < 48 then Err Small
      else if read_u32 0 buf \<noteq> 1 then Err Invalid
      else
        let action = read_u32 4 buf in
        if action > 3 then Err Invalid
        else
          let ticket = read_u64 8 buf;
              destination_cell = read_u64 16 buf;
              destination_generation = read_u64 24 buf;
              rights = read_u32 32 buf;
              expiry_present = read_u32 36 buf
          in
          if expiry_present > 1 then Err Invalid
          else
            let expiry_tick = read_u64 40 buf in
            if expiry_present = 0 \<and> expiry_tick \<noteq> 0 then Err Invalid
            else if action \<noteq> 1 \<and>
              (destination_cell \<noteq> 0 \<or> destination_generation \<noteq> 0 \<or> rights \<noteq> 0
               \<or> expiry_present \<noteq> 0 \<or> expiry_tick \<noteq> 0) then Err Invalid
            else
              Ok \<lparr>hcr_version = read_u32 0 buf, hcr_action = action, hcr_ticket = ticket,
                  hcr_destination_cell = destination_cell,
                  hcr_destination_generation = destination_generation,
                  hcr_rights = rights, hcr_expiry_present = expiry_present,
                  hcr_expiry_tick = expiry_tick\<rparr>)"

record cspace_request =
  csr_version :: u32
  csr_action :: u32
  csr_parent_ticket :: u64
  csr_target_cell :: u64
  csr_target_generation :: u64
  csr_class_bits :: u64
  csr_mmio_mask :: u64
  csr_block_region_mask :: u64
  csr_absolute_expiry_tick :: u64

definition cspace_request_decode :: "bytes \<Rightarrow> control_status + cspace_request" where
  "cspace_request_decode buf =
     (if length buf < 64 then Err Small
      else if read_u32 0 buf \<noteq> 1 then Err Invalid
      else
        let action = read_u32 4 buf in
        if action > 3 then Err Invalid
        else
          let parent_ticket = read_u64 8 buf;
              target_cell = read_u64 16 buf;
              target_generation = read_u64 24 buf;
              class_bits = read_u64 32 buf
          in
          if class_bits AND NOT 0x1FF \<noteq> 0 then Err Invalid
          else
            let mmio_mask = read_u64 40 buf;
                block_region_mask = read_u64 48 buf;
                absolute_expiry_tick = read_u64 56 buf
            in
            if action \<noteq> 1 \<and>
              (target_cell \<noteq> 0 \<or> target_generation \<noteq> 0 \<or> class_bits \<noteq> 0 \<or> mmio_mask \<noteq> 0
               \<or> block_region_mask \<noteq> 0 \<or> absolute_expiry_tick \<noteq> 0) then Err Invalid
            else
              Ok \<lparr>csr_version = read_u32 0 buf, csr_action = action,
                  csr_parent_ticket = parent_ticket, csr_target_cell = target_cell,
                  csr_target_generation = target_generation, csr_class_bits = class_bits,
                  csr_mmio_mask = mmio_mask, csr_block_region_mask = block_region_mask,
                  csr_absolute_expiry_tick = absolute_expiry_tick\<rparr>)"

section \<open>Round trips\<close>

lemmas field_defs = read_u32_def read_u64_def write_u32_def write_u64_def

lemma status_from_as_u32 [simp]: "status_from_u32 (status_as_u32 s) = Some s"
  by (cases s) (simp_all add: status_from_u32_def)

lemma status_from_u32_SomeD: "status_from_u32 v = Some s \<Longrightarrow> status_as_u32 s = v"
  by (auto simp: status_from_u32_def split: if_splits)

text \<open>The field layout of the encoders.\<close>

lemma encode_record_layout:
  "encode_record p flags tid = (case p of
      Kernel \<Rightarrow> to_le_bytes 4 (1 :: u32) @ to_le_bytes 4 (1 :: u32) @ replicate 32 0
    | Cell i g \<Rightarrow> to_le_bytes 4 (1 :: u32) @ to_le_bytes 4 (2 :: u32) @ to_le_bytes 8 flags
        @ to_le_bytes 8 i @ to_le_bytes 8 g @ to_le_bytes 8 tid)"
  by (simp add: encode_record_def field_defs layout_simps split: principal.splits)

lemma header_encode_layout:
  "header_encode h out = (if length out < 32 then Err Small else
     Ok (to_le_bytes 4 (crh_version h) @ to_le_bytes 4 (status_as_u32 (crh_status h))
         @ to_le_bytes 8 (crh_ticket h) @ to_le_bytes 8 (crh_required_bytes h)
         @ to_le_bytes 8 (crh_progress h) @ drop 32 out))"
  by (simp add: header_encode_def field_defs layout_simps)

lemma from_le_zeros [simp]: "from_le_bytes (replicate n 0) = 0"
  by (induction n) simp_all

lemma slice_replicate: "b \<le> n \<Longrightarrow> slice a b (replicate n x) = replicate (b - a) x"
  by (simp add: slice_def)

lemma le_field_roundtrip [simp]:
  "from_le_bytes (to_le_bytes 4 (v :: u32)) = v"
  "from_le_bytes (to_le_bytes 8 (w :: u64)) = w"
  by (simp_all add: from_le_to_le_bytes)

text \<open>A field read and written back at the same place reproduces the bytes it was read from.\<close>

lemma to_le_read_u32: "off + 4 \<le> length buf \<Longrightarrow> to_le_bytes 4 (read_u32 off buf) = slice off (off + 4) buf"
  unfolding read_u32_def by (rule to_le_from_le_bytes) simp_all

lemma to_le_read_u64: "off + 8 \<le> length buf \<Longrightarrow> to_le_bytes 8 (read_u64 off buf) = slice off (off + 8) buf"
  unfolding read_u64_def by (rule to_le_from_le_bytes) simp_all

lemma slice_join: "a \<le> b \<Longrightarrow> b \<le> c \<Longrightarrow> slice a b xs @ slice b c xs = slice a c xs"
  using take_add [of "b - a" "c - b" "drop a xs"] by (simp add: slice_def)

lemma slice_join_more:
  "a \<le> b \<Longrightarrow> b \<le> c \<Longrightarrow> slice a b xs @ slice b c xs @ ys = slice a c xs @ ys"
  using slice_join [of a b c xs] by (metis append.assoc)

lemma slice_drop_join: "slice a b xs @ drop b xs = drop a xs" if "a \<le> b"
  using that by (metis append_take_drop_id drop_drop le_add_diff_inverse2 slice_def)

lemmas join_simps = to_le_read_u32 to_le_read_u64 slice_join slice_join_more slice_drop_join slice_full

text \<open>A record that the decoder may produce.\<close>

definition record_ok :: "principal \<Rightarrow> u64 \<Rightarrow> u64 \<Rightarrow> bool" where
  "record_ok p flags tid = (case p of
      Kernel \<Rightarrow> flags = 0 \<and> tid = 0
    | Cell i g \<Rightarrow> i \<noteq> 0 \<and> g \<noteq> 0 \<and> tid \<noteq> 0 \<and> flags AND NOT 1 = 0)"

lemma length_encode_record [simp]: "length (encode_record p flags tid) = 40"
  by (simp add: encode_record_layout split: principal.splits)

lemma decode_encode_record:
  "record_ok p flags tid \<Longrightarrow> decode_record (encode_record p flags tid) = Ok (p, flags, tid)"
  by (auto simp: record_ok_def decode_record_def Let_def encode_record_layout field_defs
      layout_simps slice_replicate split: principal.splits)

lemma read_u64_zero: "off + 8 \<le> length buf \<Longrightarrow> read_u64 off buf = 0 \<Longrightarrow> slice off (off + 8) buf = replicate 8 0"
  using to_le_read_u64 [of off buf] by (simp add: to_le_bytes_def list_eq_iff_nth_eq)

lemma kernel_record_bytes:
  assumes "length buf = 40" "read_u32 0 buf = 1" "read_u32 4 buf = 1" "read_u64 8 buf = 0"
    "read_u64 16 buf = 0" "read_u64 24 buf = 0" "read_u64 32 buf = 0"
  shows "encode_record Kernel f t = buf"
proof -
  have "replicate 32 (0::u8) = replicate 8 0 @ replicate 8 0 @ replicate 8 0 @ replicate 8 0"
    by (simp flip: replicate_add)
  also have "\<dots> = slice 8 16 buf @ slice 16 24 buf @ slice 24 32 buf @ slice 32 40 buf"
    using assms read_u64_zero [of 8 buf] read_u64_zero [of 16 buf] read_u64_zero [of 24 buf]
      read_u64_zero [of 32 buf] by simp
  also have "\<dots> = slice 8 40 buf" by (simp add: slice_join slice_join_more)
  finally have "encode_record Kernel f t =
      to_le_bytes 4 (read_u32 0 buf) @ to_le_bytes 4 (read_u32 4 buf) @ slice 8 40 buf"
    using assms by (simp add: encode_record_layout)
  also have "\<dots> = buf" using assms(1) by (simp add: join_simps)
  finally show ?thesis .
qed

lemma encode_decode_record:
  assumes "length buf = 40" "decode_record buf = Ok (p, f, t)"
  shows "encode_record p f t = buf \<and> record_ok p f t"
proof (cases p)
  case Kernel
  with assms show ?thesis
    by (auto simp: decode_record_def Let_def record_ok_def kernel_record_bytes split: if_splits)
next
  case (Cell i g)
  then have "encode_record p f t =
      to_le_bytes 4 (read_u32 0 buf) @ to_le_bytes 4 (read_u32 4 buf) @ to_le_bytes 8 (read_u64 8 buf)
      @ to_le_bytes 8 (read_u64 16 buf) @ to_le_bytes 8 (read_u64 24 buf) @ to_le_bytes 8 (read_u64 32 buf)"
    using assms by (auto simp: encode_record_layout decode_record_def Let_def split: if_splits)
  also have "\<dots> = buf" using assms(1) by (simp add: join_simps)
  finally show ?thesis
    using Cell assms(2) by (auto simp: decode_record_def Let_def record_ok_def split: if_splits)
qed

lemma header_decode_encode:
  assumes "crh_version h = 1" "header_encode h out = Ok buf"
  shows "header_decode buf = Ok h"
  using assms by (auto simp: header_decode_def header_encode_layout field_defs layout_simps split: if_splits)

lemma header_encode_decode:
  assumes "header_decode buf = Ok h"
  shows "crh_version h = 1 \<and> header_encode h buf = Ok buf"
proof -
  have len: "32 \<le> length buf" using assms by (auto simp: header_decode_def split: if_splits)
  then have "to_le_bytes 4 (read_u32 0 buf) @ to_le_bytes 4 (read_u32 4 buf) @ to_le_bytes 8 (read_u64 8 buf)
      @ to_le_bytes 8 (read_u64 16 buf) @ to_le_bytes 8 (read_u64 24 buf) @ drop 32 buf = buf"
    by (simp add: join_simps slice_drop_join [of 0, simplified])
  then show ?thesis using assms len
    by (auto simp: header_decode_def header_encode_layout dest!: status_from_u32_SomeD split: if_splits option.splits)
qed

text \<open>The 48-byte layout of a handle request and the requests that are well formed.\<close>

definition handle_request_bytes :: "handle_control_request \<Rightarrow> bytes" where
  "handle_request_bytes r =
     to_le_bytes 4 (hcr_version r) @ to_le_bytes 4 (hcr_action r) @ to_le_bytes 8 (hcr_ticket r)
     @ to_le_bytes 8 (hcr_destination_cell r) @ to_le_bytes 8 (hcr_destination_generation r)
     @ to_le_bytes 4 (hcr_rights r) @ to_le_bytes 4 (hcr_expiry_present r) @ to_le_bytes 8 (hcr_expiry_tick r)"

definition handle_request_ok :: "handle_control_request \<Rightarrow> bool" where
  "handle_request_ok r \<longleftrightarrow>
     hcr_version r = 1 \<and> hcr_action r \<le> 3 \<and> hcr_expiry_present r \<le> 1
     \<and> (hcr_expiry_present r = 0 \<longrightarrow> hcr_expiry_tick r = 0)
     \<and> (hcr_action r \<noteq> 1 \<longrightarrow> hcr_destination_cell r = 0 \<and> hcr_destination_generation r = 0
          \<and> hcr_rights r = 0 \<and> hcr_expiry_present r = 0 \<and> hcr_expiry_tick r = 0)"

definition cspace_request_bytes :: "cspace_request \<Rightarrow> bytes" where
  "cspace_request_bytes r =
     to_le_bytes 4 (csr_version r) @ to_le_bytes 4 (csr_action r) @ to_le_bytes 8 (csr_parent_ticket r)
     @ to_le_bytes 8 (csr_target_cell r) @ to_le_bytes 8 (csr_target_generation r)
     @ to_le_bytes 8 (csr_class_bits r) @ to_le_bytes 8 (csr_mmio_mask r)
     @ to_le_bytes 8 (csr_block_region_mask r) @ to_le_bytes 8 (csr_absolute_expiry_tick r)"

definition cspace_request_ok :: "cspace_request \<Rightarrow> bool" where
  "cspace_request_ok r \<longleftrightarrow>
     csr_version r = 1 \<and> csr_action r \<le> 3 \<and> csr_class_bits r AND NOT 0x1FF = 0
     \<and> (csr_action r \<noteq> 1 \<longrightarrow> csr_target_cell r = 0 \<and> csr_target_generation r = 0
          \<and> csr_class_bits r = 0 \<and> csr_mmio_mask r = 0 \<and> csr_block_region_mask r = 0
          \<and> csr_absolute_expiry_tick r = 0)"

lemma handle_request_decode_bytes:
  "handle_request_ok r \<Longrightarrow> handle_request_decode (handle_request_bytes r) = Ok r"
  by (auto simp: handle_request_ok_def handle_request_decode_def handle_request_bytes_def Let_def
      field_defs layout_simps not_less)

lemma handle_request_bytes_decode:
  assumes "length buf = 48" "handle_request_decode buf = Ok r"
  shows "handle_request_ok r \<and> handle_request_bytes r = buf"
proof -
  have r: "r = \<lparr>hcr_version = read_u32 0 buf, hcr_action = read_u32 4 buf, hcr_ticket = read_u64 8 buf,
      hcr_destination_cell = read_u64 16 buf, hcr_destination_generation = read_u64 24 buf,
      hcr_rights = read_u32 32 buf, hcr_expiry_present = read_u32 36 buf,
      hcr_expiry_tick = read_u64 40 buf\<rparr>"
    using assms(2) by (simp add: handle_request_decode_def Let_def split: if_splits)
  have "handle_request_bytes r = buf"
    using assms(1) unfolding r handle_request_bytes_def by (simp add: join_simps)
  moreover have "handle_request_ok r"
    using assms(2) by (auto simp: handle_request_decode_def handle_request_ok_def Let_def split: if_splits)
  ultimately show ?thesis by simp
qed

lemma cspace_request_decode_bytes:
  "cspace_request_ok r \<Longrightarrow> cspace_request_decode (cspace_request_bytes r) = Ok r"
  by (auto simp: cspace_request_ok_def cspace_request_decode_def cspace_request_bytes_def Let_def
      field_defs layout_simps not_less)

lemma cspace_request_bytes_decode:
  assumes "length buf = 64" "cspace_request_decode buf = Ok r"
  shows "cspace_request_ok r \<and> cspace_request_bytes r = buf"
proof -
  have r: "r = \<lparr>csr_version = read_u32 0 buf, csr_action = read_u32 4 buf,
      csr_parent_ticket = read_u64 8 buf, csr_target_cell = read_u64 16 buf,
      csr_target_generation = read_u64 24 buf, csr_class_bits = read_u64 32 buf,
      csr_mmio_mask = read_u64 40 buf, csr_block_region_mask = read_u64 48 buf,
      csr_absolute_expiry_tick = read_u64 56 buf\<rparr>"
    using assms(2) by (simp add: cspace_request_decode_def Let_def split: if_splits)
  have "cspace_request_bytes r = buf"
    using assms(1) unfolding r cspace_request_bytes_def by (simp add: join_simps)
  moreover have "cspace_request_ok r"
    using assms(2) by (auto simp: cspace_request_decode_def cspace_request_ok_def Let_def split: if_splits)
  ultimately show ?thesis by simp
qed

end
