(* ===== verification/Manifest.thy ===== *)
theory Manifest
  imports Cellos_Prelude
begin

text \<open>
  The capability manifest embedded in a Cell's ELF image (\<open>libs/api/src/abi/manifest.rs\<close>,
  \<open>manifest_flags.rs\<close>, \<open>manifest_parse.rs\<close>): the flag bits, the constructors and accessors, and
  the parser that accepts exactly an 8-byte v1 record (upcast) or a 16-byte v2 record.
\<close>

section \<open>Constants\<close>

definition MANIFEST_MAGIC :: u32 where "MANIFEST_MAGIC = 0x56494345"
definition MANIFEST_VERSION :: u8 where "MANIFEST_VERSION = 2"
definition MANIFEST_VERSION_V1 :: u8 where "MANIFEST_VERSION_V1 = 1"

definition PROTECTION_CLASS_TRUSTED_CORE :: u8 where "PROTECTION_CLASS_TRUSTED_CORE = 0"
definition PROTECTION_CLASS_STANDARD :: u8 where "PROTECTION_CLASS_STANDARD = 1"
definition PROTECTION_CLASS_FFI :: u8 where "PROTECTION_CLASS_FFI = 2"
definition PROTECTION_CLASS_UNTRUSTED :: u8 where "PROTECTION_CLASS_UNTRUSTED = 3"
definition PROTECTION_CLASS_LEGACY :: u8 where "PROTECTION_CLASS_LEGACY = 0xFF"

definition MANIFEST_FLAG_BLOCK_IO :: u16 where "MANIFEST_FLAG_BLOCK_IO = 0x001"
definition MANIFEST_FLAG_NETWORK :: u16 where "MANIFEST_FLAG_NETWORK = 0x002"
definition MANIFEST_FLAG_SPAWN :: u16 where "MANIFEST_FLAG_SPAWN = 0x004"
definition MANIFEST_FLAG_GPIO :: u16 where "MANIFEST_FLAG_GPIO = 0x008"
definition MANIFEST_FLAG_UART :: u16 where "MANIFEST_FLAG_UART = 0x010"
definition MANIFEST_FLAG_HYPERVISOR :: u16 where "MANIFEST_FLAG_HYPERVISOR = 0x020"
definition MANIFEST_FLAG_PART_DATA :: u16 where "MANIFEST_FLAG_PART_DATA = 0x040"
definition MANIFEST_FLAG_PART_LFS :: u16 where "MANIFEST_FLAG_PART_LFS = 0x080"
definition MANIFEST_FLAG_CAN :: u16 where "MANIFEST_FLAG_CAN = 0x100"
definition MANIFEST_FLAG_ADC :: u16 where "MANIFEST_FLAG_ADC = 0x200"
definition MANIFEST_FLAG_I2C :: u16 where "MANIFEST_FLAG_I2C = 0x400"
definition MANIFEST_FLAG_SPI :: u16 where "MANIFEST_FLAG_SPI = 0x800"

lemmas manifest_flag_defs =
  MANIFEST_FLAG_BLOCK_IO_def MANIFEST_FLAG_NETWORK_def MANIFEST_FLAG_SPAWN_def
  MANIFEST_FLAG_GPIO_def MANIFEST_FLAG_UART_def MANIFEST_FLAG_HYPERVISOR_def
  MANIFEST_FLAG_PART_DATA_def MANIFEST_FLAG_PART_LFS_def MANIFEST_FLAG_CAN_def
  MANIFEST_FLAG_ADC_def MANIFEST_FLAG_I2C_def MANIFEST_FLAG_SPI_def

definition MANIFEST_FLAGS_MASK :: u16 where
  "MANIFEST_FLAGS_MASK = MANIFEST_FLAG_BLOCK_IO OR MANIFEST_FLAG_NETWORK OR MANIFEST_FLAG_SPAWN
     OR MANIFEST_FLAG_GPIO OR MANIFEST_FLAG_UART OR MANIFEST_FLAG_HYPERVISOR
     OR MANIFEST_FLAG_PART_DATA OR MANIFEST_FLAG_PART_LFS OR MANIFEST_FLAG_CAN
     OR MANIFEST_FLAG_ADC OR MANIFEST_FLAG_I2C OR MANIFEST_FLAG_SPI"

lemma MANIFEST_FLAGS_MASK_eq: "MANIFEST_FLAGS_MASK = 0xFFF"
  by (simp add: MANIFEST_FLAGS_MASK_def manifest_flag_defs)

section \<open>The record, its constructors and accessors\<close>

record cell_manifest =
  mf_magic :: u32
  mf_version :: u8
  mf_tier :: u8
  mf_flags :: u16
  mf_cap_args_off :: u32
  mf_reserved :: u32

text \<open>\<open>b as u16 * FLAG\<close>.\<close>

definition flag_if :: "bool \<Rightarrow> 'a::len word \<Rightarrow> 'a word" where
  "flag_if b f = (if b then f else 0)"

definition with_all ::
  "bool \<Rightarrow> bool \<Rightarrow> bool \<Rightarrow> bool \<Rightarrow> bool \<Rightarrow> bool \<Rightarrow> bool \<Rightarrow> bool \<Rightarrow> bool \<Rightarrow> bool \<Rightarrow> bool \<Rightarrow> bool \<Rightarrow> u8
   \<Rightarrow> cell_manifest" where
  "with_all block_io network spawn gpio uart hypervisor part_data part_lfs can adc i2c spi tier =
     \<lparr>mf_magic = MANIFEST_MAGIC, mf_version = MANIFEST_VERSION, mf_tier = tier,
      mf_flags = flag_if block_io MANIFEST_FLAG_BLOCK_IO OR flag_if network MANIFEST_FLAG_NETWORK
        OR flag_if spawn MANIFEST_FLAG_SPAWN OR flag_if gpio MANIFEST_FLAG_GPIO
        OR flag_if uart MANIFEST_FLAG_UART OR flag_if hypervisor MANIFEST_FLAG_HYPERVISOR
        OR flag_if part_data MANIFEST_FLAG_PART_DATA OR flag_if part_lfs MANIFEST_FLAG_PART_LFS
        OR flag_if can MANIFEST_FLAG_CAN OR flag_if adc MANIFEST_FLAG_ADC
        OR flag_if i2c MANIFEST_FLAG_I2C OR flag_if spi MANIFEST_FLAG_SPI,
      mf_cap_args_off = 0, mf_reserved = 0\<rparr>"

definition with_parts ::
  "bool \<Rightarrow> bool \<Rightarrow> bool \<Rightarrow> bool \<Rightarrow> bool \<Rightarrow> bool \<Rightarrow> bool \<Rightarrow> bool \<Rightarrow> cell_manifest" where
  "with_parts block_io network spawn gpio uart hypervisor part_data part_lfs =
     with_all block_io network spawn gpio uart hypervisor part_data part_lfs
       False False False False PROTECTION_CLASS_LEGACY"

definition manifest_new ::
  "bool \<Rightarrow> bool \<Rightarrow> bool \<Rightarrow> bool \<Rightarrow> bool \<Rightarrow> bool \<Rightarrow> cell_manifest" where
  "manifest_new block_io network spawn gpio uart hypervisor =
     with_all block_io network spawn gpio uart hypervisor
       False False False False False False PROTECTION_CLASS_LEGACY"

definition has_block_io :: "cell_manifest \<Rightarrow> bool" where
  "has_block_io m \<longleftrightarrow> mf_flags m AND MANIFEST_FLAG_BLOCK_IO \<noteq> 0"
definition has_network :: "cell_manifest \<Rightarrow> bool" where
  "has_network m \<longleftrightarrow> mf_flags m AND MANIFEST_FLAG_NETWORK \<noteq> 0"
definition has_spawn :: "cell_manifest \<Rightarrow> bool" where
  "has_spawn m \<longleftrightarrow> mf_flags m AND MANIFEST_FLAG_SPAWN \<noteq> 0"
definition has_gpio :: "cell_manifest \<Rightarrow> bool" where
  "has_gpio m \<longleftrightarrow> mf_flags m AND MANIFEST_FLAG_GPIO \<noteq> 0"
definition has_uart :: "cell_manifest \<Rightarrow> bool" where
  "has_uart m \<longleftrightarrow> mf_flags m AND MANIFEST_FLAG_UART \<noteq> 0"
definition has_hypervisor :: "cell_manifest \<Rightarrow> bool" where
  "has_hypervisor m \<longleftrightarrow> mf_flags m AND MANIFEST_FLAG_HYPERVISOR \<noteq> 0"
definition has_part_data :: "cell_manifest \<Rightarrow> bool" where
  "has_part_data m \<longleftrightarrow> mf_flags m AND MANIFEST_FLAG_PART_DATA \<noteq> 0"
definition has_part_lfs :: "cell_manifest \<Rightarrow> bool" where
  "has_part_lfs m \<longleftrightarrow> mf_flags m AND MANIFEST_FLAG_PART_LFS \<noteq> 0"
definition has_can :: "cell_manifest \<Rightarrow> bool" where
  "has_can m \<longleftrightarrow> mf_flags m AND MANIFEST_FLAG_CAN \<noteq> 0"
definition has_adc :: "cell_manifest \<Rightarrow> bool" where
  "has_adc m \<longleftrightarrow> mf_flags m AND MANIFEST_FLAG_ADC \<noteq> 0"
definition has_i2c :: "cell_manifest \<Rightarrow> bool" where
  "has_i2c m \<longleftrightarrow> mf_flags m AND MANIFEST_FLAG_I2C \<noteq> 0"
definition has_spi :: "cell_manifest \<Rightarrow> bool" where
  "has_spi m \<longleftrightarrow> mf_flags m AND MANIFEST_FLAG_SPI \<noteq> 0"
definition protection_class :: "cell_manifest \<Rightarrow> u8" where
  "protection_class m = mf_tier m"
definition declares_any_privilege :: "cell_manifest \<Rightarrow> bool" where
  "declares_any_privilege m \<longleftrightarrow> mf_flags m \<noteq> 0"

lemmas manifest_accessor_defs =
  has_block_io_def has_network_def has_spawn_def has_gpio_def has_uart_def has_hypervisor_def
  has_part_data_def has_part_lfs_def has_can_def has_adc_def has_i2c_def has_spi_def

section \<open>The parser\<close>

definition manifest_from_bytes :: "bytes \<Rightarrow> cell_manifest option" where
  "manifest_from_bytes bs =
     (if length bs \<noteq> 8 \<and> length bs \<noteq> 16 then None
      else
        let magic = from_le_bytes (slice 0 4 bs) in
        if magic \<noteq> MANIFEST_MAGIC then None
        else if bs ! 4 = MANIFEST_VERSION_V1 then
          (if length bs \<noteq> 8 \<or> bs ! 6 \<noteq> 0 \<or> bs ! 7 \<noteq> 0 then None
           else
             let flags = ucast (bs ! 5) in
             if flags AND NOT MANIFEST_FLAGS_MASK \<noteq> 0 then None
             else Some \<lparr>mf_magic = magic, mf_version = MANIFEST_VERSION,
                        mf_tier = PROTECTION_CLASS_LEGACY, mf_flags = flags,
                        mf_cap_args_off = 0, mf_reserved = 0\<rparr>)
        else if bs ! 4 = MANIFEST_VERSION then
          (if length bs \<noteq> 16 then None
           else
             let tier = bs ! 5 in
             if tier > PROTECTION_CLASS_UNTRUSTED \<and> tier \<noteq> PROTECTION_CLASS_LEGACY then None
             else
               let flags = from_le_bytes (slice 6 8 bs) in
               if flags AND NOT MANIFEST_FLAGS_MASK \<noteq> 0 then None
               else
                 let cap_args_off = from_le_bytes (slice 8 12 bs);
                     reserved = from_le_bytes (slice 12 16 bs)
                 in
                 if cap_args_off \<noteq> 0 \<or> reserved \<noteq> 0 then None
                 else Some \<lparr>mf_magic = magic, mf_version = MANIFEST_VERSION, mf_tier = tier,
                            mf_flags = flags, mf_cap_args_off = cap_args_off,
                            mf_reserved = reserved\<rparr>)
        else None)"

section \<open>Correctness\<close>

text \<open>The \<open>repr(C)\<close> image of a v2 record, and the records the parser may return.\<close>

definition manifest_bytes :: "cell_manifest \<Rightarrow> bytes" where
  "manifest_bytes m = to_le_bytes 4 (mf_magic m) @ [mf_version m, mf_tier m]
     @ to_le_bytes 2 (mf_flags m) @ to_le_bytes 4 (mf_cap_args_off m) @ to_le_bytes 4 (mf_reserved m)"

definition manifest_ok :: "cell_manifest \<Rightarrow> bool" where
  "manifest_ok m \<longleftrightarrow> mf_magic m = MANIFEST_MAGIC \<and> mf_version m = MANIFEST_VERSION
     \<and> (mf_tier m \<le> PROTECTION_CLASS_UNTRUSTED \<or> mf_tier m = PROTECTION_CLASS_LEGACY)
     \<and> subset_bits (mf_flags m) MANIFEST_FLAGS_MASK \<and> mf_cap_args_off m = 0 \<and> mf_reserved m = 0"

lemma manifest_from_bytes_ok: "manifest_from_bytes bs = Some m \<Longrightarrow> manifest_ok m"
  by (auto simp: manifest_from_bytes_def manifest_ok_def subset_bits_def Let_def not_less
      split: if_splits)

lemma le_field_roundtrip_small:
  "from_le_bytes (to_le_bytes 4 (v :: u32)) = v"
  "from_le_bytes (to_le_bytes 2 (w :: u16)) = w"
  by (simp_all add: from_le_to_le_bytes)

lemma manifest_bytes_layout:
  "length (manifest_bytes m) = 16"
  "slice 0 4 (manifest_bytes m) = to_le_bytes 4 (mf_magic m)"
  "manifest_bytes m ! 4 = mf_version m"
  "manifest_bytes m ! 5 = mf_tier m"
  "slice 6 8 (manifest_bytes m) = to_le_bytes 2 (mf_flags m)"
  "slice 8 12 (manifest_bytes m) = to_le_bytes 4 (mf_cap_args_off m)"
  "slice 12 16 (manifest_bytes m) = to_le_bytes 4 (mf_reserved m)"
proof -
  have two: "xs @ [a, b] @ ys = xs @ [a] @ [b] @ ys" for xs ys :: bytes and a b by simp
  show "length (manifest_bytes m) = 16" by (simp add: manifest_bytes_def)
  show "slice 0 4 (manifest_bytes m) = to_le_bytes 4 (mf_magic m)"
    by (simp add: manifest_bytes_def slice_append_take)
  show "manifest_bytes m ! 4 = mf_version m" "manifest_bytes m ! 5 = mf_tier m"
    by (simp_all add: manifest_bytes_def nth_append)
  show "slice 6 8 (manifest_bytes m) = to_le_bytes 2 (mf_flags m)"
    "slice 8 12 (manifest_bytes m) = to_le_bytes 4 (mf_cap_args_off m)"
    "slice 12 16 (manifest_bytes m) = to_le_bytes 4 (mf_reserved m)"
    by (simp_all add: manifest_bytes_def slice_def)
qed

lemma manifest_from_to_bytes: "manifest_ok m \<Longrightarrow> manifest_from_bytes (manifest_bytes m) = Some m"
  by (auto simp: manifest_from_bytes_def manifest_ok_def subset_bits_def Let_def manifest_bytes_layout
      le_field_roundtrip_small MANIFEST_VERSION_def MANIFEST_VERSION_V1_def
      PROTECTION_CLASS_UNTRUSTED_def PROTECTION_CLASS_LEGACY_def)

lemma and_flag_or: "((a OR b) AND f \<noteq> 0) \<longleftrightarrow> (a AND f \<noteq> 0 \<or> b AND f \<noteq> 0)"
  for a b f :: "'a::len word"
proof -
  have "(a OR b) AND f = (a AND f) OR (b AND f)" by (simp add: bit.conj_disj_distrib2)
  then show ?thesis by (simp add: or_eq_0_iff)
qed

lemma flag_if_and: "(flag_if c g AND f \<noteq> 0) \<longleftrightarrow> c \<and> g AND f \<noteq> 0"
  by (simp add: flag_if_def)

lemma with_all_accessors:
  "has_block_io (with_all a b c d e f g h i j k l t) = a"
  "has_network (with_all a b c d e f g h i j k l t) = b"
  "has_spawn (with_all a b c d e f g h i j k l t) = c"
  "has_gpio (with_all a b c d e f g h i j k l t) = d"
  "has_uart (with_all a b c d e f g h i j k l t) = e"
  "has_hypervisor (with_all a b c d e f g h i j k l t) = f"
  "has_part_data (with_all a b c d e f g h i j k l t) = g"
  "has_part_lfs (with_all a b c d e f g h i j k l t) = h"
  "has_can (with_all a b c d e f g h i j k l t) = i"
  "has_adc (with_all a b c d e f g h i j k l t) = j"
  "has_i2c (with_all a b c d e f g h i j k l t) = k"
  "has_spi (with_all a b c d e f g h i j k l t) = l"
  by (simp_all add: with_all_def manifest_accessor_defs and_flag_or flag_if_and manifest_flag_defs)

end
