(* ===== verification/CapSet.thy ===== *)
theory CapSet
  imports Manifest
begin

text \<open>
  Capability sets and spawn-time delegation (\<open>kernel/src/task/cap.rs\<close>): the plain-data snapshot
  \<open>CapSet\<close>, what a manifest and an install path request, the field-wise intersection, the caller
  flags attested to services, the TCB fields a grant is written to, the Platform singleton and the
  protection-class floor.  A capability token \<open>Option<XCap>\<close> of the TCB is a \<open>unit option\<close>.
\<close>

section \<open>Device bits and caller flags\<close>

definition DEV_UART :: u8 where "DEV_UART = 0x01"
definition DEV_GPIO :: u8 where "DEV_GPIO = 0x02"
definition DEV_PCIE :: u8 where "DEV_PCIE = 0x04"
definition DEV_CAN :: u8 where "DEV_CAN = 0x08"
definition DEV_ADC :: u8 where "DEV_ADC = 0x10"
definition DEV_I2C :: u8 where "DEV_I2C = 0x20"
definition DEV_SPI :: u8 where "DEV_SPI = 0x40"
definition DEV_DISPLAY :: u8 where "DEV_DISPLAY = 0x80"

lemmas dev_defs = DEV_UART_def DEV_GPIO_def DEV_PCIE_def DEV_CAN_def DEV_ADC_def DEV_I2C_def
  DEV_SPI_def DEV_DISPLAY_def

definition CALLER_FLAG_NET_RESOLVE :: u32 where "CALLER_FLAG_NET_RESOLVE = 0x02"
definition CALLER_FLAG_NET_CONNECT :: u32 where "CALLER_FLAG_NET_CONNECT = 0x04"
definition CALLER_FLAG_NET_LISTEN :: u32 where "CALLER_FLAG_NET_LISTEN = 0x08"
definition CALLER_FLAG_NET_L2 :: u32 where "CALLER_FLAG_NET_L2 = 0x10"
definition CALLER_FLAG_CONFIG_WRITE :: u32 where "CALLER_FLAG_CONFIG_WRITE = 0x20"
definition CALLER_FLAG_KMS_SSH_SIGN :: u32 where "CALLER_FLAG_KMS_SSH_SIGN = 0x40"
definition CALLER_FLAG_KMS_SSH_ADMIN :: u32 where "CALLER_FLAG_KMS_SSH_ADMIN = 0x80"

lemmas caller_flag_defs = CALLER_FLAG_NET_RESOLVE_def CALLER_FLAG_NET_CONNECT_def
  CALLER_FLAG_NET_LISTEN_def CALLER_FLAG_NET_L2_def CALLER_FLAG_CONFIG_WRITE_def
  CALLER_FLAG_KMS_SSH_SIGN_def CALLER_FLAG_KMS_SSH_ADMIN_def

section \<open>Capability sets\<close>

record capset =
  cs_block_io :: bool
  cs_network :: bool
  cs_spawn :: bool
  cs_hypervisor :: bool
  cs_mmio_devices :: u8
  cs_block_regions :: u8
  cs_pcie_driver :: bool
  cs_platform :: bool
  cs_supervisor :: bool
  cs_usb_driver :: bool
  cs_serial_port :: bool
  cs_net_resolve :: bool
  cs_net_connect :: bool
  cs_net_listen :: bool
  cs_net_l2 :: bool
  cs_observe_tasks :: bool
  cs_observe_memory :: bool
  cs_vfs_mutate :: bool
  cs_config_write :: bool
  cs_kms_ssh_sign :: bool
  cs_kms_ssh_admin :: bool

definition CAPSET_EMPTY :: capset where
  "CAPSET_EMPTY =
     \<lparr>cs_block_io = False,
      cs_network = False,
      cs_spawn = False,
      cs_hypervisor = False,
      cs_mmio_devices = 0,
      cs_block_regions = 0,
      cs_pcie_driver = False,
      cs_platform = False,
      cs_supervisor = False,
      cs_usb_driver = False,
      cs_serial_port = False,
      cs_net_resolve = False,
      cs_net_connect = False,
      cs_net_listen = False,
      cs_net_l2 = False,
      cs_observe_tasks = False,
      cs_observe_memory = False,
      cs_vfs_mutate = False,
      cs_config_write = False,
      cs_kms_ssh_sign = False,
      cs_kms_ssh_admin = False\<rparr>"

definition LEGACY_OBSERVE_MUTATE :: capset where
  "LEGACY_OBSERVE_MUTATE =
     CAPSET_EMPTY\<lparr>cs_observe_tasks := True, cs_observe_memory := True, cs_vfs_mutate := True\<rparr>"

definition CAPSET_ALL :: capset where
  "CAPSET_ALL =
     \<lparr>cs_block_io = True,
      cs_network = True,
      cs_spawn = True,
      cs_hypervisor = True,
      cs_mmio_devices = DEV_GPIO OR DEV_UART OR DEV_CAN OR DEV_ADC OR DEV_I2C OR DEV_SPI OR DEV_DISPLAY,
      cs_block_regions = 15,
      cs_pcie_driver = True,
      cs_platform = True,
      cs_supervisor = True,
      cs_usb_driver = True,
      cs_serial_port = True,
      cs_net_resolve = True,
      cs_net_connect = True,
      cs_net_listen = True,
      cs_net_l2 = True,
      cs_observe_tasks = True,
      cs_observe_memory = True,
      cs_vfs_mutate = True,
      cs_config_write = True,
      cs_kms_ssh_sign = True,
      cs_kms_ssh_admin = True\<rparr>"

text \<open>The capability fields of a Task's control block.\<close>

record task_caps =
  tc_block_io_cap :: "unit option"
  tc_network_cap :: "unit option"
  tc_spawn_cap :: "unit option"
  tc_hypervisor_cap :: "unit option"
  tc_mmio_devices :: u8
  tc_block_regions :: u8
  tc_pcie_driver_cap :: "unit option"
  tc_platform_cap :: "unit option"
  tc_supervisor_cap :: "unit option"
  tc_usb_driver_cap :: "unit option"
  tc_serial_port_cap :: "unit option"
  tc_net_resolve :: bool
  tc_net_connect :: bool
  tc_net_listen :: bool
  tc_net_l2 :: bool
  tc_observe_tasks :: bool
  tc_observe_memory :: bool
  tc_vfs_mutate :: bool
  tc_config_write :: bool
  tc_kms_ssh_sign :: bool
  tc_kms_ssh_admin :: bool

definition of_task :: "task_caps \<Rightarrow> capset" where
  "of_task t =
     \<lparr>cs_block_io = (tc_block_io_cap t \<noteq> None),
      cs_network = (tc_network_cap t \<noteq> None),
      cs_spawn = (tc_spawn_cap t \<noteq> None),
      cs_hypervisor = (tc_hypervisor_cap t \<noteq> None),
      cs_mmio_devices = tc_mmio_devices t,
      cs_block_regions = tc_block_regions t,
      cs_pcie_driver = (tc_pcie_driver_cap t \<noteq> None),
      cs_platform = (tc_platform_cap t \<noteq> None),
      cs_supervisor = (tc_supervisor_cap t \<noteq> None),
      cs_usb_driver = (tc_usb_driver_cap t \<noteq> None),
      cs_serial_port = (tc_serial_port_cap t \<noteq> None),
      cs_net_resolve = tc_net_resolve t,
      cs_net_connect = tc_net_connect t,
      cs_net_listen = tc_net_listen t,
      cs_net_l2 = tc_net_l2 t,
      cs_observe_tasks = tc_observe_tasks t,
      cs_observe_memory = tc_observe_memory t,
      cs_vfs_mutate = tc_vfs_mutate t,
      cs_config_write = tc_config_write t,
      cs_kms_ssh_sign = tc_kms_ssh_sign t,
      cs_kms_ssh_admin = tc_kms_ssh_admin t\<rparr>"

text \<open>The CPU virtualisation features probed at boot (\<open>cpu_features.rs\<close>).\<close>

record cpu_features =
  has_h_ext :: bool
  has_el2 :: bool
  has_x86_virt :: bool

definition from_manifest :: "cpu_features \<Rightarrow> cell_manifest \<Rightarrow> capset" where
  "from_manifest cpu m =
     (let hv = has_hypervisor m \<and> (has_h_ext cpu \<or> has_el2 cpu \<or> has_x86_virt cpu);
          mmio = 0;
          mmio = (if has_gpio m then mmio OR DEV_GPIO else mmio);
          mmio = (if has_uart m then mmio OR DEV_UART else mmio);
          mmio = (if has_can m then mmio OR DEV_CAN else mmio);
          mmio = (if has_adc m then mmio OR DEV_ADC else mmio);
          mmio = (if has_i2c m then mmio OR DEV_I2C else mmio);
          mmio = (if has_spi m then mmio OR DEV_SPI else mmio)
      in
      \<lparr>cs_block_io = has_block_io m,
       cs_network = has_network m,
       cs_spawn = has_spawn m,
       cs_hypervisor = hv,
       cs_mmio_devices = mmio,
       cs_block_regions = flag_if (has_part_data m) 1 OR push_bit 1 (flag_if (has_part_lfs m) 1)
        OR push_bit 2 (flag_if (has_part_lfs m) 1),
       cs_pcie_driver = False,
       cs_platform = False,
       cs_supervisor = False,
       cs_usb_driver = False,
       cs_serial_port = False,
       cs_net_resolve = False,
       cs_net_connect = False,
       cs_net_listen = False,
       cs_net_l2 = False,
       cs_observe_tasks = False,
       cs_observe_memory = False,
       cs_vfs_mutate = False,
       cs_config_write = False,
       cs_kms_ssh_sign = False,
       cs_kms_ssh_admin = False\<rparr>)"

section \<open>Path-triggered requests\<close>

definition starts_with :: "string \<Rightarrow> string \<Rightarrow> bool" where
  "starts_with s pre \<longleftrightarrow> take (length pre) s = pre"

definition with_path_net_rights :: "capset \<Rightarrow> string \<Rightarrow> capset" where
  "with_path_net_rights c path =
     (let (resolve, connect, listen, l2) =
        (if path \<in> {''/bin/curl'', ''/bin/wget'', ''/bin/mqtt'', ''/bin/ocel'', ''/bin/llm-gateway'',
                    ''/bin/https-demo'', ''/bin/robot-demo'', ''/bin/cellbox-ssh''}
         then (True, True, False, False)
         else if path \<in> {''/bin/nc'', ''/bin/net-broker''} then (True, True, True, False)
         else if path \<in> {''/bin/httpd'', ''/bin/sshd''} then (False, False, True, False)
         else if path = ''/bin/hypervisor'' then (False, False, False, True)
         else (False, False, False, False))
      in c\<lparr>cs_net_resolve := cs_net_resolve c \<or> resolve,
           cs_net_connect := cs_net_connect c \<or> connect,
           cs_net_listen := cs_net_listen c \<or> listen,
           cs_net_l2 := cs_net_l2 c \<or> l2\<rparr>)"

definition is_sandbox_path :: "string \<Rightarrow> bool" where
  "is_sandbox_path path \<longleftrightarrow>
     starts_with path ''/apps/'' \<or> starts_with path ''/data/bin/'' \<or> starts_with path ''/home/''"

definition with_path_observe_mutate_rights :: "capset \<Rightarrow> string \<Rightarrow> capset" where
  "with_path_observe_mutate_rights c path =
     (if \<not> is_sandbox_path path
      then c\<lparr>cs_observe_tasks := True, cs_observe_memory := True, cs_vfs_mutate := True\<rparr>
      else c)"

definition with_path_config_rights :: "capset \<Rightarrow> string \<Rightarrow> capset" where
  "with_path_config_rights c path =
     (if path = ''/bin/cellbox'' then c\<lparr>cs_config_write := True\<rparr> else c)"

definition with_path_kms_ssh_rights :: "capset \<Rightarrow> string \<Rightarrow> capset" where
  "with_path_kms_ssh_rights c path =
     (let c = (if path = ''/bin/cellbox-ssh'' then c\<lparr>cs_kms_ssh_sign := True\<rparr> else c)
      in if path = ''/bin/kms-ssh-admin'' then c\<lparr>cs_kms_ssh_admin := True\<rparr> else c)"

text \<open>The body of \<open>with_path_caps\<close> before the four rights helpers it chains.\<close>

definition with_path_ptrust :: "capset \<Rightarrow> string \<Rightarrow> capset" where
  "with_path_ptrust c path =
     (let c = (if path = ''/bin/vfs'' then c\<lparr>cs_block_regions := cs_block_regions c OR 8\<rparr> else c);
          c = (if path \<in> {''/bin/nvme'', ''/bin/e1000'', ''/bin/igb'', ''/bin/virtio-net'',
                          ''/bin/block'', ''/bin/input'', ''/bin/virtio-gpu'', ''/bin/ahci''}
               then c\<lparr>cs_pcie_driver := True, cs_mmio_devices := cs_mmio_devices c OR DEV_DISPLAY\<rparr>
               else c);
          c = (if path = ''/bin/bcm-display''
               then c\<lparr>cs_mmio_devices := cs_mmio_devices c OR DEV_DISPLAY\<rparr> else c);
          c = (if path = ''/bin/xhci''
               then c\<lparr>cs_pcie_driver := True, cs_usb_driver := True,
                     cs_mmio_devices := cs_mmio_devices c OR DEV_DISPLAY\<rparr> else c);
          c = (if path = ''/bin/dwc2-usb'' then c\<lparr>cs_usb_driver := True\<rparr> else c);
          c = (if path = ''/bin/serial'' then c\<lparr>cs_serial_port := True\<rparr> else c);
          c = (if path = ''/bin/platform'' then c\<lparr>cs_platform := True\<rparr> else c)
      in if path = ''/bin/supervisor'' then c\<lparr>cs_supervisor := True\<rparr> else c)"

definition with_path_caps :: "capset \<Rightarrow> string \<Rightarrow> capset" where
  "with_path_caps c path =
     with_path_kms_ssh_rights (with_path_config_rights (with_path_observe_mutate_rights
       (with_path_net_rights (with_path_ptrust c path) path) path) path) path"

definition path_mints_ptrust :: "string \<Rightarrow> bool" where
  "path_mints_ptrust path =
     (let requested = with_path_caps CAPSET_EMPTY path in
      cs_pcie_driver requested \<or> cs_platform requested \<or> cs_supervisor requested
      \<or> cs_usb_driver requested \<or> cs_serial_port requested)"

definition without_ptrust :: "capset \<Rightarrow> capset" where
  "without_ptrust c = c\<lparr>cs_pcie_driver := False, cs_platform := False, cs_supervisor := False,
     cs_usb_driver := False, cs_serial_port := False\<rparr>"

definition without_observe_mutate :: "capset \<Rightarrow> capset" where
  "without_observe_mutate c =
     c\<lparr>cs_observe_tasks := False, cs_observe_memory := False, cs_vfs_mutate := False\<rparr>"

definition intersect :: "capset \<Rightarrow> capset \<Rightarrow> capset" where
  "intersect c d =
     \<lparr>cs_block_io = (cs_block_io c \<and> cs_block_io d),
      cs_network = (cs_network c \<and> cs_network d),
      cs_spawn = (cs_spawn c \<and> cs_spawn d),
      cs_hypervisor = (cs_hypervisor c \<and> cs_hypervisor d),
      cs_mmio_devices = cs_mmio_devices c AND cs_mmio_devices d,
      cs_block_regions = cs_block_regions c AND cs_block_regions d,
      cs_pcie_driver = (cs_pcie_driver c \<and> cs_pcie_driver d),
      cs_platform = (cs_platform c \<and> cs_platform d),
      cs_supervisor = (cs_supervisor c \<and> cs_supervisor d),
      cs_usb_driver = (cs_usb_driver c \<and> cs_usb_driver d),
      cs_serial_port = (cs_serial_port c \<and> cs_serial_port d),
      cs_net_resolve = (cs_net_resolve c \<and> cs_net_resolve d),
      cs_net_connect = (cs_net_connect c \<and> cs_net_connect d),
      cs_net_listen = (cs_net_listen c \<and> cs_net_listen d),
      cs_net_l2 = (cs_net_l2 c \<and> cs_net_l2 d),
      cs_observe_tasks = (cs_observe_tasks c \<and> cs_observe_tasks d),
      cs_observe_memory = (cs_observe_memory c \<and> cs_observe_memory d),
      cs_vfs_mutate = (cs_vfs_mutate c \<and> cs_vfs_mutate d),
      cs_config_write = (cs_config_write c \<and> cs_config_write d),
      cs_kms_ssh_sign = (cs_kms_ssh_sign c \<and> cs_kms_ssh_sign d),
      cs_kms_ssh_admin = (cs_kms_ssh_admin c \<and> cs_kms_ssh_admin d)\<rparr>"

section \<open>Caller flags and TCB transfer\<close>

definition net_caller_flags :: "capset \<Rightarrow> u32" where
  "net_caller_flags c =
     fold (\<lambda>(_, flag) flags. flags OR flag)
       (filter (\<lambda>(held, _). held)
         [(cs_net_resolve c, CALLER_FLAG_NET_RESOLVE), (cs_net_connect c, CALLER_FLAG_NET_CONNECT),
          (cs_net_listen c, CALLER_FLAG_NET_LISTEN), (cs_net_l2 c, CALLER_FLAG_NET_L2)]) 0"

definition config_caller_flags :: "capset \<Rightarrow> u32" where
  "config_caller_flags c = (if cs_config_write c then CALLER_FLAG_CONFIG_WRITE else 0)"

definition kms_caller_flags :: "capset \<Rightarrow> u32" where
  "kms_caller_flags c =
     (let flags = 0;
          flags = (if cs_kms_ssh_sign c then flags OR CALLER_FLAG_KMS_SSH_SIGN else flags)
      in if cs_kms_ssh_admin c then flags OR CALLER_FLAG_KMS_SSH_ADMIN else flags)"

text \<open>\<open>self.x.then(XCap::new)\<close>.\<close>

definition then_cap :: "bool \<Rightarrow> unit option" where
  "then_cap b = (if b then Some () else None)"

definition apply_to :: "capset \<Rightarrow> task_caps \<Rightarrow> task_caps" where
  "apply_to c t = t\<lparr>tc_block_io_cap := then_cap (cs_block_io c),
     tc_network_cap := then_cap (cs_network c),
     tc_spawn_cap := then_cap (cs_spawn c),
     tc_hypervisor_cap := then_cap (cs_hypervisor c),
     tc_mmio_devices := cs_mmio_devices c,
     tc_block_regions := cs_block_regions c,
     tc_pcie_driver_cap := then_cap (cs_pcie_driver c),
     tc_supervisor_cap := then_cap (cs_supervisor c),
     tc_usb_driver_cap := then_cap (cs_usb_driver c),
     tc_serial_port_cap := then_cap (cs_serial_port c),
     tc_net_resolve := cs_net_resolve c,
     tc_net_connect := cs_net_connect c,
     tc_net_listen := cs_net_listen c,
     tc_net_l2 := cs_net_l2 c,
     tc_observe_tasks := cs_observe_tasks c,
     tc_observe_memory := cs_observe_memory c,
     tc_vfs_mutate := cs_vfs_mutate c,
     tc_config_write := cs_config_write c,
     tc_kms_ssh_sign := cs_kms_ssh_sign c,
     tc_kms_ssh_admin := cs_kms_ssh_admin c\<rparr>"

text \<open>
  The Platform singleton latch and its rollback owner: \<open>reserve_platform\<close>, \<open>commit_into\<close> (which
  consumes the reservation and disarms its \<open>Drop\<close>) and the \<open>Drop\<close> of an uncommitted reservation.
\<close>

definition reserve_platform :: "bool \<Rightarrow> (unit option) \<times> bool" where
  "reserve_platform granted = (if granted then (None, granted) else (Some (), True))"

definition commit_into :: "task_caps \<Rightarrow> task_caps" where
  "commit_into t = t\<lparr>tc_platform_cap := Some ()\<rparr>"

definition drop_reservation :: "bool \<Rightarrow> bool \<Rightarrow> bool" where
  "drop_reservation committed granted = (if committed then granted else False)"

section \<open>Protection classes and spawners\<close>

definition granted_protection_class :: "capset \<Rightarrow> u8 \<Rightarrow> u8" where
  "granted_protection_class granted requested =
     (let is_trusted = cs_block_io granted \<or> cs_network granted \<or> cs_spawn granted \<or> cs_hypervisor granted;
          floor = (if is_trusted then PROTECTION_CLASS_TRUSTED_CORE else PROTECTION_CLASS_STANDARD)
      in if requested = PROTECTION_CLASS_LEGACY then floor else max requested floor)"

datatype spawner = Root | User usize | Ceiling capset

section \<open>The delegation order\<close>

text \<open>\<open>cap_le c d\<close>: every authority of \<open>c\<close> is an authority of \<open>d\<close>.\<close>

definition cap_le :: "capset \<Rightarrow> capset \<Rightarrow> bool" where
  "cap_le c d \<longleftrightarrow>
     (cs_block_io c \<longrightarrow> cs_block_io d)
     \<and> (cs_network c \<longrightarrow> cs_network d)
     \<and> (cs_spawn c \<longrightarrow> cs_spawn d)
     \<and> (cs_hypervisor c \<longrightarrow> cs_hypervisor d)
     \<and> subset_bits (cs_mmio_devices c) (cs_mmio_devices d)
     \<and> subset_bits (cs_block_regions c) (cs_block_regions d)
     \<and> (cs_pcie_driver c \<longrightarrow> cs_pcie_driver d)
     \<and> (cs_platform c \<longrightarrow> cs_platform d)
     \<and> (cs_supervisor c \<longrightarrow> cs_supervisor d)
     \<and> (cs_usb_driver c \<longrightarrow> cs_usb_driver d)
     \<and> (cs_serial_port c \<longrightarrow> cs_serial_port d)
     \<and> (cs_net_resolve c \<longrightarrow> cs_net_resolve d)
     \<and> (cs_net_connect c \<longrightarrow> cs_net_connect d)
     \<and> (cs_net_listen c \<longrightarrow> cs_net_listen d)
     \<and> (cs_net_l2 c \<longrightarrow> cs_net_l2 d)
     \<and> (cs_observe_tasks c \<longrightarrow> cs_observe_tasks d)
     \<and> (cs_observe_memory c \<longrightarrow> cs_observe_memory d)
     \<and> (cs_vfs_mutate c \<longrightarrow> cs_vfs_mutate d)
     \<and> (cs_config_write c \<longrightarrow> cs_config_write d)
     \<and> (cs_kms_ssh_sign c \<longrightarrow> cs_kms_ssh_sign d)
     \<and> (cs_kms_ssh_admin c \<longrightarrow> cs_kms_ssh_admin d)"

definition cap_less :: "capset \<Rightarrow> capset \<Rightarrow> bool" where
  "cap_less c d \<longleftrightarrow> cap_le c d \<and> \<not> cap_le d c"

lemma subset_bits_antisym: "subset_bits x y \<Longrightarrow> subset_bits y x \<Longrightarrow> x = y"
  by (auto simp: subset_bits_iff bit_eq_iff)

lemma subset_bits_0_iff: "subset_bits x 0 \<longleftrightarrow> x = 0"
  using subset_bits_antisym [OF _ subset_bits_zero] by auto

lemma subset_bits_inf: "subset_bits x y \<Longrightarrow> subset_bits x z \<Longrightarrow> subset_bits x (y AND z)"
  by (simp add: subset_bits_iff bit_simps)

lemma cap_le_refl [simp]: "cap_le c c"
  by (simp add: cap_le_def)

lemma cap_le_privileged:
  assumes "cap_le c d"
  shows "cs_pcie_driver c \<Longrightarrow> cs_pcie_driver d" "cs_platform c \<Longrightarrow> cs_platform d"
    "cs_supervisor c \<Longrightarrow> cs_supervisor d" "cs_usb_driver c \<Longrightarrow> cs_usb_driver d"
    "cs_serial_port c \<Longrightarrow> cs_serial_port d" "cs_kms_ssh_sign c \<Longrightarrow> cs_kms_ssh_sign d"
    "cs_kms_ssh_admin c \<Longrightarrow> cs_kms_ssh_admin d"
  using assms by (simp_all add: cap_le_def)

lemma cap_le_trans: "cap_le a b \<Longrightarrow> cap_le b c \<Longrightarrow> cap_le a c"
  using subset_bits_trans [of "cs_mmio_devices a" "cs_mmio_devices b" "cs_mmio_devices c"]
    subset_bits_trans [of "cs_block_regions a" "cs_block_regions b" "cs_block_regions c"]
  by (simp add: cap_le_def)

lemma cap_le_antisym: "cap_le a b \<Longrightarrow> cap_le b a \<Longrightarrow> a = b"
  by (cases a; cases b) (simp add: cap_le_def subset_bits_antisym iff_conv_conj_imp)

lemma intersect_le1: "cap_le (intersect c d) c"
  by (simp add: cap_le_def intersect_def)

lemma intersect_le2: "cap_le (intersect c d) d"
  by (simp add: cap_le_def intersect_def)

lemma intersect_greatest: "cap_le a c \<Longrightarrow> cap_le a d \<Longrightarrow> cap_le a (intersect c d)"
  by (simp add: cap_le_def intersect_def subset_bits_inf)

text \<open>
  Capability sets with \<^const>\<open>intersect\<close> form a meet-semilattice under delegation, so the library's
  order facts (commutativity, associativity, monotonicity of the meet) hold of the kernel's sets.
\<close>

interpretation capset_meet: semilattice_inf intersect cap_le cap_less
proof
  show "cap_less x y = (cap_le x y \<and> \<not> cap_le y x)" for x y by (rule cap_less_def)
  show "cap_le x x" for x by (rule cap_le_refl)
  show "cap_le x y \<Longrightarrow> cap_le y z \<Longrightarrow> cap_le x z" for x y z by (rule cap_le_trans)
  show "cap_le x y \<Longrightarrow> cap_le y x \<Longrightarrow> x = y" for x y by (rule cap_le_antisym)
  show "cap_le (intersect x y) x" for x y by (rule intersect_le1)
  show "cap_le (intersect x y) y" for x y by (rule intersect_le2)
  show "cap_le x y \<Longrightarrow> cap_le x z \<Longrightarrow> cap_le x (intersect y z)" for x y z
    by (rule intersect_greatest)
qed

lemma cap_le_without_ptrust [simp]: "cap_le (without_ptrust c) c"
  by (simp add: cap_le_def without_ptrust_def)

lemma cap_le_EMPTY [simp]: "cap_le CAPSET_EMPTY c"
  by (simp add: cap_le_def CAPSET_EMPTY_def)

end
