(* ===== verification/Cap_Registry.thy ===== *)
theory Cap_Registry
  imports Cellos_Prelude
begin

text \<open>
  The kernel capability registry (\<open>kernel/src/cell/cap_registry.rs\<close>): the owner-checked capability
  table with lazily expiring leases, and the store that keeps the open file behind each CSpace
  ticket.  File objects (\<open>Box<dyn ViFile>\<close>) are values of an arbitrary type \<open>'f\<close>.  A ticket entry is
  \<open>Some f\<close> while its file is at home and \<open>None\<close> while a syscall has it parked.
\<close>

section \<open>Permissions and entries\<close>

definition CAP_PERM_READ :: u32 where "CAP_PERM_READ = 1"
definition CAP_PERM_WRITE :: u32 where "CAP_PERM_WRITE = 2"
definition CAP_PERM_SEEK :: u32 where "CAP_PERM_SEEK = 4"

definition perms_has :: "u32 \<Rightarrow> u32 \<Rightarrow> bool" where
  "perms_has self perm \<longleftrightarrow> self AND perm = perm"

datatype 'f cap_resource = File (res_file: "'f option")

record 'f cap_entry =
  ce_owner :: cell_id
  ce_resource :: "'f cap_resource"
  ce_perms :: u32
  ce_expires_at :: "u64 option"

record 'f cap_table =
  ct_entries :: "(u64, 'f cap_entry) btree"
  ct_next_id :: u64

section \<open>Table operations\<close>

definition cap_table_new :: "'f cap_table" where
  "cap_table_new = \<lparr>ct_entries = [], ct_next_id = 1\<rparr>"

definition alloc :: "cell_id \<Rightarrow> 'f cap_resource \<Rightarrow> u32 \<Rightarrow> 'f cap_table \<Rightarrow> (vi_error + u64) \<times> 'f cap_table" where
  "alloc owner resource perms t =
     (case checked_add (ct_next_id t) 1 of
        None \<Rightarrow> (Err OutOfMemory, t)
      | Some next \<Rightarrow>
          let i = ct_next_id t in
          (Ok i, t\<lparr>ct_next_id := next,
                   ct_entries := bt_insert i \<lparr>ce_owner = owner, ce_resource = resource,
                     ce_perms = perms, ce_expires_at = None\<rparr> (ct_entries t)\<rparr>))"

definition alloc_with_lease ::
  "cell_id \<Rightarrow> 'f cap_resource \<Rightarrow> u32 \<Rightarrow> u64 \<Rightarrow> 'f cap_table \<Rightarrow> (vi_error + u64) \<times> 'f cap_table" where
  "alloc_with_lease owner resource perms expires_at t =
     (case alloc owner resource perms t of
        (Err e, t') \<Rightarrow> (Err e, t')
      | (Ok i, t') \<Rightarrow>
          (Ok i, case bt_get (ct_entries t') i of
                   Some e \<Rightarrow> t'\<lparr>ct_entries := bt_insert i (e\<lparr>ce_expires_at := Some expires_at\<rparr>) (ct_entries t')\<rparr>
                 | None \<Rightarrow> t'))"

text \<open>\<open>now\<close> is the value of \<open>system_ticks()\<close> at the call.\<close>

definition verify :: "u64 \<Rightarrow> u64 \<Rightarrow> cell_id \<Rightarrow> 'f cap_table \<Rightarrow> (vi_error + unit) \<times> 'f cap_table" where
  "verify now cap_id caller t =
     (case bt_get (ct_entries t) cap_id of
        Some e \<Rightarrow>
          if ce_owner e = caller then
            (case ce_expires_at e of
               Some exp \<Rightarrow>
                 if now \<ge> exp then (Err PermissionDenied, t\<lparr>ct_entries := bt_remove cap_id (ct_entries t)\<rparr>)
                 else (Ok (), t)
             | None \<Rightarrow> (Ok (), t))
          else (Err PermissionDenied, t)
      | None \<Rightarrow> (Err NotFound, t))"

definition revoke :: "u64 \<Rightarrow> 'f cap_table \<Rightarrow> 'f cap_table" where
  "revoke cap_id t = t\<lparr>ct_entries := bt_remove cap_id (ct_entries t)\<rparr>"

definition revoke_all_for :: "cell_id \<Rightarrow> 'f cap_table \<Rightarrow> 'f cap_table" where
  "revoke_all_for owner t = t\<lparr>ct_entries := bt_retain (\<lambda>_ e. ce_owner e \<noteq> owner) (ct_entries t)\<rparr>"

definition get_if_owner :: "u64 \<Rightarrow> cell_id \<Rightarrow> 'f cap_table \<Rightarrow> 'f cap_entry option" where
  "get_if_owner cap_id caller t =
     (case bt_get (ct_entries t) cap_id of
        Some e \<Rightarrow> if ce_owner e = caller then Some e else None
      | None \<Rightarrow> None)"

definition park_file ::
  "u64 \<Rightarrow> u64 \<Rightarrow> cell_id \<Rightarrow> u32 \<Rightarrow> 'f cap_table \<Rightarrow> (vi_error + 'f) \<times> 'f cap_table" where
  "park_file now cap_id owner required_perm t =
     (case verify now cap_id owner t of
        (Err e, t') \<Rightarrow> (Err e, t')
      | (Ok _, t') \<Rightarrow>
          (case bt_get (ct_entries t') cap_id of
             None \<Rightarrow> (Err NotFound, t')
           | Some entry \<Rightarrow>
               if \<not> perms_has (ce_perms entry) required_perm then (Err PermissionDenied, t')
               else (case res_file (ce_resource entry) of
                       None \<Rightarrow> (Err InvalidInput, t')
                     | Some f \<Rightarrow>
                         (Ok f, t'\<lparr>ct_entries :=
                            bt_insert cap_id (entry\<lparr>ce_resource := File None\<rparr>) (ct_entries t')\<rparr>))))"

definition unpark_file :: "u64 \<Rightarrow> 'f \<Rightarrow> 'f cap_table \<Rightarrow> 'f cap_table" where
  "unpark_file cap_id boxed_file t =
     (case bt_get (ct_entries t) cap_id of
        Some entry \<Rightarrow>
          t\<lparr>ct_entries := bt_insert cap_id (entry\<lparr>ce_resource := File (Some boxed_file)\<rparr>) (ct_entries t)\<rparr>
      | None \<Rightarrow> t)"

section \<open>Ticket files\<close>

type_synonym file_key = "u64 \<times> u64 \<times> u64"
type_synonym 'f cspace_files = "(file_key, 'f option) btree"

definition attach_file_to_ticket :: "file_key \<Rightarrow> 'f \<Rightarrow> 'f cspace_files \<Rightarrow> 'f cspace_files" where
  "attach_file_to_ticket key file fs = bt_insert key (Some file) fs"

definition park_ticket_file :: "file_key \<Rightarrow> 'f cspace_files \<Rightarrow> 'f option \<times> 'f cspace_files" where
  "park_ticket_file key fs =
     (case bt_get fs key of
        Some opt \<Rightarrow> (opt, bt_insert key None fs)
      | None \<Rightarrow> (None, fs))"

definition unpark_ticket_file :: "file_key \<Rightarrow> 'f \<Rightarrow> 'f cspace_files \<Rightarrow> 'f cspace_files" where
  "unpark_ticket_file key file fs =
     (case bt_get fs key of
        Some opt \<Rightarrow> bt_insert key (Some file) fs
      | None \<Rightarrow> fs)"

definition remove_ticket_file :: "file_key \<Rightarrow> 'f cspace_files \<Rightarrow> 'f cspace_files" where
  "remove_ticket_file key fs = bt_remove key fs"

section \<open>The ticket-store interface\<close>

text \<open>
  What the capability space relies on: a lookup semantics of the four operations.  From it, a file
  is handed out at most once until it is returned, returning it restores the store, and a file
  returned after its ticket was removed does not revive the ticket.
\<close>

locale ticket_store =
  fixes look :: "'s \<Rightarrow> 'k \<Rightarrow> 'f option option"
    and attach :: "'k \<Rightarrow> 'f \<Rightarrow> 's \<Rightarrow> 's"
    and park :: "'k \<Rightarrow> 's \<Rightarrow> 'f option \<times> 's"
    and unpark :: "'k \<Rightarrow> 'f \<Rightarrow> 's \<Rightarrow> 's"
    and remove :: "'k \<Rightarrow> 's \<Rightarrow> 's"
  assumes look_attach: "look (attach k f s) = (look s)(k \<mapsto> Some f)"
    and park_result: "fst (park k s) = Option.bind (look s k) id"
    and look_park: "look (snd (park k s)) = (if look s k = None then look s else (look s)(k \<mapsto> None))"
    and look_unpark: "look (unpark k f s) = (if look s k = None then look s else (look s)(k \<mapsto> Some f))"
    and look_remove: "look (remove k s) = (look s)(k := None)"
begin

lemma park_exclusive: "park k s = (Some f, s') \<Longrightarrow> fst (park k s') = None"
  using park_result [of k s'] look_park [of k s] park_result [of k s] by (auto split: if_splits)

lemma park_unpark: "park k s = (Some f, s') \<Longrightarrow> look (unpark k f s') = look s"
  using look_park [of k s] park_result [of k s] look_unpark [of k f s']
  by (auto simp: fun_eq_iff split: if_splits bind_splits)

lemma park_attached: "fst (park k (attach k f s)) = Some f"
  by (simp add: park_result look_attach)

lemma unpark_removed: "look (unpark k f (remove k s)) k = None"
  by (simp add: look_unpark look_remove)

lemma park_other: "j \<noteq> k \<Longrightarrow> look (snd (park k s)) j = look s j"
  by (simp add: look_park)

end

lemma park_ticket_result: "fst (park_ticket_file k s) = Option.bind (bt_get s k) id"
  by (simp add: park_ticket_file_def split: option.splits)

lemma park_ticket_look:
  "bt_get (snd (park_ticket_file k s)) = (if bt_get s k = None then bt_get s else (bt_get s)(k \<mapsto> None))"
  by (simp add: park_ticket_file_def split: option.splits)

lemma unpark_ticket_look:
  "bt_get (unpark_ticket_file k f s) = (if bt_get s k = None then bt_get s else (bt_get s)(k \<mapsto> Some f))"
  by (simp add: unpark_ticket_file_def split: option.splits)

interpretation tfiles: ticket_store bt_get attach_file_to_ticket park_ticket_file
  unpark_ticket_file remove_ticket_file
  by unfold_locales
    (simp_all add: park_ticket_result park_ticket_look unpark_ticket_look
      attach_file_to_ticket_def remove_ticket_file_def)

section \<open>Table correctness\<close>

text \<open>Well-formed tables: ordered, ids nonzero and below the counter.\<close>

definition ct_inv :: "'f cap_table \<Rightarrow> bool" where
  "ct_inv t \<longleftrightarrow> bt_wf (ct_entries t) \<and> 0 < ct_next_id t
     \<and> (\<forall>i e. bt_get (ct_entries t) i = Some e \<longrightarrow> 0 < i \<and> i < ct_next_id t)"

lemmas cap_op_defs = alloc_def alloc_with_lease_def verify_def revoke_def revoke_all_for_def
  park_file_def unpark_file_def

lemma ct_inv_new [simp]: "ct_inv cap_table_new"
  by (simp add: ct_inv_def cap_table_new_def)

lemma ct_inv_alloc [cellos_inv]: "ct_inv t \<Longrightarrow> ct_inv (snd (alloc owner r p t))"
  by (auto simp: ct_inv_def alloc_def Let_def split: option.splits
      dest!: checked_add_1_less intro: less_trans [of _ "ct_next_id t"])

lemma ct_inv_alloc_with_lease [cellos_inv]:
  assumes "ct_inv t"
  shows "ct_inv (snd (alloc_with_lease owner r p x t))"
proof -
  obtain res t' where a: "alloc owner r p t = (res, t')" by fastforce
  have "ct_inv t'" using ct_inv_alloc [OF assms, of owner r p] a by simp
  then show ?thesis
    by (auto simp: alloc_with_lease_def a ct_inv_def split: sum.splits option.splits)
qed

lemma ct_inv_verify [cellos_inv]: "ct_inv t \<Longrightarrow> ct_inv (snd (verify now c who t))"
  by (auto simp: ct_inv_def verify_def split: option.splits if_splits)

lemma ct_inv_revoke [cellos_inv]: "ct_inv t \<Longrightarrow> ct_inv (revoke c t)"
  by (auto simp: ct_inv_def revoke_def split: if_splits)

lemma ct_inv_revoke_all_for [cellos_inv]: "ct_inv t \<Longrightarrow> ct_inv (revoke_all_for c t)"
  by (auto simp: ct_inv_def revoke_all_for_def bt_get_retain split: option.splits if_splits)

lemma ct_inv_park_file [cellos_inv]:
  assumes "ct_inv t"
  shows "ct_inv (snd (park_file now c who perm t))"
proof -
  obtain res t' where v: "verify now c who t = (res, t')" by fastforce
  have "ct_inv t'" using ct_inv_verify [OF assms, of now c who] v by simp
  then show ?thesis
    by (auto simp: park_file_def v ct_inv_def split: sum.splits option.splits)
qed

lemma ct_inv_unpark_file [cellos_inv]: "ct_inv t \<Longrightarrow> ct_inv (unpark_file c f t)"
  by (auto simp: ct_inv_def unpark_file_def split: option.splits if_splits)

text \<open>The public operations as a step relation.\<close>

inductive cap_step :: "'f cap_table \<Rightarrow> 'f cap_table \<Rightarrow> bool" where
  step_alloc: "cap_step t (snd (alloc owner r p t))"
| step_lease: "cap_step t (snd (alloc_with_lease owner r p x t))"
| step_verify: "cap_step t (snd (verify now c who t))"
| step_revoke: "cap_step t (revoke c t)"
| step_revoke_all: "cap_step t (revoke_all_for who t)"
| step_park: "cap_step t (snd (park_file now c who perm t))"
| step_unpark: "cap_step t (unpark_file c f t)"

definition ct_live :: "'f cap_table \<Rightarrow> u64 \<Rightarrow> bool" where
  "ct_live t i \<longleftrightarrow> bt_contains (ct_entries t) i"

lemma cap_step_next: "cap_step s t \<Longrightarrow> ct_next_id s \<le> ct_next_id t"
  by (cases rule: cap_step.cases, assumption)
    (auto simp: cap_op_defs Let_def less_imp_le
      dest!: checked_add_1_less split: option.splits sum.splits if_splits)

lemma filter_map_of_dom: "bt_get (bt_retain P m) i = Some y \<Longrightarrow> \<exists>z. bt_get m i = Some z"
  by (drule map_of_SomeD, rule weak_map_of_SomeI [of i y]) (simp add: bt_retain_def)

lemma cap_step_live: "cap_step s t \<Longrightarrow> ct_live t i \<Longrightarrow> ct_live s i \<or> ct_next_id s \<le> i"
  unfolding ct_live_def bt_contains_def
  by (cases rule: cap_step.cases, assumption)
    (auto simp: cap_op_defs Let_def dest: filter_map_of_dom
      split: option.splits sum.splits if_splits)

lemma cap_step_inv: "cap_step s t \<Longrightarrow> ct_inv s \<Longrightarrow> ct_inv t"
  by (cases rule: cap_step.cases, assumption) (auto intro: cellos_inv)

interpretation caps: id_source ct_inv cap_step ct_live ct_next_id
  by unfold_locales (auto dest: cap_step_next cap_step_live cap_step_inv)

end
