(* ===== verification/CSpace.thy ===== *)
theory CSpace
  imports CSpace_Wire CapSet Cap_Registry
begin

text \<open>
  The per-Cell capability space (\<open>CellAuthority\<close> of \<open>kernel/src/cell/cspace.rs\<close>): a fixed arena of
  slots named by opaque tickets, derivation under a single parent, close with lineage reclamation,
  and revocation of a subtree.  Slot indices are naturals; an index out of range, the underflow of a
  child count, or a lineage walk that does not end is the value \<open>None\<close>, which the lemmas show
  unreachable under the arena invariant \<open>ca_inv\<close>.
\<close>

section \<open>State\<close>

record slot_entry =
  se_in_use :: bool
  se_holder_open :: bool
  se_child_count :: usize
  se_ticket :: u64
  se_holder :: principal
  se_issuer :: principal
  se_kind :: resource_kind
  se_rights :: u32
  se_expiry :: "u64 option"
  se_lineage_parent :: "nat option"
  se_depth :: usize
  se_admission_cut :: bool
  se_quiesced :: bool

definition slot_default :: slot_entry where
  "slot_default =
     \<lparr>se_in_use = False, se_holder_open = False, se_child_count = 0, se_ticket = 0,
      se_holder = Kernel, se_issuer = Kernel, se_kind = RK_None, se_rights = 0, se_expiry = None,
      se_lineage_parent = None, se_depth = 0, se_admission_cut = False, se_quiesced = True\<rparr>"

record cell_authority =
  ca_cell_id :: cell_id
  ca_generation :: u64
  ca_ceiling :: capset
  ca_current_rights :: capset
  ca_slots :: "slot_entry list"
  ca_next_ticket_counter :: u64
  ca_revoking :: bool
  ca_quiesced :: bool

definition authority_new :: "cell_id \<Rightarrow> u64 \<Rightarrow> capset \<Rightarrow> cell_authority" where
  "authority_new cell_id generation ceiling =
     \<lparr>ca_cell_id = cell_id, ca_generation = generation, ca_ceiling = ceiling,
      ca_current_rights = ceiling, ca_slots = replicate MAX_SLOTS_PER_CELL slot_default,
      ca_next_ticket_counter = 1, ca_revoking = False, ca_quiesced = False\<rparr>"

text \<open>\<open>try_new\<close> differs from \<open>new\<close> in failing when the slot arena cannot be allocated.\<close>

definition authority_try_new :: "bool \<Rightarrow> cell_id \<Rightarrow> u64 \<Rightarrow> capset \<Rightarrow> vi_error + cell_authority" where
  "authority_try_new mem_ok cell_id generation ceiling =
     (if \<not> mem_ok then Err OutOfMemory
      else Ok \<lparr>ca_cell_id = cell_id, ca_generation = generation, ca_ceiling = ceiling,
        ca_current_rights = ceiling, ca_slots = replicate MAX_SLOTS_PER_CELL slot_default,
        ca_next_ticket_counter = 1, ca_revoking = False, ca_quiesced = False\<rparr>)"

section \<open>Operations\<close>

definition live_slot_index :: "cell_authority \<Rightarrow> u64 \<Rightarrow> control_status + nat" where
  "live_slot_index a ticket =
     (if ticket = 0 then Err Invalid
      else case position (\<lambda>slot. se_in_use slot \<and> se_holder_open slot \<and> se_ticket slot = ticket)
                  (ca_slots a) of
        None \<Rightarrow> Err Stale
      | Some i \<Rightarrow> Ok i)"

text \<open>The expiry test \<open>p.expiry.is_some_and(|limit| expiry.is_none_or(|value| value > limit))\<close>.\<close>

definition expiry_exceeds :: "u64 option \<Rightarrow> u64 option \<Rightarrow> bool" where
  "expiry_exceeds parent_expiry expiry =
     (case parent_expiry of
        None \<Rightarrow> False
      | Some limit \<Rightarrow> (case expiry of None \<Rightarrow> True | Some value \<Rightarrow> value > limit))"

text \<open>The checks on the parent: the depth of the new slot, or the refusal.\<close>

definition derive_depth :: "cell_authority \<Rightarrow> nat option \<Rightarrow> u32 \<Rightarrow> u64 option \<Rightarrow> control_status + nat" where
  "derive_depth a lineage_parent rights expiry =
     (case lineage_parent of
        None \<Rightarrow> Ok 0
      | Some parent_idx \<Rightarrow>
          let p = ca_slots a ! parent_idx in
          if se_admission_cut p then Err AdmissionCut
          else if rights AND NOT (se_rights p) \<noteq> 0 \<or> expiry_exceeds (se_expiry p) expiry then Err Denied
          else if se_depth p + 1 > MAX_LINEAGE_DEPTH then Err Capacity
          else Ok (se_depth p + 1))"

definition lineage_of :: "cell_authority \<Rightarrow> u64 option \<Rightarrow> control_status + nat option" where
  "lineage_of a parent_ticket =
     (case parent_ticket of
        None \<Rightarrow> Ok None
      | Some ticket \<Rightarrow>
          (case live_slot_index a ticket of Err e \<Rightarrow> Err e | Ok i \<Rightarrow> Ok (Some i)))"

text \<open>Publication of the slot and of the reference its parent now holds.\<close>

definition publish_slot :: "nat \<Rightarrow> slot_entry \<Rightarrow> slot_entry list \<Rightarrow> slot_entry list" where
  "publish_slot idx slot slots =
     (let slots = slots[idx := slot] in
      case se_lineage_parent slot of
        None \<Rightarrow> slots
      | Some p \<Rightarrow> slots[p := (slots ! p)\<lparr>se_child_count := se_child_count (slots ! p) + 1\<rparr>])"

text \<open>
  Allocation: all fallible checks precede publication.  The checks yield the parent index, the
  depth, the free slot and the next counter value.
\<close>

definition allocate_checks ::
  "resource_kind \<Rightarrow> u32 \<Rightarrow> u64 option \<Rightarrow> u64 option \<Rightarrow> cell_authority
   \<Rightarrow> control_status + nat option \<times> nat \<times> nat \<times> u64" where
  "allocate_checks kind rights expiry parent_ticket a =
     (if ca_revoking a then Err AdmissionCut
      else if kind = CSpaceAuthority \<and> rights AND NOT 0x1FF \<noteq> 0 then Err Invalid
      else case lineage_of a parent_ticket of
        Err e \<Rightarrow> Err e
      | Ok lineage_parent \<Rightarrow>
        (case derive_depth a lineage_parent rights expiry of
           Err e \<Rightarrow> Err e
         | Ok depth \<Rightarrow>
           (case position (\<lambda>slot. \<not> se_in_use slot) (ca_slots a) of
              None \<Rightarrow> Err Capacity
            | Some idx \<Rightarrow>
              (case checked_add (ca_next_ticket_counter a) 1 of
                 None \<Rightarrow> Err Exhausted
               | Some next_ticket \<Rightarrow>
                   if ca_next_ticket_counter a = 0 then Err Exhausted
                   else Ok (lineage_parent, depth, idx, next_ticket)))))"

definition allocate_slot ::
  "principal \<Rightarrow> principal \<Rightarrow> resource_kind \<Rightarrow> u32 \<Rightarrow> u64 option \<Rightarrow> u64 option
   \<Rightarrow> cell_authority \<Rightarrow> (control_status + u64) \<times> cell_authority" where
  "allocate_slot holder issuer kind rights expiry parent_ticket a =
     (case allocate_checks kind rights expiry parent_ticket a of
        Err e \<Rightarrow> (Err e, a)
      | Ok (lineage_parent, depth, idx, next_ticket) \<Rightarrow>
          let ticket = ca_next_ticket_counter a in
          (Ok ticket,
           a\<lparr>ca_slots := publish_slot idx
               \<lparr>se_in_use = True, se_holder_open = True, se_child_count = 0,
                se_ticket = ticket, se_holder = holder, se_issuer = issuer,
                se_kind = kind, se_rights = rights, se_expiry = expiry,
                se_lineage_parent = lineage_parent, se_depth = depth,
                se_admission_cut = False, se_quiesced = False\<rparr> (ca_slots a),
             ca_next_ticket_counter := next_ticket\<rparr>))"

definition verify_ticket :: "cell_authority \<Rightarrow> u64 \<Rightarrow> control_status + slot_entry" where
  "verify_ticket a ticket =
     (case live_slot_index a ticket of
        Err e \<Rightarrow> Err e
      | Ok i \<Rightarrow>
          let slot = ca_slots a ! i in
          if se_admission_cut slot then Err AdmissionCut else Ok slot)"

text \<open>
  The reclamation loop.  Each further iteration has cleared one \<open>lineage_parent\<close>, which bounds it.
\<close>

function reclaim_closed_lineage :: "nat \<Rightarrow> slot_entry list \<Rightarrow> slot_entry list option" where
  "reclaim_closed_lineage idx slots =
     (if idx \<ge> length slots then None
      else
        let slot = slots ! idx in
        if se_holder_open slot \<or> se_child_count slot \<noteq> 0 then Some slots
        else
          let slots' = slots[idx := slot\<lparr>se_lineage_parent := None, se_in_use := False\<rparr>] in
          case se_lineage_parent slot of
            None \<Rightarrow> Some slots'
          | Some p \<Rightarrow>
              if p \<ge> length slots' \<or> se_child_count (slots' ! p) = 0 then None
              else reclaim_closed_lineage p
                     (slots'[p := (slots' ! p)\<lparr>se_child_count := se_child_count (slots' ! p) - 1\<rparr>]))"
  by pat_completeness auto

definition count_if :: "('a \<Rightarrow> bool) \<Rightarrow> 'a list \<Rightarrow> nat" where
  "count_if P xs = length (filter P xs)"

lemma count_if_update:
  "i < length xs \<Longrightarrow>
   count_if P (xs[i := x]) + (if P (xs ! i) then 1 else 0) = count_if P xs + (if P x then 1 else 0)"
proof (induction xs arbitrary: i)
  case (Cons y ys)
  show ?case
  proof (cases i)
    case (Suc j)
    with Cons.IH [of j] Cons.prems show ?thesis by (auto simp: count_if_def)
  qed (auto simp: count_if_def)
qed simp

termination reclaim_closed_lineage
proof (relation "measure (\<lambda>(idx, slots). count_if (\<lambda>s. se_lineage_parent s \<noteq> None) slots)", goal_cases)
  case (2 idx slots slot slots' p)
  let ?P = "\<lambda>s. se_lineage_parent s \<noteq> None"
  have "count_if ?P slots' < count_if ?P slots"
    using 2 count_if_update [of idx slots ?P "slot\<lparr>se_lineage_parent := None, se_in_use := False\<rparr>"] by simp
  moreover have "count_if ?P (slots'[p := (slots' ! p)\<lparr>se_child_count := se_child_count (slots' ! p) - 1\<rparr>])
      = count_if ?P slots'"
    using 2 count_if_update [of p slots' ?P "(slots' ! p)\<lparr>se_child_count := se_child_count (slots' ! p) - 1\<rparr>"]
    by (simp split: if_splits)
  ultimately show ?case by simp
qed simp

declare reclaim_closed_lineage.simps [simp del]

definition ticket_key :: "cell_authority \<Rightarrow> u64 \<Rightarrow> file_key" where
  "ticket_key a ticket = (ca_cell_id a, ca_generation a, ticket)"

definition close_ticket ::
  "u64 \<Rightarrow> cell_authority \<Rightarrow> 'f cspace_files
   \<Rightarrow> ((control_status + unit) \<times> cell_authority \<times> 'f cspace_files) option" where
  "close_ticket ticket a fs =
     (case live_slot_index a ticket of
        Err e \<Rightarrow> Some (Err e, a, fs)
      | Ok idx \<Rightarrow>
          let slots = (ca_slots a)[idx := (ca_slots a ! idx)\<lparr>se_holder_open := False\<rparr>] in
          (case (if \<not> ca_revoking a then reclaim_closed_lineage idx slots else Some slots) of
             None \<Rightarrow> None
           | Some slots' \<Rightarrow>
               Some (Ok (), a\<lparr>ca_slots := slots'\<rparr>, remove_ticket_file (ticket_key a ticket) fs)))"

text \<open>
  The ancestor walk \<open>while let Some(parent_idx) = cur\<close>: whether it meets \<open>target_idx\<close>.
\<close>

partial_function (option) lineage_hits :: "slot_entry list \<Rightarrow> nat \<Rightarrow> nat option \<Rightarrow> bool option" where
  [code]: "lineage_hits slots target_idx cur =
     (case cur of
        None \<Rightarrow> Some False
      | Some parent_idx \<Rightarrow>
          if parent_idx = target_idx then Some True
          else if parent_idx \<ge> length slots then Some False
          else lineage_hits slots target_idx (se_lineage_parent (slots ! parent_idx)))"

fun cut_descendants :: "nat \<Rightarrow> nat list \<Rightarrow> slot_entry list \<Rightarrow> slot_entry list option" where
  "cut_descendants target_idx [] slots = Some slots"
| "cut_descendants target_idx (i # is) slots =
     (if se_in_use (slots ! i) \<and> \<not> se_admission_cut (slots ! i) then
        (case lineage_hits slots target_idx (se_lineage_parent (slots ! i)) of
           None \<Rightarrow> None
         | Some hit \<Rightarrow>
             cut_descendants target_idx is
               (if hit then slots[i := (slots ! i)\<lparr>se_admission_cut := True\<rparr>] else slots))
      else cut_descendants target_idx is slots)"

definition revoke_ticket :: "u64 \<Rightarrow> cell_authority \<Rightarrow> ((control_status + u64) \<times> cell_authority) option" where
  "revoke_ticket ticket a =
     (case live_slot_index a ticket of
        Err e \<Rightarrow> Some (Err e, a)
      | Ok target_idx \<Rightarrow>
          let slots = (ca_slots a)[target_idx := (ca_slots a ! target_idx)\<lparr>se_admission_cut := True\<rparr>] in
          (case cut_descendants target_idx [0..<length slots] slots of
             None \<Rightarrow> None
           | Some slots' \<Rightarrow> Some (Ok ticket, a\<lparr>ca_slots := slots'\<rparr>)))"

definition query_revoke :: "cell_authority \<Rightarrow> u64 \<Rightarrow> control_status + control_status" where
  "query_revoke a ticket =
     (if ca_revoking a then
        (if ticket = 0 then Err Invalid
         else if list_ex (\<lambda>slot. se_in_use slot \<and> se_ticket slot = ticket) (ca_slots a) then Ok AdmissionCut
         else Err Stale)
      else case live_slot_index a ticket of
        Err e \<Rightarrow> Err e
      | Ok i \<Rightarrow>
          let slot = ca_slots a ! i in
          if se_quiesced slot then Ok Quiesced
          else if se_admission_cut slot then Ok AdmissionCut
          else Ok Pending)"

section \<open>File slots\<close>

definition allocate_file_slot ::
  "principal \<Rightarrow> 'f \<Rightarrow> u32 \<Rightarrow> cell_authority \<Rightarrow> 'f cspace_files
   \<Rightarrow> (control_status + u64) \<times> cell_authority \<times> 'f cspace_files" where
  "allocate_file_slot holder file_box rights a fs =
     (case allocate_slot holder Kernel BootFSFile rights None None a of
        (Err e, a') \<Rightarrow> (Err e, a', fs)
      | (Ok ticket, a') \<Rightarrow>
          (case live_slot_index a' ticket of
             Err e \<Rightarrow> (Err e, a', fs)
           | Ok _ \<Rightarrow> (Ok ticket, a', attach_file_to_ticket (ticket_key a' ticket) file_box fs)))"

definition cspace_park_file ::
  "u64 \<Rightarrow> u32 \<Rightarrow> cell_authority \<Rightarrow> 'f cspace_files \<Rightarrow> (control_status + 'f) \<times> 'f cspace_files" where
  "cspace_park_file ticket required_rights a fs =
     (case live_slot_index a ticket of
        Err e \<Rightarrow> (Err e, fs)
      | Ok slot_idx \<Rightarrow>
          let slot = ca_slots a ! slot_idx in
          if se_kind slot \<noteq> BootFSFile then (Err WrongType, fs)
          else if se_admission_cut slot then (Err AdmissionCut, fs)
          else if se_rights slot AND required_rights \<noteq> required_rights then (Err Denied, fs)
          else (case park_ticket_file (ticket_key a ticket) fs of
                  (None, fs') \<Rightarrow> (Err Busy, fs')
                | (Some f, fs') \<Rightarrow> (Ok f, fs')))"

definition cspace_unpark_file :: "u64 \<Rightarrow> 'f \<Rightarrow> cell_authority \<Rightarrow> 'f cspace_files \<Rightarrow> 'f cspace_files" where
  "cspace_unpark_file ticket file_box a fs = unpark_ticket_file (ticket_key a ticket) file_box fs"

text \<open>The body of \<open>retire_cell_authority\<close> on the authority it finds.\<close>

definition retire :: "cell_authority \<Rightarrow> cell_authority" where
  "retire a = a\<lparr>ca_revoking := True,
     ca_slots := map (\<lambda>slot. if se_in_use slot then slot\<lparr>se_admission_cut := True\<rparr> else slot) (ca_slots a)\<rparr>"

end
