(* ===== verification/CSpace_Inv.thy ===== *)
theory CSpace_Inv
  imports CSpace
begin

text \<open>
  The arena invariant of a \<open>CellAuthority\<close> and its preservation by every operation.  The lineage part
  (\<open>lineage_ok\<close>) speaks about the slot list: parents are live, one level shallower, at least as
  privileged, and count their children exactly; the authority part adds the ticket discipline.
\<close>

section \<open>The invariant\<close>

definition expiry_within :: "u64 option \<Rightarrow> u64 option \<Rightarrow> bool" where
  "expiry_within child parent \<longleftrightarrow> \<not> expiry_exceeds parent child"

definition edge_ok :: "slot_entry \<Rightarrow> slot_entry \<Rightarrow> bool" where
  "edge_ok s p \<longleftrightarrow> se_in_use p \<and> se_depth s = se_depth p + 1
     \<and> subset_bits (se_rights s) (se_rights p) \<and> expiry_within (se_expiry s) (se_expiry p)
     \<and> (se_admission_cut p \<longrightarrow> se_admission_cut s)"

definition child_total :: "slot_entry list \<Rightarrow> nat \<Rightarrow> nat" where
  "child_total slots i = count_if (\<lambda>s. se_lineage_parent s = Some i) slots"

definition slot_ok :: "slot_entry list \<Rightarrow> nat \<Rightarrow> bool" where
  "slot_ok slots i \<longleftrightarrow>
     (let s = slots ! i in
        (\<not> se_in_use s \<longrightarrow> se_lineage_parent s = None \<and> \<not> se_holder_open s)
      \<and> (case se_lineage_parent s of None \<Rightarrow> True | Some p \<Rightarrow> p < length slots \<and> edge_ok s (slots ! p))
      \<and> se_depth s \<le> MAX_LINEAGE_DEPTH
      \<and> se_child_count s = child_total slots i)"

definition lineage_ok :: "slot_entry list \<Rightarrow> bool" where
  "lineage_ok slots \<longleftrightarrow> (\<forall>i < length slots. slot_ok slots i)"

text \<open>Every slot in use is still referenced, by its holder or by a child.\<close>

definition referenced :: "slot_entry \<Rightarrow> bool" where
  "referenced s \<longleftrightarrow> (se_in_use s \<longrightarrow> se_holder_open s \<or> 0 < se_child_count s)"

definition tickets_ok :: "u64 \<Rightarrow> slot_entry list \<Rightarrow> bool" where
  "tickets_ok next slots \<longleftrightarrow> 0 < next \<and>
     (\<forall>i < length slots. se_in_use (slots ! i) \<longrightarrow>
        0 < se_ticket (slots ! i) \<and> se_ticket (slots ! i) < next
        \<and> (\<forall>j < length slots. se_in_use (slots ! j) \<longrightarrow> se_ticket (slots ! j) = se_ticket (slots ! i) \<longrightarrow> j = i))"

definition class_rights_ok :: "slot_entry \<Rightarrow> bool" where
  "class_rights_ok s \<longleftrightarrow>
     (se_in_use s \<longrightarrow> se_kind s = CSpaceAuthority \<longrightarrow> subset_bits (se_rights s) 0x1FF)"

definition ca_inv :: "cell_authority \<Rightarrow> bool" where
  "ca_inv a \<longleftrightarrow> length (ca_slots a) = MAX_SLOTS_PER_CELL \<and> lineage_ok (ca_slots a)
     \<and> tickets_ok (ca_next_ticket_counter a) (ca_slots a)
     \<and> list_all class_rights_ok (ca_slots a)
     \<and> (if ca_revoking a then list_all (\<lambda>s. se_in_use s \<longrightarrow> se_admission_cut s) (ca_slots a)
        else list_all referenced (ca_slots a))"

lemma expiry_within_refl [simp]: "expiry_within e e"
  by (simp add: expiry_within_def expiry_exceeds_def split: option.splits)

lemma expiry_within_trans: "expiry_within a b \<Longrightarrow> expiry_within b c \<Longrightarrow> expiry_within a c"
  by (auto simp: expiry_within_def expiry_exceeds_def split: option.splits)

lemma child_total_update:
  "i < length slots \<Longrightarrow>
   child_total (slots[i := s]) k + (if se_lineage_parent (slots ! i) = Some k then 1 else 0)
   = child_total slots k + (if se_lineage_parent s = Some k then 1 else 0)"
  unfolding child_total_def by (rule count_if_update)

lemma child_total_same:
  "i < length slots \<Longrightarrow> se_lineage_parent s = se_lineage_parent (slots ! i) \<Longrightarrow>
   child_total (slots[i := s]) k = child_total slots k"
  using child_total_update [of i slots s k] by simp

lemma child_total_pos:
  "i < length slots \<Longrightarrow> se_lineage_parent (slots ! i) = Some k \<Longrightarrow> 0 < child_total slots k"
  by (auto simp: child_total_def count_if_def filter_empty_conv)

lemma child_total_zeroD:
  "child_total slots k = 0 \<Longrightarrow> i < length slots \<Longrightarrow> se_lineage_parent (slots ! i) \<noteq> Some k"
  using child_total_pos by fastforce

lemma lineage_okD:
  assumes "lineage_ok slots" "i < length slots"
  shows "\<not> se_in_use (slots ! i) \<Longrightarrow> se_lineage_parent (slots ! i) = None \<and> \<not> se_holder_open (slots ! i)"
    and "se_lineage_parent (slots ! i) = Some p \<Longrightarrow> p < length slots \<and> edge_ok (slots ! i) (slots ! p)"
    and "se_depth (slots ! i) \<le> MAX_LINEAGE_DEPTH"
    and "se_child_count (slots ! i) = child_total slots i"
  using assms by (auto simp: lineage_ok_def slot_ok_def Let_def)

lemma lineage_okI:
  assumes "\<And>i. i < length slots \<Longrightarrow> \<not> se_in_use (slots ! i) \<Longrightarrow>
      se_lineage_parent (slots ! i) = None \<and> \<not> se_holder_open (slots ! i)"
    and "\<And>i p. i < length slots \<Longrightarrow> se_lineage_parent (slots ! i) = Some p \<Longrightarrow>
      p < length slots \<and> edge_ok (slots ! i) (slots ! p)"
    and "\<And>i. i < length slots \<Longrightarrow> se_depth (slots ! i) \<le> MAX_LINEAGE_DEPTH"
    and "\<And>i. i < length slots \<Longrightarrow> se_child_count (slots ! i) = child_total slots i"
  shows "lineage_ok slots"
  using assms by (auto simp: lineage_ok_def slot_ok_def Let_def split: option.splits)

lemma lineage_parent_neq:
  "lineage_ok slots \<Longrightarrow> i < length slots \<Longrightarrow> se_lineage_parent (slots ! i) = Some p \<Longrightarrow> p \<noteq> i"
  using lineage_okD(2) [of slots i p] by (auto simp: edge_ok_def)

lemma child_total_default: "child_total (replicate n slot_default) k = 0"
  by (simp add: child_total_def count_if_def slot_default_def)

lemma ca_inv_new [simp]: "ca_inv (authority_new c g caps)"
  by (auto simp: ca_inv_def authority_new_def lineage_ok_def slot_ok_def tickets_ok_def
      child_total_default referenced_def class_rights_ok_def list_all_iff Let_def slot_default_def
      split: option.splits) (simp_all add: child_total_default [unfolded slot_default_def])

section \<open>Tickets\<close>

lemma live_slot_index_OkD:
  assumes "live_slot_index a ticket = Ok i"
  shows "ticket \<noteq> 0" "i < length (ca_slots a)" "se_in_use (ca_slots a ! i)"
    "se_holder_open (ca_slots a ! i)" "se_ticket (ca_slots a ! i) = ticket"
proof -
  let ?P = "\<lambda>slot. se_in_use slot \<and> se_holder_open slot \<and> se_ticket slot = ticket"
  have "ticket \<noteq> 0 \<and> position ?P (ca_slots a) = Some i"
    using assms by (simp add: live_slot_index_def split: if_split_asm option.split_asm)
  then show "ticket \<noteq> 0" "i < length (ca_slots a)" "se_in_use (ca_slots a ! i)"
    "se_holder_open (ca_slots a ! i)" "se_ticket (ca_slots a ! i) = ticket"
    using position_SomeD [of ?P "ca_slots a" i] by simp_all
qed

lemma tickets_okD:
  assumes "tickets_ok next slots"
  shows "0 < next"
    and "i < length slots \<Longrightarrow> se_in_use (slots ! i) \<Longrightarrow> 0 < se_ticket (slots ! i) \<and> se_ticket (slots ! i) < next"
    and "i < length slots \<Longrightarrow> se_in_use (slots ! i) \<Longrightarrow> j < length slots \<Longrightarrow> se_in_use (slots ! j) \<Longrightarrow>
      se_ticket (slots ! j) = se_ticket (slots ! i) \<Longrightarrow> j = i"
  using assms unfolding tickets_ok_def by blast+

lemma ca_invD:
  assumes "ca_inv a"
  shows "length (ca_slots a) = MAX_SLOTS_PER_CELL" "lineage_ok (ca_slots a)"
    "tickets_ok (ca_next_ticket_counter a) (ca_slots a)"
  using assms by (simp_all add: ca_inv_def)

lemma live_slot_index_iff:
  assumes "ca_inv a"
  shows "live_slot_index a t = Ok i \<longleftrightarrow>
    i < length (ca_slots a) \<and> se_in_use (ca_slots a ! i) \<and> se_holder_open (ca_slots a ! i)
    \<and> se_ticket (ca_slots a ! i) = t" (is "?l \<longleftrightarrow> ?r")
proof
  assume r: ?r
  note T = tickets_okD [OF ca_invD(3) [OF assms]]
  have "t \<noteq> 0" using T(2) [of i] r by auto
  moreover have "position (\<lambda>s. se_in_use s \<and> se_holder_open s \<and> se_ticket s = t) (ca_slots a) = Some i"
    by (rule position_unique) (use r T(3) [of i] in auto)
  ultimately show ?l by (simp add: live_slot_index_def)
next
  assume ?l
  then show ?r using live_slot_index_OkD [of a t i] by simp
qed

section \<open>Allocation\<close>

lemma lineage_ok_publish:
  assumes ok: "lineage_ok slots" and idx: "idx < length slots" "\<not> se_in_use (slots ! idx)"
    and s: "se_in_use s" "se_child_count s = 0" "se_depth s \<le> MAX_LINEAGE_DEPTH"
    and par: "\<And>p. se_lineage_parent s = Some p \<Longrightarrow> p < length slots \<and> edge_ok s (slots ! p)"
  shows "lineage_ok (publish_slot idx s slots)"
proof -
  have old: "se_lineage_parent (slots ! idx) = None" using lineage_okD(1) [OF ok idx] by simp
  have nochild: "se_lineage_parent (slots ! j) \<noteq> Some idx" if "j < length slots" for j
    using lineage_okD(2) [OF ok that, of idx] idx(2) by (auto simp: edge_ok_def)
  have zero: "child_total slots idx = 0"
    using nochild by (auto simp: child_total_def count_if_def filter_empty_conv in_set_conv_nth)
  have tot: "child_total (slots[idx := s]) k = child_total slots k + (if se_lineage_parent s = Some k then 1 else 0)" for k
    using child_total_update [OF idx(1), of s k] old by simp
  show ?thesis
  proof (cases "se_lineage_parent s")
    case None
    have "lineage_ok (slots[idx := s])"
    proof (rule lineage_okI; (unfold length_list_update)?)
      fix i assume i: "i < length slots"
      note D = lineage_okD [OF ok i]
      show "\<not> se_in_use (slots[idx := s] ! i) \<Longrightarrow>
          se_lineage_parent (slots[idx := s] ! i) = None \<and> \<not> se_holder_open (slots[idx := s] ! i)"
        using D(1) s i by (cases "i = idx") auto
      show "se_depth (slots[idx := s] ! i) \<le> MAX_LINEAGE_DEPTH"
        using D(3) s i by (cases "i = idx") auto
      show "se_child_count (slots[idx := s] ! i) = child_total (slots[idx := s]) i"
        using D(4) s i tot None zero by (cases "i = idx") auto
      fix p assume "se_lineage_parent (slots[idx := s] ! i) = Some p"
      then show "p < length slots \<and> edge_ok (slots[idx := s] ! i) (slots[idx := s] ! p)"
        using D(2) [of p] None i nochild [OF i] by (cases "i = idx") auto
    qed
    with None show ?thesis by (simp add: publish_slot_def)
  next
    case (Some p)
    with par have p: "p < length slots" "edge_ok s (slots ! p)" by auto
    then have neq: "p \<noteq> idx" using idx(2) by (auto simp: edge_ok_def)
    let ?sl = "slots[idx := s, p := (slots ! p)\<lparr>se_child_count := Suc (se_child_count (slots ! p))\<rparr>]"
    have pub: "publish_slot idx s slots = ?sl" using Some neq by (simp add: publish_slot_def)
    have tot': "child_total ?sl k = child_total slots k + (if k = p then 1 else 0)" for k
      using child_total_same [of p "slots[idx := s]"] p(1) neq tot [of k] Some by simp
    have "lineage_ok ?sl"
    proof (rule lineage_okI; (unfold length_list_update)?)
      fix i assume i: "i < length slots"
      note D = lineage_okD [OF ok i]
      have in_use: "se_in_use (slots ! p)" using p(2) by (simp add: edge_ok_def)
      show "\<not> se_in_use (?sl ! i) \<Longrightarrow> se_lineage_parent (?sl ! i) = None \<and> \<not> se_holder_open (?sl ! i)"
        using D(1) s i in_use by (cases "i = idx"; cases "i = p") auto
      show "se_depth (?sl ! i) \<le> MAX_LINEAGE_DEPTH"
        using D(3) s i by (cases "i = idx"; cases "i = p") auto
      show "se_child_count (?sl ! i) = child_total ?sl i"
        using D(4) s i tot' neq zero by (cases "i = idx"; cases "i = p") auto
      have sl: "?sl ! k = (if k = p then (slots ! p)\<lparr>se_child_count := Suc (se_child_count (slots ! p))\<rparr>
          else if k = idx then s else slots ! k)" if "k < length slots" for k
        using that by (simp add: nth_list_update)
      fix q assume q: "se_lineage_parent (?sl ! i) = Some q"
      show "q < length slots \<and> edge_ok (?sl ! i) (?sl ! q)"
      proof (cases "i = idx")
        case True
        then show ?thesis using q Some p neq i by (simp add: sl edge_ok_def)
      next
        case False
        then have "se_lineage_parent (slots ! i) = Some q" using q i by (simp add: sl split: if_splits)
        then show ?thesis
          using D(2) [of q] nochild [OF i] False i by (auto simp: sl edge_ok_def)
      qed
    qed
    then show ?thesis by (simp add: pub)
  qed
qed

lemma allocate_checks_OkD:
  assumes "allocate_checks kind rights expiry parent_ticket a = Ok (lp, depth, idx, nt)"
  shows "\<not> ca_revoking a" "kind = CSpaceAuthority \<longrightarrow> subset_bits rights 0x1FF"
    "lineage_of a parent_ticket = Ok lp" "derive_depth a lp rights expiry = Ok depth"
    "idx < length (ca_slots a)" "\<not> se_in_use (ca_slots a ! idx)"
    "ca_next_ticket_counter a < nt" "ca_next_ticket_counter a \<noteq> 0"
  using assms
  by (auto simp: allocate_checks_def subset_bits_def dest: position_SomeD checked_add_1_less
      split: if_split_asm sum.split_asm option.split_asm)

text \<open>What a successful allocation did, as one case.\<close>

lemma allocate_slot_OkE:
  assumes "allocate_slot holder issuer kind rights expiry parent_ticket a = (Ok ticket, a')"
  obtains lp depth idx s where
    "\<not> ca_revoking a" "kind = CSpaceAuthority \<longrightarrow> subset_bits rights 0x1FF"
    "lineage_of a parent_ticket = Ok lp" "derive_depth a lp rights expiry = Ok depth"
    "idx < length (ca_slots a)" "\<not> se_in_use (ca_slots a ! idx)"
    "ticket = ca_next_ticket_counter a" "ticket \<noteq> 0"
    "s = \<lparr>se_in_use = True, se_holder_open = True, se_child_count = 0,
          se_ticket = ticket, se_holder = holder, se_issuer = issuer,
          se_kind = kind, se_rights = rights, se_expiry = expiry,
          se_lineage_parent = lp, se_depth = depth, se_admission_cut = False, se_quiesced = False\<rparr>"
    "ca_next_ticket_counter a < ca_next_ticket_counter a'"
    "a' = a\<lparr>ca_slots := publish_slot idx s (ca_slots a),
            ca_next_ticket_counter := ca_next_ticket_counter a'\<rparr>"
proof -
  from assms obtain lp depth idx nt where ch:
      "allocate_checks kind rights expiry parent_ticket a = Ok (lp, depth, idx, nt)"
    by (auto simp: allocate_slot_def split: sum.split_asm)
  note D = allocate_checks_OkD [OF ch]
  have "ca_next_ticket_counter a' = nt" "ticket = ca_next_ticket_counter a"
    using assms ch by (auto simp: allocate_slot_def Let_def)
  then show thesis
    by (intro that [OF D(1-6) _ _ refl]) (use assms ch D in \<open>auto simp: allocate_slot_def Let_def\<close>)
qed

lemma allocate_slot_Err: "allocate_slot h i k r e p a = (Err st, a') \<Longrightarrow> a' = a"
  by (auto simp: allocate_slot_def Let_def split: sum.split_asm)

lemma length_publish_slot [simp]: "length (publish_slot idx s slots) = length slots"
  by (simp add: publish_slot_def Let_def split: option.splits)

lemma publish_slot_new:
  "idx < length slots \<Longrightarrow> se_lineage_parent s \<noteq> Some idx \<Longrightarrow> publish_slot idx s slots ! idx = s"
  by (auto simp: publish_slot_def Let_def nth_list_update split: option.splits)

lemma publish_slot_old:
  assumes "idx < length slots" "i < length slots" "i \<noteq> idx"
  shows "publish_slot idx s slots ! i = (slots ! i)\<lparr>se_child_count :=
     se_child_count (slots ! i) + (if se_lineage_parent s = Some i then 1 else 0)\<rparr>"
  using assms by (auto simp: publish_slot_def Let_def nth_list_update split: option.splits)

lemma lineage_of_OkD:
  assumes "lineage_of a parent_ticket = Ok (Some p)"
  shows "\<exists>t. parent_ticket = Some t \<and> live_slot_index a t = Ok p"
  using assms by (auto simp: lineage_of_def split: option.split_asm sum.split_asm)

lemma derive_depth_OkD:
  assumes "derive_depth a (Some p) rights expiry = Ok d"
  shows "\<not> se_admission_cut (ca_slots a ! p)" "subset_bits rights (se_rights (ca_slots a ! p))"
    "expiry_within expiry (se_expiry (ca_slots a ! p))" "d = se_depth (ca_slots a ! p) + 1"
    "d \<le> MAX_LINEAGE_DEPTH"
  using assms
  by (auto simp: derive_depth_def Let_def subset_bits_def expiry_within_def split: if_split_asm)

lemma derive_depth_None: "derive_depth a None rights expiry = Ok 0"
  by (simp add: derive_depth_def)

lemma tickets_ok_publish:
  assumes ok: "tickets_ok n slots" and idx: "idx < length slots" "se_lineage_parent s \<noteq> Some idx"
    and s: "se_ticket s = n" and n': "n < n'"
  shows "tickets_ok n' (publish_slot idx s slots)"
proof -
  note T = tickets_okD [OF ok]
  have tick: "se_in_use (publish_slot idx s slots ! i) = (if i = idx then se_in_use s else se_in_use (slots ! i))"
    "se_ticket (publish_slot idx s slots ! i) = (if i = idx then n else se_ticket (slots ! i))"
    if "i < length slots" for i
    using that idx s by (simp_all add: publish_slot_new publish_slot_old)
  have new: "se_ticket (slots ! i) < n" if "i < length slots" "se_in_use (slots ! i)" for i
    using T(2) that by simp
  show ?thesis
    unfolding tickets_ok_def
  proof (intro conjI allI impI, unfold length_publish_slot)
    show "0 < n'" using T(1) n' by (rule less_trans)
  next
    fix i assume i: "i < length slots" "se_in_use (publish_slot idx s slots ! i)"
    then show "0 < se_ticket (publish_slot idx s slots ! i)"
      using T(1) T(2) [of i] by (simp add: tick split: if_split_asm)
    show "se_ticket (publish_slot idx s slots ! i) < n'"
      using i n' T(2) [of i] by (auto simp: tick intro: less_trans split: if_split_asm)
    fix j assume j: "j < length slots" "se_in_use (publish_slot idx s slots ! j)"
      "se_ticket (publish_slot idx s slots ! j) = se_ticket (publish_slot idx s slots ! i)"
    then show "j = i"
      using i new [of i] new [of j] T(3) [of i j] by (simp add: tick split: if_split_asm)
  qed
qed

lemma list_all_publish:
  assumes "list_all P slots" "P s" "idx < length slots" "se_lineage_parent s \<noteq> Some idx"
    and "\<And>x c. P x \<Longrightarrow> se_child_count x \<le> c \<Longrightarrow> P (x\<lparr>se_child_count := c\<rparr>)"
  shows "list_all P (publish_slot idx s slots)"
  unfolding list_all_length length_publish_slot
proof (intro allI impI)
  fix i assume i: "i < length slots"
  show "P (publish_slot idx s slots ! i)"
  proof (cases "i = idx")
    case True
    then show ?thesis using assms by (simp add: publish_slot_new)
  next
    case False
    have "P (slots ! i)" using assms(1) i by (simp add: list_all_length)
    then show ?thesis unfolding publish_slot_old [OF assms(3) i False] by (rule assms(5)) simp
  qed
qed

lemma allocate_parent_ok:
  assumes inv: "ca_inv a" and lp: "lineage_of a pt = Ok (Some p)"
    and d: "derive_depth a (Some p) rights expiry = Ok depth"
    and s: "se_depth s = depth" "se_rights s = rights" "se_expiry s = expiry"
  shows "p < length (ca_slots a) \<and> edge_ok s (ca_slots a ! p)"
proof -
  obtain t where "live_slot_index a t = Ok p" using lineage_of_OkD [OF lp] by blast
  from live_slot_index_OkD [OF this] derive_depth_OkD [OF d] s show ?thesis
    by (simp add: edge_ok_def)
qed

lemma ca_inv_allocate_slot [cellos_inv]:
  assumes inv: "ca_inv a"
  shows "ca_inv (snd (allocate_slot h i k r e pt a))"
proof (cases "allocate_slot h i k r e pt a")
  case (Pair res a')
  show ?thesis
  proof (cases res)
    case (Inl st)
    then show ?thesis using Pair allocate_slot_Err inv by fastforce
  next
    case (Inr ticket)
    with Pair obtain lp depth idx s where A:
      "\<not> ca_revoking a" "k = CSpaceAuthority \<longrightarrow> subset_bits r 0x1FF"
      "lineage_of a pt = Ok lp" "derive_depth a lp r e = Ok depth"
      "idx < length (ca_slots a)" "\<not> se_in_use (ca_slots a ! idx)"
      and s: "s = \<lparr>se_in_use = True, se_holder_open = True, se_child_count = 0, se_ticket = ticket,
          se_holder = h, se_issuer = i, se_kind = k, se_rights = r, se_expiry = e,
          se_lineage_parent = lp, se_depth = depth, se_admission_cut = False, se_quiesced = False\<rparr>"
      and t: "ticket = ca_next_ticket_counter a" "ca_next_ticket_counter a < ca_next_ticket_counter a'"
      and a': "a' = a\<lparr>ca_slots := publish_slot idx s (ca_slots a),
          ca_next_ticket_counter := ca_next_ticket_counter a'\<rparr>"
      by (auto elim!: allocate_slot_OkE)
    have par: "p < length (ca_slots a) \<and> edge_ok s (ca_slots a ! p)" if "se_lineage_parent s = Some p" for p
      using allocate_parent_ok [OF inv, of pt p r e depth s] A that s by simp
    have neq: "se_lineage_parent s \<noteq> Some idx" using par [of idx] A(6) by (auto simp: edge_ok_def)
    have depth: "depth \<le> MAX_LINEAGE_DEPTH"
      using A(4) derive_depth_OkD(5) [of a _ r e depth] by (cases lp) (auto simp: derive_depth_None)
    have "lineage_ok (publish_slot idx s (ca_slots a))"
      by (rule lineage_ok_publish [OF ca_invD(2) [OF inv] A(5,6)]) (use s depth par in auto)
    moreover have "tickets_ok (ca_next_ticket_counter a') (publish_slot idx s (ca_slots a))"
      by (rule tickets_ok_publish [OF ca_invD(3) [OF inv] A(5) neq]) (use s t in auto)
    moreover have "list_all class_rights_ok (publish_slot idx s (ca_slots a))"
      by (rule list_all_publish [OF _ _ A(5) neq]) (use inv A(2) s in \<open>auto simp: ca_inv_def class_rights_ok_def\<close>)
    moreover have "list_all referenced (publish_slot idx s (ca_slots a))"
      by (rule list_all_publish [OF _ _ A(5) neq]) (use inv A(1) s in \<open>auto simp: ca_inv_def referenced_def\<close>)
    ultimately have "ca_inv a'"
      using ca_invD(1) [OF inv] A(1) by (subst a') (simp add: ca_inv_def)
    then show ?thesis using Pair by simp
  qed
qed

section \<open>Close and reclamation\<close>

text \<open>How reclamation may change one slot: its child count, or release a slot whose holder closed.\<close>

definition reclaimed :: "slot_entry \<Rightarrow> slot_entry \<Rightarrow> bool" where
  "reclaimed s s' \<longleftrightarrow> s' = s\<lparr>se_child_count := se_child_count s'\<rparr>
     \<or> \<not> se_holder_open s \<and> s' = s\<lparr>se_child_count := se_child_count s', se_lineage_parent := None, se_in_use := False\<rparr>"

lemma reclaimed_refl [simp]: "reclaimed s s"
  by (simp add: reclaimed_def)

lemma reclaimed_trans: "reclaimed a b \<Longrightarrow> reclaimed b c \<Longrightarrow> reclaimed a c"
  by (cases a; cases b; cases c) (auto simp: reclaimed_def)

definition freed :: "slot_entry \<Rightarrow> slot_entry" where
  "freed s = s\<lparr>se_lineage_parent := None, se_in_use := False\<rparr>"

definition unref :: "slot_entry \<Rightarrow> slot_entry" where
  "unref s = s\<lparr>se_child_count := se_child_count s - 1\<rparr>"

lemma reclaimed_freed: "\<not> se_holder_open s \<Longrightarrow> reclaimed s (freed s)"
  by (cases s) (simp add: reclaimed_def freed_def)

lemma reclaimed_unref: "reclaimed s (unref s)"
  by (cases s) (simp add: reclaimed_def unref_def)

lemma unref_sel [simp]:
  "se_in_use (unref s) = se_in_use s" "se_holder_open (unref s) = se_holder_open s"
  "se_lineage_parent (unref s) = se_lineage_parent s" "se_depth (unref s) = se_depth s"
  "se_rights (unref s) = se_rights s" "se_expiry (unref s) = se_expiry s"
  "se_admission_cut (unref s) = se_admission_cut s" "se_child_count (unref s) = se_child_count s - 1"
  by (simp_all add: unref_def)

lemma freed_sel [simp]:
  "\<not> se_in_use (freed s)" "se_holder_open (freed s) = se_holder_open s"
  "se_lineage_parent (freed s) = None" "se_depth (freed s) = se_depth s"
  "se_child_count (freed s) = se_child_count s"
  by (simp_all add: freed_def)

lemma edge_ok_unref [simp]: "edge_ok (unref s) p = edge_ok s p" "edge_ok s (unref p) = edge_ok s p"
  by (simp_all add: edge_ok_def)

lemma lineage_ok_free_root:
  assumes ok: "lineage_ok slots" and idx: "idx < length slots" "\<not> se_holder_open (slots ! idx)"
    "se_child_count (slots ! idx) = 0" "se_lineage_parent (slots ! idx) = None"
  shows "lineage_ok (slots[idx := freed (slots ! idx)])" (is "lineage_ok ?sl")
proof (rule lineage_okI; (unfold length_list_update)?)
  have nochild: "se_lineage_parent (slots ! j) \<noteq> Some idx" if "j < length slots" for j
    using child_total_zeroD [of slots idx j] lineage_okD(4) [OF ok idx(1)] idx(3) that by simp
  fix i assume i: "i < length slots"
  note D = lineage_okD [OF ok i]
  have tot: "child_total ?sl i = child_total slots i"
    using child_total_same [OF idx(1)] idx(4) by simp
  show "\<not> se_in_use (?sl ! i) \<Longrightarrow> se_lineage_parent (?sl ! i) = None \<and> \<not> se_holder_open (?sl ! i)"
    using D(1) i idx by (cases "i = idx") auto
  show "se_depth (?sl ! i) \<le> MAX_LINEAGE_DEPTH" using D(3) i by (cases "i = idx") auto
  show "se_child_count (?sl ! i) = child_total ?sl i"
    unfolding tot using D(4) i by (cases "i = idx") auto
  fix q assume "se_lineage_parent (?sl ! i) = Some q"
  then show "q < length slots \<and> edge_ok (?sl ! i) (?sl ! q)"
    using D(2) [of q] nochild [OF i] i by (cases "i = idx") auto
qed

lemma lineage_ok_free_child:
  assumes ok: "lineage_ok slots" and idx: "idx < length slots" "\<not> se_holder_open (slots ! idx)"
    "se_child_count (slots ! idx) = 0" and p: "se_lineage_parent (slots ! idx) = Some p"
  shows "lineage_ok (slots[idx := freed (slots ! idx), p := unref (slots ! p)])" (is "lineage_ok ?sl")
proof (rule lineage_okI; (unfold length_list_update)?)
  note P = lineage_okD(2) [OF ok idx(1) p]
  have neq: "p \<noteq> idx" using lineage_parent_neq [OF ok idx(1) p] .
  have nochild: "se_lineage_parent (slots ! j) \<noteq> Some idx" if "j < length slots" for j
    using child_total_zeroD [of slots idx j] lineage_okD(4) [OF ok idx(1)] idx(3) that by simp
  have sl: "?sl ! k = (if k = p then unref (slots ! p) else if k = idx then freed (slots ! idx) else slots ! k)"
    if "k < length slots" for k using that by (simp add: nth_list_update)
  have tot: "child_total ?sl k = child_total slots k - (if k = p then 1 else 0)" for k
    using child_total_update [OF idx(1), of "freed (slots ! idx)" k] p neq P
      child_total_same [of p "slots[idx := freed (slots ! idx)]" "unref (slots ! p)" k]
    by auto
  fix i assume i: "i < length slots"
  note D = lineage_okD [OF ok i]
  show "\<not> se_in_use (?sl ! i) \<Longrightarrow> se_lineage_parent (?sl ! i) = None \<and> \<not> se_holder_open (?sl ! i)"
    using D(1) i idx P unfolding sl [OF i] by (auto simp: edge_ok_def split: if_split_asm)
  show "se_depth (?sl ! i) \<le> MAX_LINEAGE_DEPTH" using D(3) lineage_okD(3) [OF ok] i idx(1) P
    unfolding sl [OF i] by auto
  show "se_child_count (?sl ! i) = child_total ?sl i"
    using D(4) lineage_okD(4) [OF ok] idx(1) P unfolding sl [OF i] tot by auto
  fix q assume q: "se_lineage_parent (?sl ! i) = Some q"
  then have "i \<noteq> idx" using sl [OF i] neq by auto
  moreover from this have "se_lineage_parent (slots ! i) = Some q"
    using q sl [OF i] by (auto split: if_split_asm)
  ultimately show "q < length slots \<and> edge_ok (?sl ! i) (?sl ! q)"
    using D(2) [of q] nochild [OF i] i by (auto simp: sl)
qed

lemma reclaim_correct:
  assumes "lineage_ok slots" "idx < length slots" "se_in_use (slots ! idx)"
    "\<And>i. i < length slots \<Longrightarrow> i \<noteq> idx \<Longrightarrow> referenced (slots ! i)"
  shows "\<exists>slots'. reclaim_closed_lineage idx slots = Some slots' \<and> length slots' = length slots
    \<and> lineage_ok slots' \<and> list_all referenced slots'
    \<and> (\<forall>i < length slots. reclaimed (slots ! i) (slots' ! i))"
  using assms
proof (induction idx slots rule: reclaim_closed_lineage.induct)
  case (1 idx slots)
  let ?s = "slots ! idx"
  note in_range = 1(3)
  show ?case
  proof (cases "se_holder_open ?s \<or> se_child_count ?s \<noteq> 0")
    case True
    moreover have "list_all referenced slots"
      unfolding list_all_length
    proof (intro allI impI)
      show "referenced (slots ! n)" if "n < length slots" for n
        using True 1(5) [OF that] by (cases "n = idx") (auto simp: referenced_def)
    qed
    ultimately show ?thesis
      using 1(2,3) by (subst reclaim_closed_lineage.simps) (auto simp: Let_def)
  next
    case False
    then have closed: "\<not> se_holder_open ?s" "se_child_count ?s = 0" by auto
    show ?thesis
    proof (cases "se_lineage_parent ?s")
      case None
      let ?sl = "slots[idx := freed ?s]"
      have "reclaim_closed_lineage idx slots = Some ?sl"
        using in_range closed None by (subst reclaim_closed_lineage.simps) (simp add: Let_def freed_def)
      moreover have "list_all referenced ?sl"
        unfolding list_all_length
      proof (intro allI impI)
        show "referenced (?sl ! n)" if "n < length ?sl" for n
          using 1(5) [of n] that by (cases "n = idx") (auto simp: referenced_def)
      qed
      moreover have "reclaimed (slots ! i) (?sl ! i)" if "i < length slots" for i
        using that closed None by (cases "i = idx") (auto simp: reclaimed_def freed_def)
      ultimately show ?thesis using lineage_ok_free_root [OF 1(2,3) closed None] by simp
    next
      case (Some p)
      let ?sl = "slots[idx := freed ?s, p := unref (slots ! p)]"
      note P = lineage_okD(2) [OF 1(2,3) Some]
      have neq: "p \<noteq> idx" using lineage_parent_neq [OF 1(2,3) Some] .
      have pos: "0 < se_child_count (slots ! p)"
        using lineage_okD(4) [OF 1(2), of p] child_total_pos [OF 1(3) Some] P by simp
      have step: "reclaim_closed_lineage idx slots = reclaim_closed_lineage p ?sl"
        using in_range closed Some P neq pos
        by (subst reclaim_closed_lineage.simps) (simp add: Let_def freed_def unref_def)
      have sl: "?sl ! k = (if k = p then unref (slots ! p) else if k = idx then freed ?s else slots ! k)"
        if "k < length slots" for k using that by (simp add: nth_list_update)
      let ?s1 = "slots[idx := ?s\<lparr>se_lineage_parent := None, se_in_use := False\<rparr>]"
      have eq: "?s1[p := (?s1 ! p)\<lparr>se_child_count := se_child_count (?s1 ! p) - 1\<rparr>] = ?sl"
        using neq by (simp add: freed_def unref_def)
      have guards: "\<not> length slots \<le> idx" "\<not> (length ?s1 \<le> p \<or> se_child_count (?s1 ! p) = 0)"
        using in_range P pos neq by auto
      note IH = 1(1) [OF guards(1) refl False refl Some guards(2)]
      have "\<exists>slots'. reclaim_closed_lineage p ?sl = Some slots' \<and> length slots' = length ?sl
          \<and> lineage_ok slots' \<and> list_all referenced slots'
          \<and> (\<forall>i < length ?sl. reclaimed (?sl ! i) (slots' ! i))"
      proof (rule IH [unfolded eq])
        show "lineage_ok ?sl" by (rule lineage_ok_free_child [OF 1(2,3) closed Some])
        show "p < length ?sl" using P by simp
        show "se_in_use (?sl ! p)" using P by (simp add: unref_def edge_ok_def)
        show "referenced (?sl ! i)" if "i < length ?sl" "i \<noteq> p" for i
          using that 1(5) [of i] by (cases "i = idx") (auto simp: freed_def referenced_def)
      qed
      moreover have "reclaimed (slots ! i) (?sl ! i)" if "i < length slots" for i
        unfolding sl [OF that] using closed by (simp add: reclaimed_freed reclaimed_unref)
      ultimately show ?thesis unfolding step by (auto intro: reclaimed_trans)
    qed
  qed
qed

lemma reclaimed_sel:
  assumes "reclaimed s s'"
  shows "se_ticket s' = se_ticket s" "se_kind s' = se_kind s" "se_rights s' = se_rights s"
    "se_expiry s' = se_expiry s" "se_admission_cut s' = se_admission_cut s"
    "se_holder_open s' = se_holder_open s" "se_in_use s' \<Longrightarrow> se_in_use s"
    "se_in_use s' \<Longrightarrow> se_lineage_parent s' = se_lineage_parent s" "se_depth s' = se_depth s"
    "se_holder s' = se_holder s" "se_issuer s' = se_issuer s" "se_quiesced s' = se_quiesced s"
  using assms by (cases s; cases s'; auto simp: reclaimed_def)+

lemma class_rights_ok_reclaimed: "reclaimed s s' \<Longrightarrow> class_rights_ok s \<Longrightarrow> class_rights_ok s'"
  using reclaimed_sel [of s s'] by (auto simp: class_rights_ok_def)

lemma tickets_ok_mono:
  assumes ok: "tickets_ok n slots" and len: "length slots' = length slots"
    and sub: "\<And>i. i < length slots \<Longrightarrow> se_in_use (slots' ! i) \<Longrightarrow>
      se_in_use (slots ! i) \<and> se_ticket (slots' ! i) = se_ticket (slots ! i)"
  shows "tickets_ok n slots'"
  unfolding tickets_ok_def len
proof (intro conjI allI impI)
  note T = tickets_okD [OF ok]
  show "0 < n" by (rule T(1))
  fix i assume i: "i < length slots" "se_in_use (slots' ! i)"
  show "0 < se_ticket (slots' ! i)" "se_ticket (slots' ! i) < n"
    using T(2) [of i] sub [OF i] i(1) by simp_all
  fix j assume j: "j < length slots" "se_in_use (slots' ! j)" "se_ticket (slots' ! j) = se_ticket (slots' ! i)"
  then show "j = i" using T(3) [of i j] sub [OF i] sub [OF j(1,2)] i(1) by simp
qed

lemma lineage_ok_close:
  assumes ok: "lineage_ok slots" and i: "i < length slots"
  shows "lineage_ok (slots[i := (slots ! i)\<lparr>se_holder_open := False\<rparr>])" (is "lineage_ok ?sl")
proof (rule lineage_okI; (unfold length_list_update)?)
  have tot: "child_total ?sl k = child_total slots k" for k by (rule child_total_same [OF i]) simp
  have edge: "edge_ok (?sl ! j) (?sl ! p) = edge_ok (slots ! j) (slots ! p)"
    if "j < length slots" "p < length slots" for j p
    using that i by (cases "j = i"; cases "p = i") (simp_all add: edge_ok_def)
  fix j assume j: "j < length slots"
  note D = lineage_okD [OF ok j]
  show "\<not> se_in_use (?sl ! j) \<Longrightarrow> se_lineage_parent (?sl ! j) = None \<and> \<not> se_holder_open (?sl ! j)"
    using D(1) j by (cases "j = i") auto
  show "se_depth (?sl ! j) \<le> MAX_LINEAGE_DEPTH" using D(3) j by (cases "j = i") auto
  show "se_child_count (?sl ! j) = child_total ?sl j" unfolding tot using D(4) j by (cases "j = i") auto
  fix q assume "se_lineage_parent (?sl ! j) = Some q"
  then have "se_lineage_parent (slots ! j) = Some q" using j by (cases "j = i") auto
  then show "q < length slots \<and> edge_ok (?sl ! j) (?sl ! q)" using D(2) edge j by blast
qed

text \<open>
  What closing a ticket does: it always returns; on a live ticket the holder reference of exactly
  that slot goes away, closed slots without children are released, and nothing else changes.
\<close>

lemma close_ticket_OkE:
  assumes inv: "ca_inv a" and idx: "live_slot_index a t = Ok idx"
  obtains slots' where
    "close_ticket t a fs = Some (Ok (), a\<lparr>ca_slots := slots'\<rparr>, remove_ticket_file (ticket_key a t) fs)"
    "ca_inv (a\<lparr>ca_slots := slots'\<rparr>)" "length slots' = length (ca_slots a)"
    "reclaimed ((ca_slots a ! idx)\<lparr>se_holder_open := False\<rparr>) (slots' ! idx)"
    "\<And>i. i < length (ca_slots a) \<Longrightarrow> i \<noteq> idx \<Longrightarrow> reclaimed (ca_slots a ! i) (slots' ! i)"
    "ca_revoking a \<Longrightarrow> slots' = (ca_slots a)[idx := (ca_slots a ! idx)\<lparr>se_holder_open := False\<rparr>]"
proof -
  let ?sl = "(ca_slots a)[idx := (ca_slots a ! idx)\<lparr>se_holder_open := False\<rparr>]"
  note L = live_slot_index_OkD [OF idx]
  note lin = lineage_ok_close [OF ca_invD(2) [OF inv] L(2)]
  have "\<exists>slots'. (if \<not> ca_revoking a then reclaim_closed_lineage idx ?sl else Some ?sl) = Some slots'
      \<and> length slots' = length ?sl \<and> lineage_ok slots' \<and> (\<not> ca_revoking a \<longrightarrow> list_all referenced slots')
      \<and> (\<forall>i < length ?sl. reclaimed (?sl ! i) (slots' ! i)) \<and> (ca_revoking a \<longrightarrow> slots' = ?sl)"
  proof (cases "ca_revoking a")
    case False
    have "referenced (?sl ! i)" if "i < length ?sl" "i \<noteq> idx" for i
      using that False inv by (simp add: ca_inv_def list_all_length)
    then show ?thesis
      using reclaim_correct [OF lin, of idx] L False by simp
  qed (use lin in simp)
  then obtain slots' where R: "(if \<not> ca_revoking a then reclaim_closed_lineage idx ?sl else Some ?sl) = Some slots'"
    "length slots' = length ?sl" "lineage_ok slots'" "\<not> ca_revoking a \<longrightarrow> list_all referenced slots'"
    "\<And>i. i < length ?sl \<Longrightarrow> reclaimed (?sl ! i) (slots' ! i)" "ca_revoking a \<longrightarrow> slots' = ?sl"
    by blast
  note S = reclaimed_sel [OF R(5)]
  have sl: "se_in_use (?sl ! i) = se_in_use (ca_slots a ! i)" "se_ticket (?sl ! i) = se_ticket (ca_slots a ! i)"
    "class_rights_ok (?sl ! i) = class_rights_ok (ca_slots a ! i)"
    "se_admission_cut (?sl ! i) = se_admission_cut (ca_slots a ! i)" for i
    using L(2) by (cases "i = idx"; simp add: class_rights_ok_def)+
  have "tickets_ok (ca_next_ticket_counter a) slots'"
    by (rule tickets_ok_mono [OF ca_invD(3) [OF inv]]) (use R(2) S sl in auto)
  moreover have "list_all class_rights_ok slots'"
    unfolding list_all_length
  proof (intro allI impI)
    fix i assume i: "i < length slots'"
    have "class_rights_ok (?sl ! i)" using inv i R(2) unfolding sl(3) by (simp add: ca_inv_def list_all_length)
    then show "class_rights_ok (slots' ! i)" using class_rights_ok_reclaimed [OF R(5)] i R(2) by simp
  qed
  moreover have "ca_revoking a \<Longrightarrow> list_all (\<lambda>s. se_in_use s \<longrightarrow> se_admission_cut s) slots'"
    using inv R(2,6) sl by (simp add: ca_inv_def list_all_length)
  ultimately have "ca_inv (a\<lparr>ca_slots := slots'\<rparr>)"
    using R(2,3,4) ca_invD(1) [OF inv] by (simp add: ca_inv_def)
  moreover have "reclaimed (ca_slots a ! i) (slots' ! i)" if "i < length (ca_slots a)" "i \<noteq> idx" for i
    using R(5) [of i] that by simp
  moreover have "close_ticket t a fs = Some (Ok (), a\<lparr>ca_slots := slots'\<rparr>, remove_ticket_file (ticket_key a t) fs)"
    using idx R(1) by (simp add: close_ticket_def Let_def)
  ultimately show thesis
    using that [of slots'] R(2,6) R(5) [of idx] L(2) by simp
qed

lemma close_ticket_Err: "live_slot_index a t = Err e \<Longrightarrow> close_ticket t a fs = Some (Err e, a, fs)"
  by (simp add: close_ticket_def)

lemma ca_inv_close_ticket [cellos_inv]:
  assumes "ca_inv a"
  shows "\<exists>res a' fs'. close_ticket t a fs = Some (res, a', fs') \<and> ca_inv a'"
proof (cases "live_slot_index a t")
  case (Inl e)
  then show ?thesis using assms by (simp add: close_ticket_Err)
next
  case (Inr idx)
  then show ?thesis by (rule close_ticket_OkE [OF assms]) blast
qed

end
