(* ===== verification/CSpace_Revoke.thy ===== *)
theory CSpace_Revoke
  imports CSpace_Inv
begin

text \<open>
  Revocation and lineage: the ancestor relation of the slot arena, termination and result of the
  ancestor walk, what \<open>revoke_ticket\<close> cuts, retirement, and the step relation over the operations of
  a \<open>CellAuthority\<close> with the facts that hold along every run.
\<close>

section \<open>Ancestors\<close>

text \<open>\<open>descends slots i k\<close>: slot \<open>k\<close> is a proper ancestor of slot \<open>i\<close>.\<close>

inductive descends :: "slot_entry list \<Rightarrow> nat \<Rightarrow> nat \<Rightarrow> bool" for slots where
  parent: "i < length slots \<Longrightarrow> se_lineage_parent (slots ! i) = Some p \<Longrightarrow> descends slots i p"
| up: "i < length slots \<Longrightarrow> se_lineage_parent (slots ! i) = Some p \<Longrightarrow> descends slots p k \<Longrightarrow> descends slots i k"

lemma descends_unfold:
  "i < length slots \<Longrightarrow> descends slots i k \<longleftrightarrow>
     (\<exists>p. se_lineage_parent (slots ! i) = Some p \<and> (p = k \<or> descends slots p k))"
  by (auto elim: descends.cases intro: descends.intros)

lemma descends_parents_cong:
  assumes "map se_lineage_parent slots = map se_lineage_parent slots'"
  shows "descends slots i k \<longleftrightarrow> descends slots' i k"
proof -
  have sub: "descends xs i k \<Longrightarrow> descends ys i k"
    if eq: "map se_lineage_parent xs = map se_lineage_parent ys" for xs ys i k
  proof (induction rule: descends.induct)
    have len: "length xs = length ys" using eq by (rule map_eq_imp_length_eq)
    have nth: "se_lineage_parent (xs ! i) = se_lineage_parent (ys ! i)" if "i < length xs" for i
      using eq that len by (metis nth_map)
    { case (parent i p) then show ?case using len nth [of i] by (auto intro: descends.parent) }
    { case (up i p k) then show ?case using len nth [of i] by (auto intro: descends.up) }
  qed
  show ?thesis using sub [OF assms] sub [OF assms [symmetric]] by blast
qed

text \<open>The parent pointers descend in depth: all the walk needs.\<close>

definition lineage_wf :: "slot_entry list \<Rightarrow> bool" where
  "lineage_wf slots \<longleftrightarrow> (\<forall>i < length slots. \<forall>p. se_lineage_parent (slots ! i) = Some p \<longrightarrow>
     p < length slots \<and> se_depth (slots ! p) < se_depth (slots ! i))"

lemma lineage_ok_wf: "lineage_ok slots \<Longrightarrow> lineage_wf slots"
  using lineage_okD(2) by (fastforce simp: lineage_wf_def edge_ok_def)

text \<open>The ancestor walk ends, and finds the target exactly when it is an ancestor.\<close>

lemma lineage_hits_correct:
  assumes wf: "lineage_wf slots" and "i < length slots"
  shows "lineage_hits slots k (se_lineage_parent (slots ! i)) = Some (descends slots i k)"
  using assms(2)
proof (induction "se_depth (slots ! i)" arbitrary: i rule: less_induct)
  case less
  show ?case
  proof (cases "se_lineage_parent (slots ! i)")
    case None
    then show ?thesis using less.prems by (simp add: lineage_hits.simps descends_unfold)
  next
    case (Some p)
    then have p: "p < length slots" "se_depth (slots ! p) < se_depth (slots ! i)"
      using wf less.prems by (auto simp: lineage_wf_def)
    show ?thesis
      using less.hyps [OF p(2,1)] p(1) Some less.prems
      by (subst lineage_hits.simps) (auto simp: descends_unfold [of i])
  qed
qed

lemma descends_irrefl:
  assumes "lineage_wf slots"
  shows "descends slots i k \<Longrightarrow> se_depth (slots ! k) < se_depth (slots ! i)"
proof (induction rule: descends.induct)
  case (parent i p)
  then show ?case using assms by (auto simp: lineage_wf_def)
next
  case (up i p k)
  then show ?case using assms by (auto simp: lineage_wf_def intro: less_trans)
qed

lemma descends_range: "lineage_wf slots \<Longrightarrow> descends slots i k \<Longrightarrow> i < length slots \<and> k < length slots"
  by (rotate_tac, induction rule: descends.induct) (auto simp: lineage_wf_def)

text \<open>Authority only shrinks along the lineage, over any number of derivations.\<close>

lemma descends_attenuates:
  assumes "lineage_ok slots"
  shows "descends slots i k \<Longrightarrow>
    se_in_use (slots ! i) \<and> se_in_use (slots ! k) \<and>
    subset_bits (se_rights (slots ! i)) (se_rights (slots ! k))
    \<and> expiry_within (se_expiry (slots ! i)) (se_expiry (slots ! k))
    \<and> (se_admission_cut (slots ! k) \<longrightarrow> se_admission_cut (slots ! i))"
proof (induction rule: descends.induct)
  case (parent i p)
  then show ?case
    using lineage_okD(1) [OF assms, of i] lineage_okD(2) [OF assms, of i p] by (auto simp: edge_ok_def)
next
  case (up i p k)
  then have "edge_ok (slots ! i) (slots ! p)" "se_in_use (slots ! i)"
    using lineage_okD(1) [OF assms, of i] lineage_okD(2) [OF assms, of i p] by auto
  then show ?case using up.IH
    by (auto simp: edge_ok_def intro: subset_bits_trans expiry_within_trans)
qed

section \<open>Cutting a subtree\<close>

definition cut :: "slot_entry \<Rightarrow> slot_entry" where
  "cut s = s\<lparr>se_admission_cut := True\<rparr>"

lemma cut_sel [simp]:
  "se_in_use (cut s) = se_in_use s" "se_holder_open (cut s) = se_holder_open s"
  "se_child_count (cut s) = se_child_count s" "se_ticket (cut s) = se_ticket s"
  "se_kind (cut s) = se_kind s" "se_rights (cut s) = se_rights s" "se_expiry (cut s) = se_expiry s"
  "se_lineage_parent (cut s) = se_lineage_parent s" "se_depth (cut s) = se_depth s"
  "se_admission_cut (cut s)"
  by (simp_all add: cut_def)

lemma cut_idem: "se_admission_cut s \<Longrightarrow> cut s = s"
  by (cases s) (simp add: cut_def)

text \<open>The slots after cutting those selected by a predicate on the index.\<close>

definition cut_where :: "(nat \<Rightarrow> bool) \<Rightarrow> slot_entry list \<Rightarrow> slot_entry list" where
  "cut_where P slots = map (\<lambda>i. if P i then cut (slots ! i) else slots ! i) [0..<length slots]"

lemma length_cut_where [simp]: "length (cut_where P slots) = length slots"
  by (simp add: cut_where_def)

lemma nth_cut_where:
  "i < length slots \<Longrightarrow> cut_where P slots ! i = (if P i then cut (slots ! i) else slots ! i)"
  by (simp add: cut_where_def)

lemma cut_where_sel:
  assumes "i < length slots"
  shows "se_in_use (cut_where P slots ! i) = se_in_use (slots ! i)"
    "se_holder_open (cut_where P slots ! i) = se_holder_open (slots ! i)"
    "se_child_count (cut_where P slots ! i) = se_child_count (slots ! i)"
    "se_ticket (cut_where P slots ! i) = se_ticket (slots ! i)"
    "se_kind (cut_where P slots ! i) = se_kind (slots ! i)"
    "se_rights (cut_where P slots ! i) = se_rights (slots ! i)"
    "se_expiry (cut_where P slots ! i) = se_expiry (slots ! i)"
    "se_lineage_parent (cut_where P slots ! i) = se_lineage_parent (slots ! i)"
    "se_depth (cut_where P slots ! i) = se_depth (slots ! i)"
    "se_admission_cut (cut_where P slots ! i) = (P i \<or> se_admission_cut (slots ! i))"
  using assms by (simp_all add: nth_cut_where)

lemma parents_cut_where: "map se_lineage_parent (cut_where P slots) = map se_lineage_parent slots"
  by (rule nth_equalityI) (simp_all add: nth_cut_where)

lemma lineage_wf_cut_where [simp]: "lineage_wf (cut_where P slots) = lineage_wf slots"
  by (simp add: lineage_wf_def cut_where_sel cong: conj_cong)

lemma cut_where_update:
  "i < length slots \<Longrightarrow> (cut_where P slots)[i := cut (cut_where P slots ! i)] = cut_where (\<lambda>j. P j \<or> j = i) slots"
  by (rule nth_equalityI) (auto simp: nth_cut_where nth_list_update cut_idem)

text \<open>The loop over the arena: it ends, and cuts exactly the in-use descendants it visits.\<close>

lemma cut_descendants_correct:
  assumes wf: "lineage_wf slots" and "\<forall>i \<in> set idxs. i < length slots"
  shows "cut_descendants k idxs (cut_where P slots) =
    Some (cut_where (\<lambda>i. P i \<or> i \<in> set idxs \<and> se_in_use (slots ! i) \<and> descends slots i k) slots)"
  using assms(2)
proof (induction idxs arbitrary: P)
  case Nil
  then show ?case by simp
next
  case (Cons i idxs)
  let ?c = "cut_where P slots"
  have i: "i < length slots" using Cons.prems by simp
  have hit: "lineage_hits ?c k (se_lineage_parent (?c ! i)) = Some (descends slots i k)"
    using lineage_hits_correct [of ?c i k] wf i descends_parents_cong [OF parents_cut_where] by simp
  have use: "se_in_use (?c ! i) = se_in_use (slots ! i)" using i by (simp add: nth_cut_where)
  let ?Q = "\<lambda>j. P j \<or> j = i \<and> se_in_use (slots ! i) \<and> descends slots i k"
  have "cut_descendants k (i # idxs) ?c = cut_descendants k idxs (cut_where ?Q slots)"
  proof (cases "se_in_use (slots ! i) \<and> descends slots i k")
    case True
    then have Q: "cut_where ?Q slots = ?c[i := cut (?c ! i)]"
      using cut_where_update [OF i, of P] by simp
    show ?thesis
    proof (cases "se_admission_cut (?c ! i)")
      case already: True
      then show ?thesis by (simp add: Q cut_idem)
    next
      case False
      then show ?thesis unfolding Q using True hit use by (simp add: cut_def)
    qed
  next
    case False
    then have "cut_where ?Q slots = ?c" by (rule_tac arg_cong [where f = "\<lambda>R. cut_where R slots"]) auto
    then show ?thesis using False hit use by auto
  qed
  also have "\<dots> = Some (cut_where (\<lambda>j. ?Q j \<or> j \<in> set idxs \<and> se_in_use (slots ! j) \<and> descends slots j k) slots)"
    using Cons.IH [of ?Q] Cons.prems by simp
  also have "(\<lambda>j. ?Q j \<or> j \<in> set idxs \<and> se_in_use (slots ! j) \<and> descends slots j k) =
      (\<lambda>j. P j \<or> j \<in> set (i # idxs) \<and> se_in_use (slots ! j) \<and> descends slots j k)" by auto
  finally show ?case .
qed

text \<open>The slots \<open>revoke_ticket\<close> cuts: the target and every in-use descendant.\<close>

definition in_subtree :: "slot_entry list \<Rightarrow> nat \<Rightarrow> nat \<Rightarrow> bool" where
  "in_subtree slots k i \<longleftrightarrow> i = k \<or> se_in_use (slots ! i) \<and> descends slots i k"

lemma revoke_ticket_Ok:
  assumes inv: "ca_inv a" and idx: "live_slot_index a t = Ok k"
  shows "revoke_ticket t a = Some (Ok t, a\<lparr>ca_slots := cut_where (in_subtree (ca_slots a) k) (ca_slots a)\<rparr>)"
proof -
  let ?sl = "ca_slots a"
  note L = live_slot_index_OkD [OF idx]
  have start: "?sl[k := (?sl ! k)\<lparr>se_admission_cut := True\<rparr>] = cut_where (\<lambda>i. i = k) ?sl"
    by (rule nth_equalityI) (auto simp: nth_cut_where nth_list_update cut_def)
  have "cut_descendants k [0..<length ?sl] (cut_where (\<lambda>i. i = k) ?sl) =
      Some (cut_where (\<lambda>i. i = k \<or> i \<in> set [0..<length ?sl] \<and> se_in_use (?sl ! i) \<and> descends ?sl i k) ?sl)"
    by (rule cut_descendants_correct) (use lineage_ok_wf [OF ca_invD(2) [OF inv]] in auto)
  also have "cut_where (\<lambda>i. i = k \<or> i \<in> set [0..<length ?sl] \<and> se_in_use (?sl ! i) \<and> descends ?sl i k) ?sl
      = cut_where (in_subtree ?sl k) ?sl"
    by (rule nth_equalityI) (auto simp: nth_cut_where in_subtree_def)
  finally show ?thesis using idx by (simp add: revoke_ticket_def start)
qed

lemma revoke_ticket_Err: "live_slot_index a t = Err e \<Longrightarrow> revoke_ticket t a = Some (Err e, a)"
  by (simp add: revoke_ticket_def)

section \<open>Preservation by revocation and retirement\<close>

lemma child_total_parents:
  "child_total slots k = length (filter (\<lambda>p. p = Some k) (map se_lineage_parent slots))"
  by (simp add: child_total_def count_if_def filter_map o_def)

lemma lineage_ok_cut_where:
  assumes ok: "lineage_ok slots"
    and closed: "\<And>i p. i < length slots \<Longrightarrow> se_lineage_parent (slots ! i) = Some p \<Longrightarrow> P p \<Longrightarrow>
      P i \<or> se_admission_cut (slots ! i)"
  shows "lineage_ok (cut_where P slots)"
proof (rule lineage_okI; (unfold length_cut_where)?)
  fix i assume i: "i < length slots"
  note D = lineage_okD [OF ok i] and S = cut_where_sel [OF i, of P]
  show "\<not> se_in_use (cut_where P slots ! i) \<Longrightarrow>
      se_lineage_parent (cut_where P slots ! i) = None \<and> \<not> se_holder_open (cut_where P slots ! i)"
    using D(1) by (simp add: S)
  show "se_depth (cut_where P slots ! i) \<le> MAX_LINEAGE_DEPTH" using D(3) by (simp add: S)
  show "se_child_count (cut_where P slots ! i) = child_total (cut_where P slots) i"
    using D(4) by (simp add: S child_total_parents parents_cut_where)
  fix p assume "se_lineage_parent (cut_where P slots ! i) = Some p"
  then have par: "se_lineage_parent (slots ! i) = Some p" by (simp add: S)
  then show "p < length slots \<and> edge_ok (cut_where P slots ! i) (cut_where P slots ! p)"
    using D(2) [OF par] closed [OF i par] by (auto simp: edge_ok_def S cut_where_sel)
qed

lemma list_all_cut_where:
  "list_all P slots \<Longrightarrow> (\<And>s. P s \<Longrightarrow> P (cut s)) \<Longrightarrow> list_all P (cut_where Q slots)"
  by (simp add: list_all_length nth_cut_where)

lemma ca_inv_cut_where:
  assumes inv: "ca_inv a"
    and closed: "\<And>i p. i < length (ca_slots a) \<Longrightarrow> se_lineage_parent (ca_slots a ! i) = Some p \<Longrightarrow> P p \<Longrightarrow>
      P i \<or> se_admission_cut (ca_slots a ! i)"
  shows "ca_inv (a\<lparr>ca_slots := cut_where P (ca_slots a)\<rparr>)"
proof -
  have "tickets_ok (ca_next_ticket_counter a) (cut_where P (ca_slots a))"
    by (rule tickets_ok_mono [OF ca_invD(3) [OF inv]]) (simp_all add: cut_where_sel)
  moreover have "lineage_ok (cut_where P (ca_slots a))"
    using ca_invD(2) [OF inv] closed by (rule lineage_ok_cut_where)
  moreover have "list_all class_rights_ok (cut_where P (ca_slots a))"
    using inv by (intro list_all_cut_where) (auto simp: ca_inv_def class_rights_ok_def)
  moreover have "\<not> ca_revoking a \<Longrightarrow> list_all referenced (cut_where P (ca_slots a))"
    using inv by (intro list_all_cut_where) (auto simp: ca_inv_def referenced_def)
  moreover have "ca_revoking a \<Longrightarrow> list_all (\<lambda>s. se_in_use s \<longrightarrow> se_admission_cut s) (cut_where P (ca_slots a))"
    using inv by (intro list_all_cut_where) (auto simp: ca_inv_def)
  ultimately show ?thesis using ca_invD(1) [OF inv] by (simp add: ca_inv_def)
qed

lemma in_subtree_closed:
  assumes ok: "lineage_ok slots" and i: "i < length slots" "se_lineage_parent (slots ! i) = Some p"
    and p: "in_subtree slots k p"
  shows "in_subtree slots k i"
proof -
  have "se_in_use (slots ! i)" using lineage_okD(1) [OF ok i(1)] i(2) by auto
  moreover have "descends slots i k" using i p by (auto simp: in_subtree_def intro: descends.intros)
  ultimately show ?thesis by (simp add: in_subtree_def)
qed

lemma ca_inv_revoke_ticket [cellos_inv]:
  assumes inv: "ca_inv a"
  shows "\<exists>res a'. revoke_ticket t a = Some (res, a') \<and> ca_inv a'"
proof (cases "live_slot_index a t")
  case (Inl e)
  then show ?thesis using inv by (simp add: revoke_ticket_Err)
next
  case (Inr k)
  then show ?thesis
    using revoke_ticket_Ok [OF inv Inr] ca_inv_cut_where [OF inv, of "in_subtree (ca_slots a) k"]
      in_subtree_closed [OF ca_invD(2) [OF inv]] by blast
qed

lemma retire_eq:
  "retire a = a\<lparr>ca_slots := cut_where (\<lambda>i. se_in_use (ca_slots a ! i)) (ca_slots a), ca_revoking := True\<rparr>"
proof -
  have "map (\<lambda>slot. if se_in_use slot then slot\<lparr>se_admission_cut := True\<rparr> else slot) (ca_slots a)
      = cut_where (\<lambda>i. se_in_use (ca_slots a ! i)) (ca_slots a)"
    by (rule nth_equalityI) (simp_all add: nth_cut_where cut_def)
  then show ?thesis by (simp add: retire_def)
qed

lemma ca_inv_retire [cellos_inv]:
  assumes inv: "ca_inv a"
  shows "ca_inv (retire a)"
proof -
  let ?P = "\<lambda>i. se_in_use (ca_slots a ! i)"
  have "ca_inv (a\<lparr>ca_slots := cut_where ?P (ca_slots a)\<rparr>)"
    by (rule ca_inv_cut_where [OF inv]) (use lineage_okD(1) [OF ca_invD(2) [OF inv]] in force)
  then show ?thesis
    by (auto simp: retire_eq ca_inv_def list_all_length cut_where_sel)
qed

section \<open>Runs\<close>

text \<open>The operations of one authority and its file store, as a step relation.\<close>

type_synonym 'f cspace = "cell_authority \<times> 'f cspace_files"

inductive cs_step :: "'f cspace \<Rightarrow> 'f cspace \<Rightarrow> bool" where
  alloc: "allocate_slot h i k r e p a = (res, a') \<Longrightarrow> cs_step (a, fs) (a', fs)"
| alloc_file: "allocate_file_slot h f r a fs = (res, a', fs') \<Longrightarrow> cs_step (a, fs) (a', fs')"
| close: "close_ticket t a fs = Some (res, a', fs') \<Longrightarrow> cs_step (a, fs) (a', fs')"
| revoke: "revoke_ticket t a = Some (res, a') \<Longrightarrow> cs_step (a, fs) (a', fs)"
| park: "cspace_park_file t r a fs = (res, fs') \<Longrightarrow> cs_step (a, fs) (a, fs')"
| unpark: "cs_step (a, fs) (a, cspace_unpark_file t f a fs)"
| retire: "cs_step (a, fs) (retire a, fs)"

text \<open>Every step is an allocation, a close, a cut or leaves the authority unchanged.\<close>

lemma allocate_file_slot_authority:
  "allocate_file_slot h f r a fs = (res, a', fs') \<Longrightarrow> \<exists>res'. allocate_slot h Kernel BootFSFile r None None a = (res', a')"
  by (cases "allocate_slot h Kernel BootFSFile r None None a")
    (auto simp: allocate_file_slot_def split: sum.split_asm)

lemma cs_step_cases [consumes 1, case_names alloc close revoke same retire]:
  assumes "cs_step s s'"
  obtains h i k r e p res where "allocate_slot h i k r e p (fst s) = (res, fst s')"
  | t res where "close_ticket t (fst s) (snd s) = Some (res, fst s', snd s')"
  | t res where "revoke_ticket t (fst s) = Some (res, fst s')"
  | "fst s' = fst s"
  | "fst s' = retire (fst s)"
  using assms by (cases rule: cs_step.cases) (auto dest: allocate_file_slot_authority)

lemma cs_step_inv: "ca_inv (fst s) \<Longrightarrow> cs_step s s' \<Longrightarrow> ca_inv (fst s')"
proof (rotate_tac, induction rule: cs_step_cases)
  case (alloc h i k r e p res)
  then show ?case using ca_inv_allocate_slot [of "fst s" h i k r e p] by simp
next
  case (close t res)
  then show ?case using ca_inv_close_ticket [of "fst s" t "snd s"] by auto
next
  case (revoke t res)
  then show ?case using ca_inv_revoke_ticket [of "fst s" t] by auto
qed (auto intro: ca_inv_retire)

text \<open>How one step may change the slot that carries a ticket.\<close>

definition holds_ticket :: "cell_authority \<Rightarrow> nat \<Rightarrow> u64 \<Rightarrow> bool" where
  "holds_ticket a i t \<longleftrightarrow> i < length (ca_slots a) \<and> se_in_use (ca_slots a ! i) \<and> se_ticket (ca_slots a ! i) = t"

definition ticket_live :: "cell_authority \<Rightarrow> u64 \<Rightarrow> bool" where
  "ticket_live a t \<longleftrightarrow> (\<exists>i. holds_ticket a i t \<and> se_holder_open (ca_slots a ! i))"

lemma ticket_live_iff: "ca_inv a \<Longrightarrow> ticket_live a t \<longleftrightarrow> (\<exists>i. live_slot_index a t = Ok i)"
  by (auto simp: ticket_live_def holds_ticket_def live_slot_index_iff)

lemma alloc_holds:
  assumes "ca_inv a" "allocate_slot h i k r e p a = (res, a')" "holds_ticket a' j t"
    "t < ca_next_ticket_counter a"
  shows "holds_ticket a j t" "se_holder_open (ca_slots a' ! j) = se_holder_open (ca_slots a ! j)"
    "se_admission_cut (ca_slots a' ! j) = se_admission_cut (ca_slots a ! j)"
proof -
  have "holds_ticket a j t \<and> se_holder_open (ca_slots a' ! j) = se_holder_open (ca_slots a ! j)
      \<and> se_admission_cut (ca_slots a' ! j) = se_admission_cut (ca_slots a ! j)"
  proof (cases res)
    case (Inl st)
    then show ?thesis using assms allocate_slot_Err by blast
  next
    case (Inr tick)
    with assms(2) have "allocate_slot h i k r e p a = (Ok tick, a')" by simp
    then show ?thesis
    proof (rule allocate_slot_OkE, goal_cases)
      case (1 lp depth idx s)
      then have a': "ca_slots a' = publish_slot idx s (ca_slots a)" by (metis cell_authority.select_convs(5) cell_authority.surjective cell_authority.update_convs(5) cell_authority.update_convs(6))
      have neq: "se_lineage_parent s \<noteq> Some idx"
        using allocate_parent_ok [OF assms(1), of p idx r e depth s] 1 by (auto simp: edge_ok_def)
      have "j \<noteq> idx"
        using assms(3,4) 1 publish_slot_new [OF _ neq, of "ca_slots a"] by (auto simp: holds_ticket_def a')
      then show ?thesis
        using assms(3) 1 by (auto simp: holds_ticket_def a' publish_slot_old)
    qed
  qed
  then show "holds_ticket a j t" "se_holder_open (ca_slots a' ! j) = se_holder_open (ca_slots a ! j)"
    "se_admission_cut (ca_slots a' ! j) = se_admission_cut (ca_slots a ! j)" by auto
qed

lemma close_holds:
  assumes inv: "ca_inv a" and c: "close_ticket u a fs = Some (res, a', fs')" and h: "holds_ticket a' j t"
  shows "holds_ticket a j t" "se_holder_open (ca_slots a' ! j) \<longrightarrow> se_holder_open (ca_slots a ! j)"
    "se_admission_cut (ca_slots a' ! j) = se_admission_cut (ca_slots a ! j)"
    "ca_next_ticket_counter a' = ca_next_ticket_counter a"
proof -
  have "holds_ticket a j t \<and> (se_holder_open (ca_slots a' ! j) \<longrightarrow> se_holder_open (ca_slots a ! j))
      \<and> se_admission_cut (ca_slots a' ! j) = se_admission_cut (ca_slots a ! j)
      \<and> ca_next_ticket_counter a' = ca_next_ticket_counter a"
  proof (cases "live_slot_index a u")
    case (Inl e)
    then show ?thesis using c h by (simp add: close_ticket_Err)
  next
    case (Inr idx)
    show ?thesis
    proof (rule close_ticket_OkE [OF inv Inr, of fs], goal_cases)
      case (1 slots')
      then have a': "a' = a\<lparr>ca_slots := slots'\<rparr>" using c by simp
      show ?thesis
      proof (cases "j = idx")
        case True
        then show ?thesis using h reclaimed_sel [OF 1(4)] 1(3) by (simp add: a' holds_ticket_def)
      next
        case False
        then show ?thesis using h reclaimed_sel [OF 1(5) [of j]] 1(3) by (simp add: a' holds_ticket_def)
      qed
    qed
  qed
  then show "holds_ticket a j t" "se_holder_open (ca_slots a' ! j) \<longrightarrow> se_holder_open (ca_slots a ! j)"
    "se_admission_cut (ca_slots a' ! j) = se_admission_cut (ca_slots a ! j)"
    "ca_next_ticket_counter a' = ca_next_ticket_counter a" by auto
qed

lemma close_next:
  "ca_inv a \<Longrightarrow> close_ticket u a fs = Some (res, a', fs') \<Longrightarrow> ca_next_ticket_counter a' = ca_next_ticket_counter a"
  by (auto simp: close_ticket_def Let_def split: sum.split_asm option.split_asm)

lemma revoke_shape:
  assumes "ca_inv a" "revoke_ticket u a = Some (res, a')"
  obtains P where "a' = a\<lparr>ca_slots := cut_where P (ca_slots a)\<rparr>"
proof (cases "live_slot_index a u")
  case (Inl e)
  then have "a' = a" using assms(2) by (simp add: revoke_ticket_Err)
  moreover have "cut_where (\<lambda>_. False) (ca_slots a) = ca_slots a"
    by (rule nth_equalityI) (simp_all add: nth_cut_where)
  ultimately show thesis using that [of "\<lambda>_. False"] by simp
next
  case (Inr k)
  then show thesis using that revoke_ticket_Ok [OF assms(1) Inr] assms(2) by auto
qed

lemma cut_where_holds:
  assumes "ca_slots a' = cut_where P (ca_slots a)" "holds_ticket a' j t"
  shows "holds_ticket a j t \<and> se_holder_open (ca_slots a' ! j) = se_holder_open (ca_slots a ! j)
    \<and> (se_admission_cut (ca_slots a ! j) \<longrightarrow> se_admission_cut (ca_slots a' ! j))"
  using assms by (auto simp: holds_ticket_def cut_where_sel)

lemma cs_step_next:
  assumes "ca_inv (fst s)" "cs_step s s'"
  shows "ca_next_ticket_counter (fst s) \<le> ca_next_ticket_counter (fst s')"
  using assms(2,1)
proof (induction rule: cs_step_cases)
  case (alloc h i k r e p res)
  then show ?case
    by (cases res) (auto dest: allocate_slot_Err elim!: allocate_slot_OkE)
next
  case (close t res)
  then show ?case using close_next by fastforce
next
  case (revoke t res)
  then show ?case using revoke_shape by fastforce
qed (auto simp: retire_def)

lemma cs_step_holds:
  assumes "ca_inv (fst s)" "cs_step s s'" "holds_ticket (fst s') j t" "t < ca_next_ticket_counter (fst s)"
  shows "holds_ticket (fst s) j t \<and> (se_holder_open (ca_slots (fst s') ! j) \<longrightarrow> se_holder_open (ca_slots (fst s) ! j))
    \<and> (se_admission_cut (ca_slots (fst s) ! j) \<longrightarrow> se_admission_cut (ca_slots (fst s') ! j))"
  using assms(2,1,3,4)
proof (induction rule: cs_step_cases)
  case (alloc h i k r e p res)
  then show ?case using alloc_holds by metis
next
  case (close u res)
  then show ?case using close_holds by metis
next
  case (revoke u res)
  then obtain P where "fst s' = (fst s)\<lparr>ca_slots := cut_where P (ca_slots (fst s))\<rparr>"
    using revoke_shape by metis
  then show ?case using cut_where_holds [of "fst s'" P "fst s" j t] revoke by simp
next
  case retire
  then show ?case using cut_where_holds [of "fst s'" _ "fst s" j t] by (simp add: retire_eq)
qed auto

lemma cs_step_live:
  assumes "ca_inv (fst s)" "cs_step s s'" "ticket_live (fst s') t"
  shows "ticket_live (fst s) t \<or> ca_next_ticket_counter (fst s) \<le> t"
  using cs_step_holds [OF assms(1,2)] assms(3) by (fastforce simp: ticket_live_def not_le)

text \<open>Tickets are an identifier source: a ticket once closed is never valid again.\<close>

interpretation tickets: id_source "\<lambda>s. ca_inv (fst s)" cs_step "\<lambda>s. ticket_live (fst s)"
  "\<lambda>s. ca_next_ticket_counter (fst s)"
  by unfold_locales (auto dest: cs_step_inv cs_step_next cs_step_live)

text \<open>An admission cut is never undone while the slot carries its ticket.\<close>

definition ticket_cut :: "cell_authority \<Rightarrow> u64 \<Rightarrow> bool" where
  "ticket_cut a t \<longleftrightarrow> t < ca_next_ticket_counter a \<and> (\<forall>i. holds_ticket a i t \<longrightarrow> se_admission_cut (ca_slots a ! i))"

lemma ticket_cut_step: "ca_inv (fst s) \<Longrightarrow> cs_step s s' \<Longrightarrow> ticket_cut (fst s) t \<Longrightarrow> ticket_cut (fst s') t"
  using cs_step_holds [of s s' _ t] cs_step_next [of s s'] by (auto simp: ticket_cut_def)

lemma ticket_cut_steps: "cs_step\<^sup>*\<^sup>* s s' \<Longrightarrow> ca_inv (fst s) \<Longrightarrow> ticket_cut (fst s) t \<Longrightarrow> ticket_cut (fst s') t"
proof (induction rule: rtranclp_induct)
  case (step u v)
  then show ?case using ticket_cut_step [OF tickets.inv_steps [OF step.hyps(1)] step.hyps(2)] by simp
qed simp

lemma ticket_cut_live:
  assumes "ticket_cut a t" "live_slot_index a t = Ok i"
  shows "se_admission_cut (ca_slots a ! i)"
  using assms(1) live_slot_index_OkD [OF assms(2)] by (simp add: ticket_cut_def holds_ticket_def)

lemma ticket_cut_verify: "ticket_cut a t \<Longrightarrow> verify_ticket a t \<noteq> Ok s"
  using ticket_cut_live [of a t] by (auto simp: verify_ticket_def Let_def split: sum.split_asm if_split_asm)

lemma ticket_cut_derive:
  assumes "ticket_cut a t" "allocate_slot h i k r e (Some t) a = (res, a')"
  shows "\<exists>st. res = Err st \<and> a' = a"
proof (cases res)
  case (Inl st)
  then show ?thesis using assms(2) allocate_slot_Err by blast
next
  case (Inr tick)
  with assms(2) have "allocate_slot h i k r e (Some t) a = (Ok tick, a')" by simp
  then have False
  proof (rule allocate_slot_OkE, goal_cases)
    case (1 lp depth idx s)
    then obtain q where q: "lp = Some q" "live_slot_index a t = Ok q"
      by (auto simp: lineage_of_def split: sum.split_asm)
    have "se_admission_cut (ca_slots a ! q)" using assms(1) q(2) by (rule ticket_cut_live)
    then show False using derive_depth_OkD(1) 1(4) q(1) by blast
  qed
  then show ?thesis ..
qed

lemma ticket_cut_park: "ticket_cut a t \<Longrightarrow> \<exists>st. cspace_park_file t r a fs = (Err st, fs)"
  using ticket_cut_live [of a t] by (auto simp: cspace_park_file_def Let_def split: sum.split)

lemma revoke_cuts_subtree:
  assumes inv: "ca_inv a" and k: "live_slot_index a t = Ok k"
    and i: "i < length (ca_slots a)" "in_subtree (ca_slots a) k i"
    and r: "revoke_ticket t a = Some (res, a')"
  shows "ticket_cut a' (se_ticket (ca_slots a ! i))"
proof -
  have use: "se_in_use (ca_slots a ! i)"
    using i live_slot_index_OkD [OF k] by (auto simp: in_subtree_def)
  have a': "a' = a\<lparr>ca_slots := cut_where (in_subtree (ca_slots a) k) (ca_slots a)\<rparr>"
    using revoke_ticket_Ok [OF inv k] r by simp
  note T = tickets_okD [OF ca_invD(3) [OF inv]]
  have "j = i" if "holds_ticket a' j (se_ticket (ca_slots a ! i))" for j
    using T(3) [OF i(1) use, of j] that by (auto simp: holds_ticket_def a' cut_where_sel)
  moreover have "se_admission_cut (ca_slots a' ! i)" using i by (simp add: a' cut_where_sel)
  ultimately show ?thesis
    using T(2) [OF i(1) use] unfolding ticket_cut_def by (auto simp: a')
qed

text \<open>A run after retirement stays retired.\<close>

lemma close_revoking: "close_ticket t a fs = Some (res, a', fs') \<Longrightarrow> ca_revoking a' = ca_revoking a"
  by (auto simp: close_ticket_def Let_def split: sum.split_asm option.split_asm)

lemma revoke_revoking: "revoke_ticket t a = Some (res, a') \<Longrightarrow> ca_revoking a' = ca_revoking a"
  by (auto simp: revoke_ticket_def Let_def split: sum.split_asm option.split_asm)

lemma cs_step_revoking: "cs_step s s' \<Longrightarrow> ca_revoking (fst s) \<Longrightarrow> ca_revoking (fst s')"
proof (induction rule: cs_step_cases)
  case (alloc h i k r e p res)
  then show ?case by (simp add: allocate_slot_def allocate_checks_def)
next
  case (close t res)
  then show ?case using close_revoking by blast
next
  case (revoke t res)
  then show ?case using revoke_revoking by blast
qed (auto simp: retire_def)

lemma cs_steps_revoking: "cs_step\<^sup>*\<^sup>* s s' \<Longrightarrow> ca_revoking (fst s) \<Longrightarrow> ca_revoking (fst s')"
  by (induction rule: rtranclp_induct) (auto dest: cs_step_revoking)

lemma revoking_refuses:
  assumes "ca_inv a" "ca_revoking a"
  shows "verify_ticket a t \<noteq> Ok s" "allocate_slot h i k r e p a = (Err AdmissionCut, a)"
proof -
  have "se_admission_cut (ca_slots a ! i)" if "live_slot_index a t = Ok i" for i
    using assms live_slot_index_OkD [OF that] by (simp add: ca_inv_def list_all_length)
  then show "verify_ticket a t \<noteq> Ok s"
    by (auto simp: verify_ticket_def Let_def split: sum.split_asm if_split_asm)
  show "allocate_slot h i k r e p a = (Err AdmissionCut, a)"
    using assms(2) by (simp add: allocate_slot_def allocate_checks_def)
qed

text \<open>
  Nothing leaks: the deepest slot in use has no child, so with every holder closed no slot is in use.
\<close>

lemma no_leak:
  assumes inv: "ca_inv a" "\<not> ca_revoking a" and closed: "\<And>i. i < length (ca_slots a) \<Longrightarrow> \<not> se_holder_open (ca_slots a ! i)"
    and i: "i < length (ca_slots a)"
  shows "\<not> se_in_use (ca_slots a ! i)"
proof
  assume "se_in_use (ca_slots a ! i)"
  then have "\<exists>j. (j < length (ca_slots a) \<and> se_in_use (ca_slots a ! j))
      \<and> (\<forall>k. k < length (ca_slots a) \<and> se_in_use (ca_slots a ! k) \<longrightarrow> se_depth (ca_slots a ! k) \<le> se_depth (ca_slots a ! j))"
    using i lineage_okD(3) [OF ca_invD(2) [OF inv(1)]]
    by (intro ex_has_greatest_nat [where k = i and b = "Suc MAX_LINEAGE_DEPTH"]) (auto simp: less_Suc_eq_le)
  then obtain j where j: "j < length (ca_slots a)" "se_in_use (ca_slots a ! j)"
    "\<And>k. k < length (ca_slots a) \<Longrightarrow> se_in_use (ca_slots a ! k) \<Longrightarrow> se_depth (ca_slots a ! k) \<le> se_depth (ca_slots a ! j)"
    by blast
  have "referenced (ca_slots a ! j)" using inv j(1) by (simp add: ca_inv_def list_all_length)
  then have "0 < child_total (ca_slots a) j"
    using j closed lineage_okD(4) [OF ca_invD(2) [OF inv(1)] j(1)] by (simp add: referenced_def)
  then obtain k where k: "k < length (ca_slots a)" "se_lineage_parent (ca_slots a ! k) = Some j"
    by (auto simp: child_total_def count_if_def filter_empty_conv in_set_conv_nth)
  have "se_in_use (ca_slots a ! k)" using lineage_okD(1) [OF ca_invD(2) [OF inv(1)] k(1)] k(2) by auto
  moreover have "se_depth (ca_slots a ! k) = se_depth (ca_slots a ! j) + 1"
    using lineage_okD(2) [OF ca_invD(2) [OF inv(1)] k] by (simp add: edge_ok_def)
  ultimately show False using j(3) [OF k(1)] by simp
qed

end
