(* ===== verification/Authority_Table.thy ===== *)
theory Authority_Table
  imports CSpace_Revoke
begin

text \<open>
  The table of published Cell authorities and the two control syscalls over it (the second half of
  \<open>kernel/src/cell/cspace.rs\<close>).  Rows are kept in key order, so \<open>binary_search_by_key\<close> is the ordered
  lookup.  Heap allocation is a parameter: \<open>mem_ok\<close> tells whether the slot arena can be allocated, and
  \<open>grow n\<close> is the capacity \<open>Vec::try_reserve\<close> provides when it needs room for \<open>n\<close> rows (at least
  \<open>n\<close>, see \<open>grows\<close>) or \<open>None\<close> when memory is exhausted.  A control syscall returns \<open>None\<close> where
  the kernel would panic or not return.
\<close>

section \<open>Table, reservations and retirement\<close>

type_synonym authority_key = "u64 \<times> u64"

record authority_table =
  at_rows :: "(authority_key, cell_authority) btree"
  at_reservations :: usize
  at_capacity :: usize

definition table_get :: "authority_table \<Rightarrow> authority_key \<Rightarrow> cell_authority option" where
  "table_get t key = bt_get (at_rows t) key"

text \<open>Writing back through the reference \<open>get_mut\<close> returns.\<close>

definition table_set :: "authority_key \<Rightarrow> cell_authority \<Rightarrow> authority_table \<Rightarrow> authority_table" where
  "table_set key a t = t\<lparr>at_rows := bt_insert key a (at_rows t)\<rparr>"

definition reserve ::
  "bool \<Rightarrow> (nat \<Rightarrow> nat option) \<Rightarrow> cell_id \<Rightarrow> u64 \<Rightarrow> capset \<Rightarrow> authority_table
   \<Rightarrow> (vi_error + cell_authority) \<times> authority_table" where
  "reserve mem_ok grow cell generation ceiling t =
     (case authority_try_new mem_ok cell generation ceiling of
        Err e \<Rightarrow> (Err e, t)
      | Ok authority \<Rightarrow>
          let additional = at_reservations t + 1;
              needed = length (at_rows t) + additional
          in
          (case (if needed \<le> at_capacity t then Some (at_capacity t) else grow needed) of
             None \<Rightarrow> (Err OutOfMemory, t)
           | Some capacity \<Rightarrow>
               (Ok authority, t\<lparr>at_capacity := capacity, at_reservations := at_reservations t + 1\<rparr>)))"

text \<open>\<open>commit\<close> consumes the reservation of \<open>authority\<close>; its \<open>assert!\<close> failing is \<open>None\<close>.\<close>

definition commit :: "cell_authority \<Rightarrow> authority_table \<Rightarrow> authority_table option" where
  "commit authority t =
     (if \<not> (at_reservations t \<noteq> 0 \<and> length (at_rows t) < at_capacity t) then None
      else
        let t = t\<lparr>at_reservations := at_reservations t - 1\<rparr>;
            key = (ca_cell_id authority, ca_generation authority)
        in
        Some (if bt_contains (at_rows t) key then t else table_set key authority t))"

text \<open>The \<open>Drop\<close> of an uncommitted reservation; a counter underflow is \<open>None\<close>.\<close>

definition drop_authority_reservation :: "authority_table \<Rightarrow> authority_table option" where
  "drop_authority_reservation t =
     (if at_reservations t = 0 then None else Some (t\<lparr>at_reservations := at_reservations t - 1\<rparr>))"

definition register_cell_authority ::
  "bool \<Rightarrow> (nat \<Rightarrow> nat option) \<Rightarrow> cell_id \<Rightarrow> u64 \<Rightarrow> capset \<Rightarrow> authority_table
   \<Rightarrow> (bool \<times> authority_table) option" where
  "register_cell_authority mem_ok grow cell_id generation ceiling t =
     (if cell_id = 0 \<or> unat cell_id \<ge> MAX_CELLS then Some (False, t)
      else if table_get t (cell_id, generation) \<noteq> None then Some (True, t)
      else case reserve mem_ok grow cell_id generation ceiling t of
        (Err _, t') \<Rightarrow> Some (False, t')
      | (Ok reservation, t') \<Rightarrow> map_option (\<lambda>t''. (True, t'')) (commit reservation t'))"

definition retire_cell_authority :: "cell_id \<Rightarrow> u64 \<Rightarrow> authority_table \<Rightarrow> authority_table" where
  "retire_cell_authority cell_id generation t =
     (case table_get t (cell_id, generation) of
        Some auth \<Rightarrow> table_set (cell_id, generation) (retire auth) t
      | None \<Rightarrow> t)"

section \<open>Derivation requests\<close>

text \<open>
  The expiry the child gets: \<open>present\<close> says whether the request carries an expiry tick.
\<close>

definition child_expiry :: "bool \<Rightarrow> u64 \<Rightarrow> u64 option \<Rightarrow> control_status + u64 option" where
  "child_expiry present tick parent_expiry =
     (if present then
        (case parent_expiry of
           Some pe \<Rightarrow> if tick > pe then Err Denied else Ok (Some tick)
         | None \<Rightarrow> Ok (Some tick))
      else if parent_expiry \<noteq> None then Err Denied
      else Ok None)"

definition handle_derive ::
  "cell_id \<Rightarrow> u64 \<Rightarrow> handle_control_request \<Rightarrow> cell_authority \<Rightarrow> control_result_header \<times> cell_authority" where
  "handle_derive cell_id generation req auth =
     (case verify_ticket auth (hcr_ticket req) of
        Err status \<Rightarrow> (header_new status (hcr_ticket req) 32 0, auth)
      | Ok slot \<Rightarrow>
          if se_kind slot = CSpaceAuthority \<and> hcr_rights req AND NOT 0x1FF \<noteq> 0
          then (header_new Invalid (hcr_ticket req) 32 0, auth)
          else if hcr_rights req AND NOT (se_rights slot) \<noteq> 0
          then (header_new Denied (hcr_ticket req) 32 0, auth)
          else
            (case child_expiry (hcr_expiry_present req = 1) (hcr_expiry_tick req) (se_expiry slot) of
               Err status \<Rightarrow> (header_new status (hcr_ticket req) 32 0, auth)
             | Ok expiry \<Rightarrow>
                 (case allocate_slot (Cell (hcr_destination_cell req) (hcr_destination_generation req))
                         (Cell cell_id generation) (se_kind slot) (hcr_rights req) expiry
                         (Some (hcr_ticket req)) auth of
                    (Ok new_ticket, auth') \<Rightarrow> (header_new Success new_ticket 32 1, auth')
                  | (Err status, auth') \<Rightarrow> (header_new status (hcr_ticket req) 32 0, auth'))))"

definition cspace_derive ::
  "cell_id \<Rightarrow> u64 \<Rightarrow> cspace_request \<Rightarrow> cell_authority \<Rightarrow> control_result_header \<times> cell_authority" where
  "cspace_derive cell_id generation req auth =
     (if csr_mmio_mask req \<noteq> 0 \<or> csr_block_region_mask req \<noteq> 0
      then (header_new Invalid (csr_parent_ticket req) 32 0, auth)
      else case verify_ticket auth (csr_parent_ticket req) of
        Err status \<Rightarrow> (header_new status (csr_parent_ticket req) 32 0, auth)
      | Ok slot \<Rightarrow>
          if se_kind slot \<noteq> CSpaceAuthority
          then (header_new WrongType (csr_parent_ticket req) 32 0, auth)
          else
            let requested_rights = ucast (csr_class_bits req) in
            if requested_rights AND NOT (se_rights slot) \<noteq> 0
            then (header_new Denied (csr_parent_ticket req) 32 0, auth)
            else
              (case child_expiry (csr_absolute_expiry_tick req > 0) (csr_absolute_expiry_tick req)
                      (se_expiry slot) of
                 Err status \<Rightarrow> (header_new status (csr_parent_ticket req) 32 0, auth)
               | Ok expiry \<Rightarrow>
                   (case allocate_slot (Cell (csr_target_cell req) (csr_target_generation req))
                           (Cell cell_id generation) CSpaceAuthority requested_rights expiry
                           (Some (csr_parent_ticket req)) auth of
                      (Ok new_ticket, auth') \<Rightarrow> (header_new Success new_ticket 32 1, auth')
                    | (Err status, auth') \<Rightarrow> (header_new status (csr_parent_ticket req) 32 0, auth'))))"

section \<open>Dispatch\<close>

text \<open>The close, revoke and query arms, shared by the two syscalls.\<close>

definition close_arm ::
  "u64 \<Rightarrow> cell_authority \<Rightarrow> 'f cspace_files
   \<Rightarrow> (control_result_header \<times> cell_authority \<times> 'f cspace_files) option" where
  "close_arm ticket auth fs =
     (case close_ticket ticket auth fs of
        None \<Rightarrow> None
      | Some (Ok _, auth', fs') \<Rightarrow> Some (header_new Success ticket 32 0, auth', fs')
      | Some (Err status, auth', fs') \<Rightarrow> Some (header_new status ticket 32 0, auth', fs'))"

definition revoke_arm :: "u64 \<Rightarrow> cell_authority \<Rightarrow> (control_result_header \<times> cell_authority) option" where
  "revoke_arm ticket auth =
     (case revoke_ticket ticket auth of
        None \<Rightarrow> None
      | Some (Ok query_ticket, auth') \<Rightarrow> Some (header_new AdmissionCut query_ticket 32 0, auth')
      | Some (Err status, auth') \<Rightarrow> Some (header_new status ticket 32 0, auth'))"

definition query_arm :: "u64 \<Rightarrow> cell_authority \<Rightarrow> control_result_header" where
  "query_arm ticket auth =
     (case query_revoke auth ticket of
        Ok status \<Rightarrow> header_new status ticket 32 0
      | Err status \<Rightarrow> header_new status ticket 32 0)"

definition act ::
  "u32 \<Rightarrow> u64 \<Rightarrow> (cell_authority \<Rightarrow> control_result_header \<times> cell_authority)
   \<Rightarrow> cell_authority \<Rightarrow> 'f cspace_files
   \<Rightarrow> (control_result_header \<times> cell_authority \<times> 'f cspace_files) option" where
  "act action ticket derive auth fs =
     (if ca_revoking auth \<and> action \<noteq> 0 \<and> action \<noteq> 3
      then Some (header_new AdmissionCut 0 32 0, auth, fs)
      else if action = 0 then close_arm ticket auth fs
      else if action = 1 then (let (h, auth') = derive auth in Some (h, auth', fs))
      else if action = 2 then map_option (\<lambda>(h, auth'). (h, auth', fs)) (revoke_arm ticket auth)
      else if action = 3 then Some (query_arm ticket auth, auth, fs)
      else Some (header_new Invalid ticket 32 0, auth, fs))"

definition on_authority ::
  "authority_key \<Rightarrow> (cell_authority \<Rightarrow> 'f cspace_files
     \<Rightarrow> (control_result_header \<times> cell_authority \<times> 'f cspace_files) option)
   \<Rightarrow> authority_table \<Rightarrow> 'f cspace_files
   \<Rightarrow> (control_result_header \<times> authority_table \<times> 'f cspace_files) option" where
  "on_authority key f t fs =
     (case table_get t key of
        None \<Rightarrow> Some (header_new Stale 0 32 0, t, fs)
      | Some auth \<Rightarrow>
          (case f auth fs of
             None \<Rightarrow> None
           | Some (h, auth', fs') \<Rightarrow> Some (h, table_set key auth' t, fs')))"

definition dispatch_handle_control ::
  "cell_id \<Rightarrow> u64 \<Rightarrow> bytes \<Rightarrow> authority_table \<Rightarrow> 'f cspace_files
   \<Rightarrow> (control_result_header \<times> authority_table \<times> 'f cspace_files) option" where
  "dispatch_handle_control cell_id generation req_buf t fs =
     (case handle_request_decode req_buf of
        Err status \<Rightarrow> Some (header_new status 0 32 0, t, fs)
      | Ok req \<Rightarrow>
          on_authority (cell_id, generation)
            (act (hcr_action req) (hcr_ticket req) (handle_derive cell_id generation req)) t fs)"

definition dispatch_cspace_control ::
  "cell_id \<Rightarrow> u64 \<Rightarrow> bytes \<Rightarrow> authority_table \<Rightarrow> 'f cspace_files
   \<Rightarrow> (control_result_header \<times> authority_table \<times> 'f cspace_files) option" where
  "dispatch_cspace_control cell_id generation req_buf t fs =
     (case cspace_request_decode req_buf of
        Err status \<Rightarrow> Some (header_new status 0 32 0, t, fs)
      | Ok req \<Rightarrow>
          on_authority (cell_id, generation)
            (act (csr_action req) (csr_parent_ticket req) (cspace_derive cell_id generation req)) t fs)"

section \<open>Invariant\<close>

text \<open>
  The table invariant: rows in order, each authority filed under its own key and well formed, and
  room for every outstanding reservation.
\<close>

definition at_inv :: "authority_table \<Rightarrow> bool" where
  "at_inv t \<longleftrightarrow> bt_wf (at_rows t) \<and> length (at_rows t) + at_reservations t \<le> at_capacity t
     \<and> (\<forall>key a. table_get t key = Some a \<longrightarrow> ca_inv a \<and> key = (ca_cell_id a, ca_generation a))"

text \<open>What \<open>Vec::try_reserve\<close> promises about the capacity it leaves.\<close>

definition grows :: "(nat \<Rightarrow> nat option) \<Rightarrow> bool" where
  "grows grow \<longleftrightarrow> (\<forall>n c. grow n = Some c \<longrightarrow> n \<le> c)"

lemma try_new_eq: "authority_try_new ok c g caps = (if ok then Ok (authority_new c g caps) else Err OutOfMemory)"
  by (simp add: authority_try_new_def authority_new_def)

lemma table_get_set [simp]: "table_get (table_set key a t) = (table_get t)(key \<mapsto> a)"
  by (simp add: table_get_def table_set_def fun_eq_iff)

lemma table_get_counters [simp]:
  "table_get (t\<lparr>at_reservations := r\<rparr>) = table_get t" "table_get (t\<lparr>at_capacity := c\<rparr>) = table_get t"
  by (simp_all add: table_get_def fun_eq_iff)

lemma at_invD:
  assumes "at_inv t"
  shows "bt_wf (at_rows t)" "length (at_rows t) + at_reservations t \<le> at_capacity t"
    "table_get t key = Some a \<Longrightarrow> ca_inv a" "table_get t key = Some a \<Longrightarrow> key = (ca_cell_id a, ca_generation a)"
  using assms unfolding at_inv_def by blast+

lemma at_invI:
  assumes "bt_wf (at_rows t)" "length (at_rows t) + at_reservations t \<le> at_capacity t"
    "\<And>key a. table_get t key = Some a \<Longrightarrow> ca_inv a \<and> key = (ca_cell_id a, ca_generation a)"
  shows "at_inv t"
  using assms unfolding at_inv_def by blast

lemma at_inv_set:
  assumes inv: "at_inv t" and old: "table_get t key = Some b"
    and a: "ca_inv a" "key = (ca_cell_id a, ca_generation a)"
  shows "at_inv (table_set key a t)"
proof -
  have "length (bt_insert key a (at_rows t)) = length (at_rows t)"
    using at_invD(1) [OF inv] old by (simp add: length_bt_insert bt_contains_def table_get_def)
  moreover have "ca_inv b' \<and> k = (ca_cell_id b', ca_generation b')" if "table_get (table_set key a t) k = Some b'" for k b'
    using that a at_invD(3,4) [OF inv] by (auto split: if_split_asm)
  ultimately show ?thesis
    using at_invD(1,2) [OF inv] by (intro at_invI) (simp_all add: table_set_def)
qed

text \<open>Operations keep the identity of the authority they run on.\<close>

definition same_id :: "cell_authority \<Rightarrow> cell_authority \<Rightarrow> bool" where
  "same_id a b \<longleftrightarrow> ca_cell_id a = ca_cell_id b \<and> ca_generation a = ca_generation b"

lemma same_id_allocate: "allocate_slot h i k r e p a = (res, a') \<Longrightarrow> same_id a' a"
  by (auto simp: allocate_slot_def same_id_def Let_def split: sum.split_asm)

lemma same_id_close: "close_ticket t a fs = Some (res, a', fs') \<Longrightarrow> same_id a' a"
  by (auto simp: close_ticket_def same_id_def Let_def split: sum.split_asm option.split_asm)

lemma same_id_revoke: "revoke_ticket t a = Some (res, a') \<Longrightarrow> same_id a' a"
  by (auto simp: revoke_ticket_def same_id_def Let_def split: sum.split_asm option.split_asm)

text \<open>A derivation request allocates at most one slot and changes nothing else.\<close>

definition alloc_step :: "cell_authority \<Rightarrow> cell_authority \<Rightarrow> bool" where
  "alloc_step a a' \<longleftrightarrow> a' = a \<or> (\<exists>ho i k r e p res. allocate_slot ho i k r e p a = (res, a'))"

lemma alloc_stepI: "allocate_slot ho i k r e p a = (res, a') \<Longrightarrow> alloc_step a a'"
  by (auto simp: alloc_step_def)

lemma alloc_step_refl [simp]: "alloc_step a a"
  by (simp add: alloc_step_def)

lemma alloc_step_inv: "alloc_step a a' \<Longrightarrow> ca_inv a \<Longrightarrow> ca_inv a' \<and> same_id a' a"
  unfolding alloc_step_def
proof (elim disjE exE)
  fix ho i k r e p res assume "allocate_slot ho i k r e p a = (res, a')" "ca_inv a"
  then show "ca_inv a' \<and> same_id a' a"
    using ca_inv_allocate_slot [of a ho i k r e p] same_id_allocate by fastforce
qed (simp add: same_id_def)

lemma handle_derive_authority: "handle_derive c g req a = (h, a') \<Longrightarrow> alloc_step a a'"
  by (auto simp: handle_derive_def intro: alloc_stepI split: sum.split_asm if_split_asm prod.split_asm)

lemma cspace_derive_authority: "cspace_derive c g req a = (h, a') \<Longrightarrow> alloc_step a a'"
  by (auto simp: cspace_derive_def Let_def intro: alloc_stepI split: sum.split_asm if_split_asm prod.split_asm)

text \<open>Files of other authorities are left alone.\<close>

definition other_files_same :: "authority_key \<Rightarrow> 'f cspace_files \<Rightarrow> 'f cspace_files \<Rightarrow> bool" where
  "other_files_same key fs fs' \<longleftrightarrow> (\<forall>c g t. (c, g) \<noteq> key \<longrightarrow> bt_get fs' (c, g, t) = bt_get fs (c, g, t))"

lemma close_other_files:
  "close_ticket t a fs = Some (res, a', fs') \<Longrightarrow> other_files_same (ca_cell_id a, ca_generation a) fs fs'"
  by (auto simp: close_ticket_def other_files_same_def Let_def remove_ticket_file_def ticket_key_def
      split: sum.split_asm option.split_asm)

lemma act_correct:
  assumes inv: "ca_inv a" and d: "\<And>h a'. derive a = (h, a') \<Longrightarrow> alloc_step a a'"
  shows "\<exists>h a' fs'. act action ticket derive a fs = Some (h, a', fs') \<and> ca_inv a' \<and> same_id a' a
    \<and> other_files_same (ca_cell_id a, ca_generation a) fs fs'"
proof -
  have keep: "same_id a a" "other_files_same key fs fs" for key by (simp_all add: same_id_def other_files_same_def)
  have "\<exists>h a' fs'. close_arm ticket a fs = Some (h, a', fs') \<and> ca_inv a' \<and> same_id a' a
      \<and> other_files_same (ca_cell_id a, ca_generation a) fs fs'"
  proof -
    obtain res a' fs' where c: "close_ticket ticket a fs = Some (res, a', fs')" "ca_inv a'"
      using ca_inv_close_ticket [OF inv] by blast
    then show ?thesis
      using same_id_close [OF c(1)] close_other_files [OF c(1)] by (cases res) (simp_all add: close_arm_def)
  qed
  moreover have "\<exists>h a'. revoke_arm ticket a = Some (h, a') \<and> ca_inv a' \<and> same_id a' a"
  proof -
    obtain res a' where c: "revoke_ticket ticket a = Some (res, a')" "ca_inv a'"
      using ca_inv_revoke_ticket [OF inv] by blast
    then show ?thesis using same_id_revoke [OF c(1)] by (cases res) (simp_all add: revoke_arm_def)
  qed
  moreover have "\<exists>h a'. derive a = (h, a') \<and> ca_inv a' \<and> same_id a' a"
    using d alloc_step_inv [OF _ inv] by (cases "derive a") blast
  ultimately show ?thesis
    using inv keep unfolding act_def by (auto simp: Let_def)
qed

lemma on_authority_correct:
  assumes inv: "at_inv t"
    and f: "\<And>a. ca_inv a \<Longrightarrow> \<exists>h a' fs'. f a fs = Some (h, a', fs') \<and> ca_inv a' \<and> same_id a' a
      \<and> other_files_same (ca_cell_id a, ca_generation a) fs fs'"
  shows "\<exists>h t' fs'. on_authority key f t fs = Some (h, t', fs') \<and> at_inv t'
    \<and> (\<forall>k. k \<noteq> key \<longrightarrow> table_get t' k = table_get t k) \<and> other_files_same key fs fs'"
proof (cases "table_get t key")
  case None
  then show ?thesis using inv by (simp add: on_authority_def other_files_same_def)
next
  case (Some a)
  note a = at_invD(3,4) [OF inv Some]
  with f obtain h a' fs' where r: "f a fs = Some (h, a', fs')" "ca_inv a'" "same_id a' a"
    "other_files_same (ca_cell_id a, ca_generation a) fs fs'" by blast
  have "at_inv (table_set key a' t)"
    by (rule at_inv_set [OF inv Some r(2)]) (use r(3) a(2) in \<open>simp add: same_id_def\<close>)
  then show ?thesis using r a Some by (simp add: on_authority_def)
qed

text \<open>
  A control syscall always returns, keeps the table well formed, and touches only the caller's own
  authority and files.
\<close>

lemma dispatch_handle_correct:
  assumes "at_inv t"
  shows "\<exists>h t' fs'. dispatch_handle_control c g buf t fs = Some (h, t', fs') \<and> at_inv t'
    \<and> (\<forall>k. k \<noteq> (c, g) \<longrightarrow> table_get t' k = table_get t k) \<and> other_files_same (c, g) fs fs'"
proof (cases "handle_request_decode buf")
  case (Inl st)
  then show ?thesis using assms by (simp add: dispatch_handle_control_def other_files_same_def)
next
  case (Inr req)
  show ?thesis
    unfolding dispatch_handle_control_def Inr sum.case
    by (rule on_authority_correct [OF assms]) (rule act_correct, assumption, rule handle_derive_authority)
qed

lemma dispatch_cspace_correct:
  assumes "at_inv t"
  shows "\<exists>h t' fs'. dispatch_cspace_control c g buf t fs = Some (h, t', fs') \<and> at_inv t'
    \<and> (\<forall>k. k \<noteq> (c, g) \<longrightarrow> table_get t' k = table_get t k) \<and> other_files_same (c, g) fs fs'"
proof (cases "cspace_request_decode buf")
  case (Inl st)
  then show ?thesis using assms by (simp add: dispatch_cspace_control_def other_files_same_def)
next
  case (Inr req)
  show ?thesis
    unfolding dispatch_cspace_control_def Inr sum.case
    by (rule on_authority_correct [OF assms]) (rule act_correct, assumption, rule cspace_derive_authority)
qed

section \<open>Publication\<close>

lemma reserve_Ok:
  assumes "at_inv t" "grows grow" "reserve mem_ok grow c g caps t = (Ok a, t')"
  shows "at_inv t'" "a = authority_new c g caps" "at_rows t' = at_rows t"
    "at_reservations t' = at_reservations t + 1"
proof -
  let ?need = "length (at_rows t) + (at_reservations t + 1)"
  obtain cap where cap: "(if ?need \<le> at_capacity t then Some (at_capacity t) else grow ?need) = Some cap"
    using assms(3) by (simp add: reserve_def try_new_eq Let_def split: if_split_asm option.split_asm)
  then have "t' = t\<lparr>at_capacity := cap, at_reservations := at_reservations t + 1\<rparr>" "a = authority_new c g caps"
    using assms(3) by (simp_all add: reserve_def try_new_eq Let_def split: if_split_asm)
  moreover have "?need \<le> cap" using cap assms(2) by (auto simp: grows_def split: if_split_asm)
  ultimately show "at_inv t'" "a = authority_new c g caps" "at_rows t' = at_rows t"
    "at_reservations t' = at_reservations t + 1"
    using assms(1) by (simp_all add: at_inv_def table_get_def)
qed

lemma reserve_Err: "reserve mem_ok grow c g caps t = (Err e, t') \<Longrightarrow> t' = t"
  by (auto simp: reserve_def Let_def split: sum.split_asm option.split_asm)

lemma commit_correct:
  assumes inv: "at_inv t" and r: "at_reservations t \<noteq> 0" and a: "ca_inv a"
  shows "\<exists>t'. commit a t = Some t' \<and> at_inv t' \<and> at_reservations t' = at_reservations t - 1
    \<and> (let key = (ca_cell_id a, ca_generation a) in
       table_get t' = (if table_get t key = None then (table_get t)(key \<mapsto> a) else table_get t))"
proof -
  let ?key = "(ca_cell_id a, ca_generation a)" and ?t = "t\<lparr>at_reservations := at_reservations t - 1\<rparr>"
  have room: "length (at_rows t) < at_capacity t" using at_invD(2) [OF inv] r by simp
  have get: "table_get ?t = table_get t" by simp
  have inv': "at_inv ?t"
    by (rule at_invI) (use at_invD [OF inv] r in auto)
  show ?thesis
  proof (cases "table_get t ?key")
    case None
    have "at_inv (table_set ?key a ?t)"
    proof (rule at_invI)
      show "length (at_rows (table_set ?key a ?t)) + at_reservations (table_set ?key a ?t) \<le> at_capacity (table_set ?key a ?t)"
        using at_invD(1,2) [OF inv] r None
        by (simp add: table_set_def length_bt_insert bt_contains_def table_get_def)
      show "ca_inv b \<and> k = (ca_cell_id b, ca_generation b)" if "table_get (table_set ?key a ?t) k = Some b" for k b
        using that a at_invD(3,4) [OF inv] by (auto simp: get split: if_split_asm)
    qed (use at_invD(1) [OF inv] in \<open>simp add: table_set_def\<close>)
    then show ?thesis
      using None room r get by (simp add: commit_def Let_def bt_contains_def table_get_def table_set_def fun_eq_iff)
  next
    case (Some b)
    then show ?thesis
      using room r get inv' by (simp add: commit_def Let_def bt_contains_def table_get_def fun_eq_iff)
  qed
qed

lemma register_correct:
  assumes inv: "at_inv t" and g: "grows grow"
  shows "\<exists>b t'. register_cell_authority mem_ok grow c gen caps t = Some (b, t') \<and> at_inv t'
    \<and> at_reservations t' = at_reservations t
    \<and> (b \<longrightarrow> table_get t' (c, gen) = Some (case table_get t (c, gen) of
          Some a \<Rightarrow> a | None \<Rightarrow> authority_new c gen caps))
    \<and> (\<forall>k. k \<noteq> (c, gen) \<longrightarrow> table_get t' k = table_get t k)"
proof (cases "c = 0 \<or> unat c \<ge> MAX_CELLS \<or> table_get t (c, gen) \<noteq> None")
  case True
  then show ?thesis using inv by (cases "table_get t (c, gen)") (auto simp: register_cell_authority_def)
next
  case False
  show ?thesis
  proof (cases "reserve mem_ok grow c gen caps t")
    case (Pair res t1)
    show ?thesis
    proof (cases res)
      case (Inl e)
      then have "t1 = t" using Pair reserve_Err by blast
      then show ?thesis using False Pair Inl inv by (auto simp: register_cell_authority_def)
    next
      case (Inr a)
      note R = reserve_Ok [OF inv g Pair [unfolded Inr]]
      have id: "ca_cell_id a = c" "ca_generation a = gen" by (simp_all add: R(2) authority_new_def)
      obtain t2 where t2: "commit a t1 = Some t2" "at_inv t2" "at_reservations t2 = at_reservations t1 - 1"
        "table_get t2 = (if table_get t1 (c, gen) = None then (table_get t1)((c, gen) \<mapsto> a) else table_get t1)"
        using commit_correct [OF R(1), of a] R(2,4) id by (auto simp: Let_def)
      have "table_get t1 = table_get t" using R(3) by (simp add: table_get_def fun_eq_iff)
      moreover have "register_cell_authority mem_ok grow c gen caps t = Some (True, t2)"
        using False Pair Inr t2(1) by (simp add: register_cell_authority_def)
      ultimately show ?thesis using False t2 R(2,4) by auto
    qed
  qed
qed

lemma at_inv_retire:
  assumes "at_inv t"
  shows "at_inv (retire_cell_authority c g t)"
proof (cases "table_get t (c, g)")
  case (Some a)
  note at_invD(3,4) [OF assms Some]
  then show ?thesis
    using Some at_inv_set [OF assms Some, of "retire a"] ca_inv_retire
    by (simp add: retire_cell_authority_def retire_def)
qed (use assms in \<open>simp add: retire_cell_authority_def\<close>)

section \<open>Derivation\<close>

text \<open>
  A derivation that reports success made one child of the named ticket, no stronger than it, in a slot
  that was free.  The whole new state is fixed but for the child's expiry: the parent counts one more
  child, every other slot and every other field of the authority is as before.
\<close>

definition derived_child ::
  "cell_authority \<Rightarrow> u64 \<Rightarrow> principal \<Rightarrow> principal \<Rightarrow> u32 \<Rightarrow> u64 \<Rightarrow> cell_authority \<Rightarrow> bool" where
  "derived_child a ticket holder issuer rights new_ticket a' \<longleftrightarrow>
     (\<exists>p idx expiry. live_slot_index a ticket = Ok p \<and> live_slot_index a' new_ticket = Ok idx
        \<and> p < length (ca_slots a) \<and> idx < length (ca_slots a) \<and> \<not> se_in_use (ca_slots a ! idx)
        \<and> new_ticket = ca_next_ticket_counter a
        \<and> \<not> se_admission_cut (ca_slots a ! p)
        \<and> subset_bits rights (se_rights (ca_slots a ! p))
        \<and> expiry_within expiry (se_expiry (ca_slots a ! p))
        \<and> a' = a\<lparr>ca_slots := ca_slots a', ca_next_ticket_counter := ca_next_ticket_counter a + 1\<rparr>
        \<and> length (ca_slots a') = length (ca_slots a)
        \<and> ca_slots a' ! idx =
             \<lparr>se_in_use = True, se_holder_open = True, se_child_count = 0,
              se_ticket = new_ticket, se_holder = holder, se_issuer = issuer,
              se_kind = se_kind (ca_slots a ! p), se_rights = rights, se_expiry = expiry,
              se_lineage_parent = Some p, se_depth = se_depth (ca_slots a ! p) + 1,
              se_admission_cut = False, se_quiesced = False\<rparr>
        \<and> ca_slots a' ! p = (ca_slots a ! p)\<lparr>se_child_count := se_child_count (ca_slots a ! p) + 1\<rparr>
        \<and> (\<forall>j < length (ca_slots a). j \<noteq> idx \<longrightarrow> j \<noteq> p \<longrightarrow> ca_slots a' ! j = ca_slots a ! j))"

lemma verify_ticket_OkD:
  assumes "verify_ticket a t = Ok slot"
  obtains p where "live_slot_index a t = Ok p" "slot = ca_slots a ! p" "\<not> se_admission_cut slot"
  using assms by (auto simp: verify_ticket_def Let_def split: sum.split_asm if_split_asm)

lemma child_expiry_within: "child_expiry present tick pe = Ok e \<Longrightarrow> expiry_within e pe"
  by (auto simp: child_expiry_def expiry_within_def expiry_exceeds_def split: if_split_asm option.splits)

lemma allocate_next_ticket:
  "allocate_slot h i k r e p a = (Ok n, a') \<Longrightarrow> ca_next_ticket_counter a' = ca_next_ticket_counter a + 1"
  by (auto simp: allocate_slot_def allocate_checks_def checked_add_def Let_def
      split: sum.split_asm option.split_asm if_split_asm)

lemma allocate_derived:
  assumes inv: "ca_inv a" and v: "verify_ticket a ticket = Ok slot"
    and r: "rights AND NOT (se_rights slot) = 0" and e: "expiry_within expiry (se_expiry slot)"
    and ok: "allocate_slot holder issuer (se_kind slot) rights expiry (Some ticket) a = (Ok n, a')"
  shows "derived_child a ticket holder issuer rights n a'"
proof -
  obtain p where p: "live_slot_index a ticket = Ok p" "slot = ca_slots a ! p" "\<not> se_admission_cut slot"
    using v by (rule verify_ticket_OkD)
  note live = live_slot_index_OkD [OF p(1)]
  from ok obtain lp depth idx s where *:
    "lineage_of a (Some ticket) = Ok lp" "derive_depth a lp rights expiry = Ok depth"
    "idx < length (ca_slots a)" "\<not> se_in_use (ca_slots a ! idx)" "n = ca_next_ticket_counter a"
    "s = \<lparr>se_in_use = True, se_holder_open = True, se_child_count = 0,
          se_ticket = n, se_holder = holder, se_issuer = issuer,
          se_kind = se_kind slot, se_rights = rights, se_expiry = expiry,
          se_lineage_parent = lp, se_depth = depth, se_admission_cut = False, se_quiesced = False\<rparr>"
    "a' = a\<lparr>ca_slots := publish_slot idx s (ca_slots a), ca_next_ticket_counter := ca_next_ticket_counter a'\<rparr>"
    by (rule allocate_slot_OkE)
  have lp: "lp = Some p" using *(1) p(1) by (simp add: lineage_of_def)
  have depth: "depth = se_depth (ca_slots a ! p) + 1"
    using *(2) by (auto simp: lp derive_depth_def Let_def split: if_split_asm)
  have neq: "p \<noteq> idx" using live(3) *(4) by blast
  have slots: "ca_slots a' = publish_slot idx s (ca_slots a)" by (subst *(7)) simp
  have par: "se_lineage_parent s = Some p" by (simp add: *(6) lp)
  have new: "ca_slots a' ! idx = s" using publish_slot_new [OF *(3)] neq by (simp add: slots par)
  have old: "ca_slots a' ! j = (ca_slots a ! j)\<lparr>se_child_count := se_child_count (ca_slots a ! j) + (if j = p then 1 else 0)\<rparr>"
    if "j < length (ca_slots a)" "j \<noteq> idx" for j
    using publish_slot_old [OF *(3) that, of s] by (simp add: slots par eq_commute)
  have "ca_inv a'" using ca_inv_allocate_slot [OF inv, of holder issuer "se_kind slot" rights expiry "Some ticket"] ok by simp
  then have idx: "live_slot_index a' n = Ok idx"
    using new *(3) by (simp add: live_slot_index_iff slots *(6))
  show ?thesis
    unfolding derived_child_def
  proof (intro exI conjI allI impI)
    show "a' = a\<lparr>ca_slots := ca_slots a', ca_next_ticket_counter := ca_next_ticket_counter a + 1\<rparr>"
      using *(7) allocate_next_ticket [OF ok] by (simp add: slots)
    show "ca_slots a' ! p = (ca_slots a ! p)\<lparr>se_child_count := se_child_count (ca_slots a ! p) + 1\<rparr>"
      using old [OF live(2) neq] by simp
    show "ca_slots a' ! j = ca_slots a ! j" if "j < length (ca_slots a)" "j \<noteq> idx" "j \<noteq> p" for j
      using old [OF that(1,2)] that(3) by simp
  qed (use p r e idx live *(3-5) new in \<open>simp_all add: *(6) lp depth slots subset_bits_def\<close>)
qed

lemma header_new_eq [simp]:
  "header_new s t r p = header_new s' t' r' p' \<longleftrightarrow> s = s' \<and> t = t' \<and> r = r' \<and> p = p'"
  by (simp add: header_new_def)

lemma verify_not_Success: "verify_ticket a t \<noteq> Err Success"
  by (auto simp: verify_ticket_def live_slot_index_def Let_def split: sum.split_asm option.split_asm if_split_asm)

lemma allocate_not_Success: "allocate_slot h i k r e p a \<noteq> (Err Success, a')"
  by (auto simp: allocate_slot_def allocate_checks_def lineage_of_def live_slot_index_def derive_depth_def Let_def
      split: sum.split_asm option.split_asm if_split_asm)

lemma child_expiry_not_Success: "child_expiry b t pe \<noteq> Err Success"
  by (auto simp: child_expiry_def split: if_split_asm option.split_asm)

lemma handle_derive_Success:
  assumes inv: "ca_inv a" and h: "handle_derive c g req a = (header_new Success n x y, a')"
  shows "derived_child a (hcr_ticket req) (Cell (hcr_destination_cell req) (hcr_destination_generation req))
    (Cell c g) (hcr_rights req) n a'"
proof -
  obtain slot where v: "verify_ticket a (hcr_ticket req) = Ok slot"
    using h verify_not_Success by (auto simp: handle_derive_def split: sum.split_asm)
  have r: "hcr_rights req AND NOT (se_rights slot) = 0"
    using h v by (simp add: handle_derive_def split: if_split_asm)
  obtain e where e: "child_expiry (hcr_expiry_present req = 1) (hcr_expiry_tick req) (se_expiry slot) = Ok e"
    using h v r child_expiry_not_Success by (auto simp: handle_derive_def split: if_split_asm sum.split_asm)
  have "allocate_slot (Cell (hcr_destination_cell req) (hcr_destination_generation req)) (Cell c g)
      (se_kind slot) (hcr_rights req) e (Some (hcr_ticket req)) a = (Ok n, a')"
    using h v r e allocate_not_Success
    by (auto simp: handle_derive_def split: if_split_asm sum.split_asm prod.split_asm)
  then show ?thesis by (rule allocate_derived [OF inv v r child_expiry_within [OF e]])
qed

lemma cspace_derive_Success:
  assumes inv: "ca_inv a" and h: "cspace_derive c g req a = (header_new Success n x y, a')"
  shows "derived_child a (csr_parent_ticket req) (Cell (csr_target_cell req) (csr_target_generation req))
    (Cell c g) (ucast (csr_class_bits req)) n a'
    \<and> (\<exists>slot. verify_ticket a (csr_parent_ticket req) = Ok slot \<and> se_kind slot = CSpaceAuthority)"
proof -
  have m: "\<not> (csr_mmio_mask req \<noteq> 0 \<or> csr_block_region_mask req \<noteq> 0)"
    using h by (auto simp: cspace_derive_def split: if_split_asm)
  obtain slot where v: "verify_ticket a (csr_parent_ticket req) = Ok slot"
    using h m verify_not_Success by (auto simp: cspace_derive_def split: sum.split_asm)
  have k: "se_kind slot = CSpaceAuthority"
    and r: "ucast (csr_class_bits req) AND NOT (se_rights slot) = 0"
    using h m v by (auto simp: cspace_derive_def Let_def split: if_split_asm)
  obtain e where e: "child_expiry (csr_absolute_expiry_tick req > 0) (csr_absolute_expiry_tick req)
      (se_expiry slot) = Ok e"
    using h m v k r child_expiry_not_Success by (auto simp: cspace_derive_def Let_def split: sum.split_asm)
  have "allocate_slot (Cell (csr_target_cell req) (csr_target_generation req)) (Cell c g)
      (se_kind slot) (ucast (csr_class_bits req)) e (Some (csr_parent_ticket req)) a = (Ok n, a')"
    using h m v k r e allocate_not_Success
    by (auto simp: cspace_derive_def Let_def split: sum.split_asm prod.split_asm)
  then show ?thesis using allocate_derived [OF inv v r child_expiry_within [OF e]] v k by blast
qed

lemma header_new_sel [simp]:
  "crh_status (header_new s t r p) = s" "crh_ticket (header_new s t r p) = t"
  by (simp_all add: header_new_def)

lemma handle_derive_header:
  assumes "handle_derive c g req a = (h, a')"
  shows "\<exists>x y. h = header_new (crh_status h) (crh_ticket h) x y"
  using assms by (fastforce simp: handle_derive_def split: sum.split_asm if_split_asm prod.split_asm)

lemma cspace_derive_header:
  assumes "cspace_derive c g req a = (h, a')"
  shows "\<exists>x y. h = header_new (crh_status h) (crh_ticket h) x y"
  using assms by (fastforce simp: cspace_derive_def Let_def split: sum.split_asm if_split_asm prod.split_asm)

lemma on_authority_act_derive:
  assumes t: "table_get t key = Some a" and r: "on_authority key (act 1 ticket derive) t fs = Some (h, t', fs')"
    and ok: "crh_status h = Success"
  shows "\<exists>a'. derive a = (h, a') \<and> t' = table_set key a' t \<and> fs' = fs"
  using assms by (auto simp: on_authority_def act_def Let_def split: if_split_asm prod.split_asm option.split_asm)

end
