(* ===== verification/File_Syscalls.thy ===== *)
theory File_Syscalls
  imports Authority_Table
begin

text \<open>
  The file-capability syscalls of \<open>kernel/src/task/syscall.rs\<close> (\<open>OpenCap\<close>, \<open>ReadCap\<close>, \<open>SeekCap\<close>,
  \<open>WriteCap\<close>, \<open>StatCap\<close>, \<open>TruncateCap\<close>, \<open>SyncCap\<close>, \<open>CloseCap\<close>).  Each file operation parks the file of
  a ticket, runs the operation on it with the authority table unlocked, and puts it back.  File
  objects implement the trait \<open>ViFile\<close>; its methods are the parameters gathered in \<open>file_ops\<close>.
  The copies from and to user memory are parameters too: \<open>user_in\<close> is the result of reading the
  caller's buffer, \<open>user_out\<close> tells whether bytes can be written to it.  \<open>mem_ok\<close> tells whether the
  kernel buffer of a read can be allocated.  A call is given as the composition of its locked sections
  with the file operation between them, that is, as it runs when no other call changes the authority table
  while it is unlocked.
\<close>

datatype syscall_error =
    SE_BrokenPipe | SE_InvalidDriverId | SE_InvalidCommand | SE_BufferTooSmall | SE_PermissionDenied
  | SE_FileNotFound | SE_TryAgain | SE_Unknown | SE_NotSupported | SE_InvalidInput | SE_OutOfMemory

datatype seek_from = SeekStart u64 | SeekEnd "64 word" | SeekCurrent "64 word"

record 'f file_ops =
  fo_read :: "'f \<Rightarrow> nat \<Rightarrow> (vi_error + bytes) \<times> 'f"
  fo_write :: "'f \<Rightarrow> bytes \<Rightarrow> (vi_error + nat) \<times> 'f"
  fo_seek :: "'f \<Rightarrow> seek_from \<Rightarrow> (vi_error + u64) \<times> 'f"
  fo_size :: "'f \<Rightarrow> (vi_error + u64) \<times> 'f"
  fo_truncate :: "'f \<Rightarrow> u64 \<Rightarrow> (vi_error + unit) \<times> 'f"
  fo_sync :: "'f \<Rightarrow> (vi_error + unit) \<times> 'f"

definition MAX_USER_BUF :: usize where "MAX_USER_BUF = 64 * 1024 * 1024"

definition validate_user_buf :: "u64 \<Rightarrow> u64 \<Rightarrow> nat \<Rightarrow> syscall_error + unit" where
  "validate_user_buf ptr len maxlen =
     (if ptr = 0 then Err SE_InvalidInput
      else if unat len > maxlen then Err SE_BufferTooSmall
      else if checked_add ptr len = None then Err SE_InvalidInput
      else Ok ())"

section \<open>Syscalls\<close>

text \<open>The caller's binding \<open>(cell_id, cell_generation)\<close> is the key of its authority.\<close>

definition open_cap ::
  "(vi_error + 'f) \<Rightarrow> authority_key \<Rightarrow> authority_table \<Rightarrow> 'f cspace_files
   \<Rightarrow> (syscall_error + u64) \<times> authority_table \<times> 'f cspace_files" where
  "open_cap opened key t fs =
     (case opened of
        Err _ \<Rightarrow> (Err SE_FileNotFound, t, fs)
      | Ok file \<Rightarrow>
          (case table_get t key of
             None \<Rightarrow> (Err SE_PermissionDenied, t, fs)
           | Some auth \<Rightarrow>
               (case allocate_file_slot (Cell (fst key) (snd key)) file (CAP_PERM_READ OR CAP_PERM_SEEK) auth fs of
                  (Err _, auth', fs') \<Rightarrow> (Err SE_OutOfMemory, table_set key auth' t, fs')
                | (Ok ticket, auth', fs') \<Rightarrow> (Ok ticket, table_set key auth' t, fs'))))"

text \<open>The first locked section of every file operation: take the file out of the ticket's entry.\<close>

definition take_file ::
  "authority_key \<Rightarrow> u64 \<Rightarrow> u32 \<Rightarrow> authority_table \<Rightarrow> 'f cspace_files \<Rightarrow> (syscall_error + 'f) \<times> 'f cspace_files" where
  "take_file key cap_id perm t fs =
     (case table_get t key of
        None \<Rightarrow> (Err SE_PermissionDenied, fs)
      | Some auth \<Rightarrow>
          (case cspace_park_file cap_id perm auth fs of
             (Err _, fs') \<Rightarrow> (Err SE_PermissionDenied, fs')
           | (Ok f, fs') \<Rightarrow> (Ok f, fs')))"

text \<open>The second locked section: put it back, if the authority is still published.\<close>

definition return_file ::
  "authority_key \<Rightarrow> u64 \<Rightarrow> 'f \<Rightarrow> authority_table \<Rightarrow> 'f cspace_files \<Rightarrow> 'f cspace_files" where
  "return_file key cap_id f t fs =
     (case table_get t key of
        None \<Rightarrow> fs
      | Some auth \<Rightarrow> cspace_unpark_file cap_id f auth fs)"

definition read_cap ::
  "'f file_ops \<Rightarrow> bool \<Rightarrow> (bytes \<Rightarrow> bool) \<Rightarrow> authority_key \<Rightarrow> u64 \<Rightarrow> u64 \<Rightarrow> u64
   \<Rightarrow> authority_table \<Rightarrow> 'f cspace_files \<Rightarrow> (syscall_error + bytes) \<times> 'f cspace_files" where
  "read_cap fo mem_ok user_out key cap_id buf_ptr buf_len t fs =
     (if buf_len = 0 then (Ok [], fs)
      else case validate_user_buf buf_ptr buf_len MAX_USER_BUF of
        Err e \<Rightarrow> (Err e, fs)
      | Ok _ \<Rightarrow>
          (case take_file key cap_id CAP_PERM_READ t fs of
             (Err e, fs') \<Rightarrow> (Err e, fs')
           | (Ok boxed_file, fs') \<Rightarrow>
               if \<not> mem_ok then (Err SE_OutOfMemory, fs')
               else
                 let (read_result, boxed_file') = fo_read fo boxed_file (unat buf_len);
                     fs'' = return_file key cap_id boxed_file' t fs'
                 in
                 (case read_result of
                    Err _ \<Rightarrow> (Err SE_Unknown, fs'')
                  | Ok bs \<Rightarrow>
                      if bs \<noteq> [] \<and> \<not> user_out bs then (Err SE_InvalidInput, fs'')
                      else (Ok bs, fs''))))"

definition file_op ::
  "('f \<Rightarrow> (vi_error + 'r) \<times> 'f) \<Rightarrow> u32 \<Rightarrow> authority_key \<Rightarrow> u64
   \<Rightarrow> authority_table \<Rightarrow> 'f cspace_files \<Rightarrow> (syscall_error + 'r) \<times> 'f cspace_files" where
  "file_op f perm key cap_id t fs =
     (case take_file key cap_id perm t fs of
        (Err e, fs') \<Rightarrow> (Err e, fs')
      | (Ok boxed_file, fs') \<Rightarrow>
          let (result, boxed_file') = f boxed_file;
              fs'' = return_file key cap_id boxed_file' t fs'
          in
          (case result of Err _ \<Rightarrow> (Err SE_Unknown, fs'') | Ok r \<Rightarrow> (Ok r, fs'')))"

definition seek_cap ::
  "'f file_ops \<Rightarrow> authority_key \<Rightarrow> u64 \<Rightarrow> u64 \<Rightarrow> nat \<Rightarrow> authority_table \<Rightarrow> 'f cspace_files
   \<Rightarrow> (syscall_error + u64) \<times> 'f cspace_files" where
  "seek_cap fo key cap_id offset whence t fs =
     (let pos = (if whence = 0 then Some (SeekStart offset)
                 else if whence = 1 then Some (SeekCurrent offset)
                 else if whence = 2 then Some (SeekEnd offset)
                 else None)
      in case pos of
           None \<Rightarrow> (Err SE_InvalidInput, fs)
         | Some p \<Rightarrow> file_op (\<lambda>f. fo_seek fo f p) CAP_PERM_READ key cap_id t fs)"

definition write_cap ::
  "'f file_ops \<Rightarrow> (syscall_error + bytes) \<Rightarrow> authority_key \<Rightarrow> u64 \<Rightarrow> u64 \<Rightarrow> authority_table \<Rightarrow> 'f cspace_files
   \<Rightarrow> (syscall_error + nat) \<times> 'f cspace_files" where
  "write_cap fo user_in key cap_id buf_len t fs =
     (if buf_len = 0 then (Ok 0, fs)
      else case user_in of
        Err e \<Rightarrow> (Err e, fs)
      | Ok bs \<Rightarrow> file_op (\<lambda>f. fo_write fo f bs) CAP_PERM_WRITE key cap_id t fs)"

definition stat_cap ::
  "'f file_ops \<Rightarrow> authority_key \<Rightarrow> u64 \<Rightarrow> authority_table \<Rightarrow> 'f cspace_files
   \<Rightarrow> (syscall_error + u64) \<times> 'f cspace_files" where
  "stat_cap fo key cap_id t fs = file_op (fo_size fo) CAP_PERM_READ key cap_id t fs"

definition truncate_cap ::
  "'f file_ops \<Rightarrow> authority_key \<Rightarrow> u64 \<Rightarrow> u64 \<Rightarrow> authority_table \<Rightarrow> 'f cspace_files
   \<Rightarrow> (syscall_error + unit) \<times> 'f cspace_files" where
  "truncate_cap fo key cap_id len t fs = file_op (\<lambda>f. fo_truncate fo f len) CAP_PERM_WRITE key cap_id t fs"

definition sync_cap ::
  "'f file_ops \<Rightarrow> authority_key \<Rightarrow> u64 \<Rightarrow> authority_table \<Rightarrow> 'f cspace_files
   \<Rightarrow> (syscall_error + unit) \<times> 'f cspace_files" where
  "sync_cap fo key cap_id t fs = file_op (fo_sync fo) CAP_PERM_WRITE key cap_id t fs"

definition close_cap ::
  "authority_key \<Rightarrow> u64 \<Rightarrow> authority_table \<Rightarrow> 'f cspace_files
   \<Rightarrow> ((syscall_error + unit) \<times> authority_table \<times> 'f cspace_files) option" where
  "close_cap key cap_id t fs =
     (case table_get t key of
        None \<Rightarrow> Some (Err SE_PermissionDenied, t, fs)
      | Some auth \<Rightarrow>
          (case close_ticket cap_id auth fs of
             None \<Rightarrow> None
           | Some (Err _, auth', fs') \<Rightarrow> Some (Err SE_PermissionDenied, table_set key auth' t, fs')
           | Some (Ok _, auth', fs') \<Rightarrow> Some (Ok (), table_set key auth' t, fs')))"

section \<open>Correctness\<close>

text \<open>What taking a file requires and does.\<close>

lemma take_file_OkE:
  assumes "take_file key cap_id perm t fs = (Ok f, fs')"
  obtains auth i where "table_get t key = Some auth" "live_slot_index auth cap_id = Ok i"
    "\<not> se_admission_cut (ca_slots auth ! i)" "se_kind (ca_slots auth ! i) = BootFSFile"
    "perms_has (se_rights (ca_slots auth ! i)) perm"
    "park_ticket_file (ticket_key auth cap_id) fs = (Some f, fs')"
  using assms
  by (auto simp: take_file_def cspace_park_file_def Let_def perms_has_def
      split: option.split_asm sum.split_asm if_split_asm prod.split_asm)

lemma park_ticket_None_same: "park_ticket_file k fs = (None, fs') \<Longrightarrow> bt_get fs' = bt_get fs"
  using park_ticket_look [of k fs] park_ticket_result [of k fs]
  by (auto simp: fun_eq_iff split: if_split_asm bind_splits)

lemma cspace_park_Err: "cspace_park_file cap_id perm auth fs = (Err e, fs') \<Longrightarrow> bt_get fs' = bt_get fs"
  by (auto simp: cspace_park_file_def Let_def dest: park_ticket_None_same
      split: sum.split_asm if_split_asm prod.split_asm option.split_asm)

lemma take_file_Err:
  assumes "take_file key cap_id perm t fs = (Err e, fs')"
  shows "e = SE_PermissionDenied \<and> bt_get fs' = bt_get fs"
  using assms
  by (auto simp: take_file_def dest: cspace_park_Err split: option.split_asm sum.split_asm prod.split_asm)

text \<open>Taking and returning is an update of the ticket's own entry.\<close>

lemma take_return:
  assumes "take_file key cap_id perm t fs = (Ok f, fs')"
  shows "\<exists>auth. table_get t key = Some auth \<and> bt_get fs (ticket_key auth cap_id) = Some (Some f)
    \<and> bt_get fs' = (bt_get fs)(ticket_key auth cap_id \<mapsto> None)
    \<and> bt_get (return_file key cap_id g t fs') = (bt_get fs)(ticket_key auth cap_id \<mapsto> Some g)"
proof (rule take_file_OkE [OF assms], goal_cases)
  case (1 auth i)
  let ?k = "ticket_key auth cap_id"
  have old: "bt_get fs ?k = Some (Some f)"
    using 1(6) park_ticket_result [of ?k fs] by (auto split: bind_splits)
  moreover from this have "bt_get fs' = (bt_get fs)(?k \<mapsto> None)"
    using 1(6) park_ticket_look [of ?k fs] by simp
  moreover from this have "bt_get (return_file key cap_id g t fs') = (bt_get fs)(?k \<mapsto> Some g)"
    using 1(1) by (simp add: return_file_def cspace_unpark_file_def unpark_ticket_look)
  ultimately show ?thesis using 1(1) by blast
qed

text \<open>
  The outcome of a file operation: refused with the store unchanged, or run on the ticket's file
  with the updated file put back.
\<close>

lemma file_op_spec:
  assumes "file_op f perm key cap_id t fs = (res, fs')"
  shows "(res = Err SE_PermissionDenied \<and> bt_get fs' = bt_get fs)
    \<or> (\<exists>auth file r g. table_get t key = Some auth \<and> bt_get fs (ticket_key auth cap_id) = Some (Some file)
        \<and> f file = (r, g) \<and> bt_get fs' = (bt_get fs)(ticket_key auth cap_id \<mapsto> Some g)
        \<and> res = (case r of Err _ \<Rightarrow> Err SE_Unknown | Ok x \<Rightarrow> Ok x))"
proof (cases "take_file key cap_id perm t fs")
  case (Pair tr fs1)
  show ?thesis
  proof (cases tr)
    case (Inl e)
    then show ?thesis using assms Pair take_file_Err [of key cap_id perm t fs e fs1] by (auto simp: file_op_def)
  next
    case (Inr bf)
    obtain r g where rg: "f bf = (r, g)" by fastforce
    have "fs' = return_file key cap_id g t fs1 \<and> res = (case r of Err _ \<Rightarrow> Err SE_Unknown | Ok x \<Rightarrow> Ok x)"
      using assms Pair Inr rg by (auto simp: file_op_def split: sum.splits)
    then show ?thesis using take_return [OF Pair [unfolded Inr], of g] rg by blast
  qed
qed

lemma read_cap_spec:
  assumes "read_cap fo mem_ok user_out key cap_id ptr len t fs = (res, fs')" and len: "len \<noteq> 0"
  shows "((\<exists>e. res = Err e) \<and> bt_get fs' = bt_get fs)
    \<or> (\<exists>auth file. table_get t key = Some auth \<and> bt_get fs (ticket_key auth cap_id) = Some (Some file)
        \<and> (if mem_ok then
             (\<exists>r g. fo_read fo file (unat len) = (r, g)
               \<and> bt_get fs' = (bt_get fs)(ticket_key auth cap_id \<mapsto> Some g)
               \<and> (res = Err SE_Unknown \<or> res = Err SE_InvalidInput \<or> (\<exists>bs. r = Ok bs \<and> res = Ok bs)))
           else res = Err SE_OutOfMemory \<and> bt_get fs' = (bt_get fs)(ticket_key auth cap_id \<mapsto> None)))"
proof (cases "validate_user_buf ptr len MAX_USER_BUF")
  case (Inl e)
  then show ?thesis using assms by (auto simp: read_cap_def)
next
  case v: (Inr u)
  show ?thesis
  proof (cases "take_file key cap_id CAP_PERM_READ t fs")
    case (Pair tr fs1)
    show ?thesis
    proof (cases tr)
      case (Inl e)
      then show ?thesis
        using assms v Pair take_file_Err [of key cap_id CAP_PERM_READ t fs e fs1] by (auto simp: read_cap_def)
    next
      case (Inr bf)
      obtain r g where rg: "fo_read fo bf (unat len) = (r, g)" by fastforce
      obtain auth where auth: "table_get t key = Some auth" "bt_get fs (ticket_key auth cap_id) = Some (Some bf)"
        "bt_get fs1 = (bt_get fs)(ticket_key auth cap_id \<mapsto> None)"
        "bt_get (return_file key cap_id g t fs1) = (bt_get fs)(ticket_key auth cap_id \<mapsto> Some g)"
        using take_return [OF Pair [unfolded Inr], of g] by blast
      show ?thesis
      proof (cases mem_ok)
        case False
        then have "res = Err SE_OutOfMemory \<and> fs' = fs1" using assms v Pair Inr by (simp add: read_cap_def)
        then show ?thesis using False auth by auto
      next
        case True
        then have "fs' = return_file key cap_id g t fs1
            \<and> (res = Err SE_Unknown \<or> res = Err SE_InvalidInput \<or> (\<exists>bs. r = Ok bs \<and> res = Ok bs))"
          using assms v Pair Inr rg by (auto simp: read_cap_def Let_def split: sum.split_asm if_split_asm)
        then show ?thesis using True auth rg by auto
      qed
    qed
  qed
qed

text \<open>A ticket's file is at home, or parked.\<close>

definition file_home :: "authority_table \<Rightarrow> authority_key \<Rightarrow> u64 \<Rightarrow> 'f cspace_files \<Rightarrow> bool" where
  "file_home t key cap_id fs \<longleftrightarrow>
     (\<exists>auth f. table_get t key = Some auth \<and> bt_get fs (ticket_key auth cap_id) = Some (Some f))"

definition only_ticket_changed ::
  "authority_table \<Rightarrow> authority_key \<Rightarrow> u64 \<Rightarrow> 'f cspace_files \<Rightarrow> 'f cspace_files \<Rightarrow> bool" where
  "only_ticket_changed t key cap_id fs fs' \<longleftrightarrow>
     (\<forall>auth k. table_get t key = Some auth \<longrightarrow> k \<noteq> ticket_key auth cap_id \<longrightarrow> bt_get fs' k = bt_get fs k)"

lemma file_op_home:
  assumes "file_home t key cap_id fs" "file_op f perm key cap_id t fs = (res, fs')"
  shows "file_home t key cap_id fs' \<and> only_ticket_changed t key cap_id fs fs'"
  using file_op_spec [OF assms(2)] assms(1) by (auto simp: file_home_def only_ticket_changed_def)

lemma file_op_home_snd:
  assumes "file_home t key cap_id fs"
  shows "file_home t key cap_id (snd (file_op f perm key cap_id t fs))
    \<and> only_ticket_changed t key cap_id fs (snd (file_op f perm key cap_id t fs))"
  using file_op_home [OF assms] by (metis prod.collapse)

lemma read_cap_home:
  assumes "file_home t key cap_id fs" "read_cap fo True user_out key cap_id ptr len t fs = (res, fs')"
  shows "file_home t key cap_id fs' \<and> only_ticket_changed t key cap_id fs fs'"
proof (cases "len = 0")
  case True
  then show ?thesis using assms by (simp add: read_cap_def only_ticket_changed_def)
next
  case False
  from read_cap_spec [OF assms(2) False] assms(1) show ?thesis
    by (auto simp: file_home_def only_ticket_changed_def)
qed

lemma not_home_refused:
  assumes "\<not> file_home t key cap_id fs"
  shows "\<exists>fs'. take_file key cap_id perm t fs = (Err SE_PermissionDenied, fs') \<and> bt_get fs' = bt_get fs"
proof (cases "take_file key cap_id perm t fs")
  case (Pair tr fs1)
  show ?thesis
  proof (cases tr)
    case (Inl e)
    then show ?thesis using Pair take_file_Err by blast
  next
    case (Inr f)
    have False using take_return [OF Pair [unfolded Inr]] assms by (auto simp: file_home_def)
    then show ?thesis ..
  qed
qed

end
