(* ===== verification/Samples.thy ===== *)
theory Samples
  imports File_Syscalls
begin

text \<open>
  Concrete states at which the properties of the root theory are instantiated: a capability space
  with a root slot (ticket 1, rights 7, expiry 100) and a child derived from it (ticket 2, rights 3,
  expiry 50), and a table that publishes it.
\<close>

definition sample_root :: cell_authority where
  "sample_root = snd (allocate_slot (Cell 1 1) Kernel CSpaceAuthority 7 (Some 100) None
     (authority_new 1 1 CAPSET_EMPTY))"

definition sample_space :: cell_authority where
  "sample_space = snd (allocate_slot (Cell 2 1) (Cell 1 1) CSpaceAuthority 3 (Some 50) (Some 1) sample_root)"

definition sample_table :: authority_table where
  "sample_table = \<lparr>at_rows = [((1, 1), sample_space)], at_reservations = 0, at_capacity = 4\<rparr>"

lemma sample_root_inv [simp]: "ca_inv sample_root"
  by (simp add: sample_root_def ca_inv_allocate_slot)

lemma sample_space_inv [simp]: "ca_inv sample_space"
  by (simp add: sample_space_def ca_inv_allocate_slot)

lemma sample_space_reachable: "cs_step\<^sup>*\<^sup>* (authority_new 1 1 CAPSET_EMPTY, fs) (sample_space, fs)"
proof -
  have "cs_step (authority_new 1 1 CAPSET_EMPTY, fs) (sample_root, fs)"
    by (rule cs_step.alloc [where res = "fst (allocate_slot (Cell 1 1) Kernel CSpaceAuthority 7 (Some 100) None
      (authority_new 1 1 CAPSET_EMPTY))"]) (simp add: sample_root_def)
  moreover have "cs_step (sample_root, fs) (sample_space, fs)"
    by (rule cs_step.alloc [where res = "fst (allocate_slot (Cell 2 1) (Cell 1 1) CSpaceAuthority 3 (Some 50)
      (Some 1) sample_root)"]) (simp add: sample_space_def)
  ultimately show ?thesis by (meson r_into_rtranclp rtranclp_trans)
qed

lemma sample_space_slots:
  "live_slot_index sample_space 1 = Ok 0" "live_slot_index sample_space 2 = Ok 1"
  "length (ca_slots sample_space) = 256" "se_lineage_parent (ca_slots sample_space ! 1) = Some 0"
  "se_ticket (ca_slots sample_space ! 1) = 2" "se_in_use (ca_slots sample_space ! 1)"
  "ca_next_ticket_counter sample_space = 3" "\<not> ca_revoking sample_space"
  by code_simp+

lemma sample_descends: "descends (ca_slots sample_space) 1 0"
  by (rule descends.parent) (simp_all add: sample_space_slots del: One_nat_def)

text \<open>The same space once both holders have closed, the parent's first.\<close>

definition sample_half_closed :: cell_authority where
  "sample_half_closed = fst (snd (the (close_ticket 1 sample_space ([] :: unit cspace_files))))"

definition sample_closed :: cell_authority where
  "sample_closed = fst (snd (the (close_ticket 2 sample_half_closed ([] :: unit cspace_files))))"

lemma sample_close_returns:
  "snd (snd (the (close_ticket 1 sample_space ([] :: unit cspace_files)))) = []"
  "close_ticket 1 sample_space ([] :: unit cspace_files) \<noteq> None"
  "close_ticket 2 sample_half_closed ([] :: unit cspace_files) \<noteq> None"
  by code_simp+

lemma sample_closed_state:
  "\<not> ca_revoking sample_closed" "list_all (\<lambda>s. \<not> se_holder_open s) (ca_slots sample_closed)"
  by code_simp+

lemma sample_closed_reachable:
  "\<exists>fs. cs_step\<^sup>*\<^sup>* (authority_new 1 1 CAPSET_EMPTY, [] :: unit cspace_files) (sample_closed, fs)"
proof -
  obtain r1 fs1 where 1: "close_ticket 1 sample_space [] = Some (r1, sample_half_closed, fs1 :: unit cspace_files)"
    using sample_close_returns(2) by (auto simp: sample_half_closed_def)
  have "fs1 = []" using sample_close_returns(1) 1 by simp
  obtain r2 fs2 where 2: "close_ticket 2 sample_half_closed [] = Some (r2, sample_closed, fs2 :: unit cspace_files)"
    using sample_close_returns(3) by (auto simp: sample_closed_def)
  show ?thesis
    using sample_space_reachable cs_step.close [OF 1] cs_step.close [OF 2] \<open>fs1 = []\<close>
    by (meson rtranclp.rtrancl_into_rtrancl)
qed

lemma sample_space_id: "ca_cell_id sample_space = 1" "ca_generation sample_space = 1"
  by code_simp+

lemma sample_table_inv [simp]: "at_inv sample_table"
  by (auto simp: at_inv_def sample_table_def bt_wf_def table_get_def sample_space_id split: if_split_asm)

text \<open>A derive request for the sample ticket 1, in both wire formats.\<close>

definition sample_handle_derive :: handle_control_request where
  "sample_handle_derive = \<lparr>hcr_version = 1, hcr_action = 1, hcr_ticket = 1, hcr_destination_cell = 3,
     hcr_destination_generation = 1, hcr_rights = 5, hcr_expiry_present = 1, hcr_expiry_tick = 60\<rparr>"

definition sample_cspace_derive :: cspace_request where
  "sample_cspace_derive = \<lparr>csr_version = 1, csr_action = 1, csr_parent_ticket = 1, csr_target_cell = 3,
     csr_target_generation = 1, csr_class_bits = 5, csr_mmio_mask = 0, csr_block_region_mask = 0,
     csr_absolute_expiry_tick = 60\<rparr>"

lemma sample_decodes:
  "handle_request_decode (handle_request_bytes sample_handle_derive) = Ok sample_handle_derive"
  "cspace_request_decode (cspace_request_bytes sample_cspace_derive) = Ok sample_cspace_derive"
  by (simp_all add: handle_request_decode_bytes handle_request_ok_def sample_handle_derive_def
      cspace_request_decode_bytes cspace_request_ok_def sample_cspace_derive_def)

lemma sample_request_sel [simp]:
  "hcr_action sample_handle_derive = 1" "hcr_ticket sample_handle_derive = 1"
  "hcr_destination_cell sample_handle_derive = 3" "hcr_destination_generation sample_handle_derive = 1"
  "hcr_rights sample_handle_derive = 5"
  "csr_action sample_cspace_derive = 1" "csr_parent_ticket sample_cspace_derive = 1"
  "csr_target_cell sample_cspace_derive = 3" "csr_target_generation sample_cspace_derive = 1"
  "csr_class_bits sample_cspace_derive = 5"
  by (simp_all add: sample_handle_derive_def sample_cspace_derive_def)

lemma sample_table_get: "table_get sample_table (1, 1) = Some sample_space"
  by (simp add: sample_table_def table_get_def)

lemma sample_derives:
  "crh_status (fst (handle_derive 1 1 sample_handle_derive sample_space)) = Success"
  "crh_status (fst (cspace_derive 1 1 sample_cspace_derive sample_space)) = Success"
  by code_simp+

lemma sample_handle_dispatch:
  "\<exists>h t' fs'. dispatch_handle_control 1 1 (handle_request_bytes sample_handle_derive) sample_table fs
     = Some (h, t', fs') \<and> crh_status h = Success"
  using sample_derives(1)
  by (cases "handle_derive 1 1 sample_handle_derive sample_space")
    (simp add: dispatch_handle_control_def sample_decodes on_authority_def sample_table_get act_def
      sample_space_slots)

lemma sample_cspace_dispatch:
  "\<exists>h t' fs'. dispatch_cspace_control 1 1 (cspace_request_bytes sample_cspace_derive) sample_table fs
     = Some (h, t', fs') \<and> crh_status h = Success"
  using sample_derives(2)
  by (cases "cspace_derive 1 1 sample_cspace_derive sample_space")
    (simp add: dispatch_cspace_control_def sample_decodes on_authority_def sample_table_get act_def
      sample_space_slots)

text \<open>A published authority whose ticket 1 names an open file; file objects are units.\<close>

definition sample_open :: "(control_status + u64) \<times> cell_authority \<times> unit cspace_files" where
  "sample_open = allocate_file_slot (Cell 1 1) () 5 (authority_new 1 1 CAPSET_EMPTY) []"

definition sample_file_table :: authority_table where
  "sample_file_table = \<lparr>at_rows = [((1, 1), fst (snd sample_open))], at_reservations = 0, at_capacity = 4\<rparr>"

definition sample_files :: "unit cspace_files" where
  "sample_files = snd (snd sample_open)"

definition sample_ops :: "unit file_ops" where
  "sample_ops = \<lparr>fo_read = \<lambda>_ n. (Ok (replicate n 0), ()), fo_write = \<lambda>_ bs. (Ok (length bs), ()),
     fo_seek = \<lambda>_ _. (Ok 0, ()), fo_size = \<lambda>_. (Ok 8, ()), fo_truncate = \<lambda>_ _. (Ok (), ()),
     fo_sync = \<lambda>_. (Ok (), ())\<rparr>"

lemma sample_take_file:
  "\<exists>fs0. take_file (1, 1) 1 CAP_PERM_READ sample_file_table sample_files = (Ok (), fs0)"
proof -
  have "fst (take_file (1, 1) 1 CAP_PERM_READ sample_file_table sample_files) = Ok ()" by code_simp
  then show ?thesis by (metis prod.collapse)
qed

lemma sample_file_home: "file_home sample_file_table (1, 1) 1 sample_files"
  using sample_take_file take_return by (fastforce simp: file_home_def)

end
