(* ===== verification/Policy.thy ===== *)
theory Policy
  imports CapSet
begin

text \<open>
  The signed operator policy (\<open>kernel/src/policy.rs\<close>): the blob parser with its eight versions, the
  boot-time loader, the lookup and the narrowing rule every governed spawn goes through.  The
  Ed25519 check of the third-party crate is the parameter \<open>verify\<close>; the two build features
  (\<open>maintenance-mode\<close>, \<open>policy-required\<close>) are Boolean arguments.  A path is the byte string of its
  UTF-8 encoding; the audit records an operation emits are returned as a list.
\<close>

section \<open>Format constants\<close>

definition POLICY_MAGIC :: u32 where "POLICY_MAGIC = from_le_bytes [0x56, 0x50, 0x4F, 0x4C]"
definition SIG_LEN :: usize where "SIG_LEN = 64"
definition HEADER_LEN :: usize where "HEADER_LEN = 8"
definition CAP_BYTES_V1 :: usize where "CAP_BYTES_V1 = 6"
definition CAP_BYTES_V2 :: usize where "CAP_BYTES_V2 = 9"
definition CAP_BYTES_V3 :: usize where "CAP_BYTES_V3 = 10"
definition CAP_BYTES_V4 :: usize where "CAP_BYTES_V4 = 11"
definition CAP_BYTES_V5 :: usize where "CAP_BYTES_V5 = 15"
definition CAP_BYTES_V6 :: usize where "CAP_BYTES_V6 = 18"
definition CAP_BYTES_V7 :: usize where "CAP_BYTES_V7 = 19"
definition CAP_BYTES_V8 :: usize where "CAP_BYTES_V8 = 21"
definition FLAG_MAINTENANCE_PERMITTED :: u8 where "FLAG_MAINTENANCE_PERMITTED = 1"
definition FLAGS_MASK :: u8 where "FLAGS_MASK = FLAG_MAINTENANCE_PERMITTED"
definition REGION_MASK :: u8 where "REGION_MASK = 15"

lemmas cap_bytes_defs = CAP_BYTES_V1_def CAP_BYTES_V2_def CAP_BYTES_V3_def CAP_BYTES_V4_def
  CAP_BYTES_V5_def CAP_BYTES_V6_def CAP_BYTES_V7_def CAP_BYTES_V8_def

definition cap_bytes_for :: "u8 \<Rightarrow> usize option" where
  "cap_bytes_for version =
     (if version = 1 then Some CAP_BYTES_V1
      else if version = 2 then Some CAP_BYTES_V2
      else if version = 3 then Some CAP_BYTES_V3
      else if version = 4 then Some CAP_BYTES_V4
      else if version = 5 then Some CAP_BYTES_V5
      else if version = 6 then Some CAP_BYTES_V6
      else if version = 7 then Some CAP_BYTES_V7
      else if version = 8 then Some CAP_BYTES_V8
      else None)"

section \<open>UTF-8 of the standard library\<close>

definition utf8_cont :: "u8 \<Rightarrow> bool" where
  "utf8_cont b \<longleftrightarrow> 0x80 \<le> b \<and> b \<le> 0xBF"

text \<open>The well-formed byte sequences accepted by \<open>core::str::from_utf8\<close> (Unicode table 3-7).\<close>

fun utf8_valid :: "bytes \<Rightarrow> bool" where
  "utf8_valid [] = True"
| "utf8_valid [a] = (a < 0x80)"
| "utf8_valid [a, b] =
     (if a < 0x80 then utf8_valid [b] else 0xC2 \<le> a \<and> a \<le> 0xDF \<and> utf8_cont b)"
| "utf8_valid [a, b, c] =
     (if a < 0x80 then utf8_valid [b, c]
      else if 0xC2 \<le> a \<and> a \<le> 0xDF then utf8_cont b \<and> utf8_valid [c]
      else 0xE0 \<le> a \<and> a \<le> 0xEF \<and> utf8_cont b \<and> utf8_cont c
        \<and> (a = 0xE0 \<longrightarrow> 0xA0 \<le> b) \<and> (a = 0xED \<longrightarrow> b \<le> 0x9F))"
| "utf8_valid (a # b # c # d # rest) =
     (if a < 0x80 then utf8_valid (b # c # d # rest)
      else if 0xC2 \<le> a \<and> a \<le> 0xDF then utf8_cont b \<and> utf8_valid (c # d # rest)
      else if 0xE0 \<le> a \<and> a \<le> 0xEF then utf8_cont b \<and> utf8_cont c
        \<and> (a = 0xE0 \<longrightarrow> 0xA0 \<le> b) \<and> (a = 0xED \<longrightarrow> b \<le> 0x9F) \<and> utf8_valid (d # rest)
      else 0xF0 \<le> a \<and> a \<le> 0xF4 \<and> utf8_cont b \<and> utf8_cont c \<and> utf8_cont d
        \<and> (a = 0xF0 \<longrightarrow> 0x90 \<le> b) \<and> (a = 0xF4 \<longrightarrow> b \<le> 0x8F) \<and> utf8_valid rest)"

definition from_utf8 :: "bytes \<Rightarrow> string option" where
  "from_utf8 bs = (if utf8_valid bs then Some (map (\<lambda>b. char_of (unat b)) bs) else None)"

definition str_bytes :: "string \<Rightarrow> bytes" where
  "str_bytes s = map (\<lambda>c. of_nat (of_char c)) s"

section \<open>The parsed policy\<close>

record policy_entry =
  pe_path :: string
  pe_caps :: capset

record loaded_policy =
  lp_flags :: u8
  lp_entries :: "policy_entry list"

datatype policy_state = Loaded loaded_policy | Absent | Invalid

datatype policy_decision = Permit capset | DenyAll | NoEntry bool

text \<open>The early returns on a malformed capability field, in the order of the source.\<close>

definition caps_malformed :: "usize \<Rightarrow> bytes \<Rightarrow> bool" where
  "caps_malformed cap_bytes raw \<longleftrightarrow>
     raw ! 5 AND NOT REGION_MASK \<noteq> 0
     \<or> cap_bytes \<ge> CAP_BYTES_V2 \<and>
         ((raw ! 6 > 1 \<or> raw ! 7 > 1 \<or> raw ! 8 > 1)
          \<or> cap_bytes \<ge> CAP_BYTES_V3 \<and> raw ! 9 > 1
          \<or> cap_bytes \<ge> CAP_BYTES_V4 \<and> raw ! 10 > 1)
     \<or> cap_bytes \<ge> CAP_BYTES_V5 \<and> list_ex (\<lambda>b. b > 1) (slice CAP_BYTES_V4 CAP_BYTES_V5 raw)
     \<or> cap_bytes \<ge> CAP_BYTES_V6 \<and> list_ex (\<lambda>b. b > 1) (slice CAP_BYTES_V5 CAP_BYTES_V6 raw)
     \<or> cap_bytes \<ge> CAP_BYTES_V7 \<and> raw ! CAP_BYTES_V6 \<noteq> 0 \<and> raw ! CAP_BYTES_V6 \<noteq> 1
     \<or> cap_bytes \<ge> CAP_BYTES_V8 \<and> list_ex (\<lambda>b. b > 1) (slice CAP_BYTES_V7 CAP_BYTES_V8 raw)"

text \<open>
  The capability bytes of one entry.  A field beyond the blob's stride takes the compatibility value
  of its version: the privileged and KMS fields are refused, the formerly ambient network,
  observation and Config rights are kept.
\<close>

definition parse_caps :: "usize \<Rightarrow> bytes \<Rightarrow> capset option" where
  "parse_caps cap_bytes raw =
     (if caps_malformed cap_bytes raw then None
      else Some
        \<lparr>cs_block_io = (raw ! 0 \<noteq> 0),
         cs_network = (raw ! 1 \<noteq> 0),
         cs_spawn = (raw ! 2 \<noteq> 0),
         cs_hypervisor = (raw ! 3 \<noteq> 0),
         cs_mmio_devices = raw ! 4,
         cs_block_regions = raw ! 5,
         cs_pcie_driver = (cap_bytes \<ge> CAP_BYTES_V2 \<and> raw ! 6 = 1),
         cs_platform = (cap_bytes \<ge> CAP_BYTES_V2 \<and> raw ! 7 = 1),
         cs_supervisor = (cap_bytes \<ge> CAP_BYTES_V2 \<and> raw ! 8 = 1),
         cs_usb_driver = (cap_bytes \<ge> CAP_BYTES_V2 \<and> cap_bytes \<ge> CAP_BYTES_V3 \<and> raw ! 9 = 1),
         cs_serial_port = (cap_bytes \<ge> CAP_BYTES_V2 \<and> cap_bytes \<ge> CAP_BYTES_V4 \<and> raw ! 10 = 1),
         cs_net_resolve = (cap_bytes \<ge> CAP_BYTES_V5 \<longrightarrow> raw ! 11 = 1),
         cs_net_connect = (cap_bytes \<ge> CAP_BYTES_V5 \<longrightarrow> raw ! 12 = 1),
         cs_net_listen = (cap_bytes \<ge> CAP_BYTES_V5 \<longrightarrow> raw ! 13 = 1),
         cs_net_l2 = (cap_bytes \<ge> CAP_BYTES_V5 \<longrightarrow> raw ! 14 = 1),
         cs_observe_tasks = (cap_bytes \<ge> CAP_BYTES_V6 \<longrightarrow> raw ! 15 = 1),
         cs_observe_memory = (cap_bytes \<ge> CAP_BYTES_V6 \<longrightarrow> raw ! 16 = 1),
         cs_vfs_mutate = (cap_bytes \<ge> CAP_BYTES_V6 \<longrightarrow> raw ! 17 = 1),
         cs_config_write = (cap_bytes \<ge> CAP_BYTES_V7 \<longrightarrow> raw ! 18 = 1),
         cs_kms_ssh_sign = (cap_bytes \<ge> CAP_BYTES_V8 \<and> raw ! 19 = 1),
         cs_kms_ssh_admin = (cap_bytes \<ge> CAP_BYTES_V8 \<and> raw ! 20 = 1)\<rparr>)"

text \<open>The loop of \<open>parse\<close>, \<open>count\<close> iterations from offset \<open>off\<close>.\<close>

fun parse_entries :: "usize \<Rightarrow> bytes \<Rightarrow> usize \<Rightarrow> nat \<Rightarrow> policy_entry list option" where
  "parse_entries cap_bytes body off 0 = Some []"
| "parse_entries cap_bytes body off (Suc count) =
     (case get_at body off of None \<Rightarrow> None | Some path_len \<Rightarrow>
      let off = off + 1 in
      case get_range body off (off + unat path_len) of None \<Rightarrow> None | Some path_bytes \<Rightarrow>
      case from_utf8 path_bytes of None \<Rightarrow> None | Some path \<Rightarrow>
      let off = off + unat path_len in
      case get_range body off (off + cap_bytes) of None \<Rightarrow> None | Some caps_raw \<Rightarrow>
      case parse_caps cap_bytes caps_raw of None \<Rightarrow> None | Some caps \<Rightarrow>
      case parse_entries cap_bytes body (off + cap_bytes) count of None \<Rightarrow> None | Some es \<Rightarrow>
      Some (\<lparr>pe_path = path, pe_caps = caps\<rparr> # es))"

definition policy_parse :: "bytes \<Rightarrow> loaded_policy option" where
  "policy_parse body =
     (if length body < HEADER_LEN then None
      else if from_le_bytes (slice 0 4 body) \<noteq> POLICY_MAGIC then None
      else case cap_bytes_for (body ! 4) of None \<Rightarrow> None | Some cap_bytes \<Rightarrow>
        if body ! 5 AND NOT FLAGS_MASK \<noteq> 0 then None
        else case parse_entries cap_bytes body HEADER_LEN
                    (unat (from_le_bytes (slice 6 8 body) :: u16)) of
               None \<Rightarrow> None
             | Some es \<Rightarrow> Some \<lparr>lp_flags = body ! 5, lp_entries = es\<rparr>)"

section \<open>Loading and lookup\<close>

text \<open>The audit records of the policy and of spawn admission, with their payload words.\<close>

datatype audit_event =
    PolicyAbsent
  | PolicyInvalid u32
  | PolicyLoaded u32 u32
  | PolicyMaintenanceBypass u32
  | PolicyNoEntryStripped u32 u32
  | CapNarrowedByPolicy u32 u32
  | PrivilegedCapGranted u32 u32
  | NetRightsGranted u32 u32
  | CellSignatureVerified
  | CellSignatureFailed
  | CellSpawnDenied u32 u32

definition mark_invalid :: "u32 \<Rightarrow> policy_state option \<times> audit_event list" where
  "mark_invalid reason = (Some Invalid, [PolicyInvalid reason])"

text \<open>\<open>blob\<close> is the content of \<open>/POLICY.BIN\<close>, \<open>None\<close> when the read fails.\<close>

definition load_from_vifs1 ::
    "(bytes \<Rightarrow> bytes \<Rightarrow> bytes \<Rightarrow> bool) \<Rightarrow> bytes \<Rightarrow> bytes option \<Rightarrow> policy_state option \<times> audit_event list"
where
  "load_from_vifs1 verify FLEET_ROOT_PUBKEY file_blob =
     (case file_blob of
        None \<Rightarrow> (Some Absent, [PolicyAbsent])
      | Some blob \<Rightarrow>
          if blob = [] then (Some Absent, [PolicyAbsent])
          else if length blob < HEADER_LEN + SIG_LEN then mark_invalid 1
          else
            let split = length blob - SIG_LEN; body = take split blob; sig = drop split blob in
            if \<not> verify FLEET_ROOT_PUBKEY body sig then mark_invalid 2
            else case policy_parse body of
                Some loaded \<Rightarrow>
                  (Some (Loaded loaded),
                   [PolicyLoaded (of_nat (length (lp_entries loaded))) (ucast (lp_flags loaded))])
              | None \<Rightarrow> mark_invalid 3)"

definition is_resolved :: "policy_state option \<Rightarrow> bool" where
  "is_resolved POLICY \<longleftrightarrow> POLICY \<noteq> None"

definition policy_lookup :: "policy_state option \<Rightarrow> string \<Rightarrow> policy_decision" where
  "policy_lookup POLICY path =
     (case POLICY of
        Some (Loaded loaded) \<Rightarrow>
          (case find (\<lambda>e. pe_path e = path) (lp_entries loaded) of
             Some e \<Rightarrow> Permit (pe_caps e)
           | None \<Rightarrow> NoEntry True)
      | Some Invalid \<Rightarrow> DenyAll
      | Some Absent \<Rightarrow> NoEntry False
      | None \<Rightarrow> NoEntry False)"

section \<open>The narrowing rule\<close>

definition is_trusted_core :: "string \<Rightarrow> bool" where
  "is_trusted_core path \<longleftrightarrow>
     path \<in> {''/bin/vfs'', ''/bin/cellbox'', ''/bin/net'', ''/bin/platform''}"

definition decision_to_caps :: "bool \<Rightarrow> string \<Rightarrow> capset \<Rightarrow> policy_decision \<Rightarrow> capset" where
  "decision_to_caps policy_required path caps decision =
     (case decision of
        Permit p \<Rightarrow> intersect caps p
      | DenyAll \<Rightarrow> if is_trusted_core path then caps else CAPSET_EMPTY
      | NoEntry policy_loaded \<Rightarrow>
          let caps = (if policy_loaded \<and> path_mints_ptrust path then without_ptrust caps else caps);
              caps = (if policy_loaded
                      then caps\<lparr>cs_kms_ssh_sign := False, cs_kms_ssh_admin := False\<rparr> else caps)
          in if policy_required then (if is_trusted_core path then caps else CAPSET_EMPTY) else caps)"

text \<open>\<open>(b as u32) << n\<close>.\<close>

definition bit_if :: "bool \<Rightarrow> nat \<Rightarrow> u32" where
  "bit_if b n = (if b then push_bit n 1 else 0)"

definition narrowed_bits :: "capset \<Rightarrow> capset \<Rightarrow> u32" where
  "narrowed_bits c n =
     bit_if (cs_block_io c \<and> \<not> cs_block_io n) 0
     OR bit_if (cs_network c \<and> \<not> cs_network n) 1
     OR bit_if (cs_spawn c \<and> \<not> cs_spawn n) 2
     OR bit_if (cs_hypervisor c \<and> \<not> cs_hypervisor n) 3
     OR bit_if (cs_pcie_driver c \<and> \<not> cs_pcie_driver n) 4
     OR bit_if (cs_platform c \<and> \<not> cs_platform n) 5
     OR bit_if (cs_supervisor c \<and> \<not> cs_supervisor n) 6
     OR bit_if (cs_mmio_devices c \<noteq> cs_mmio_devices n) 7
     OR bit_if (cs_block_regions c \<noteq> cs_block_regions n) 8
     OR bit_if (cs_net_resolve c \<and> \<not> cs_net_resolve n) 9
     OR bit_if (cs_net_connect c \<and> \<not> cs_net_connect n) 10
     OR bit_if (cs_net_listen c \<and> \<not> cs_net_listen n) 11
     OR bit_if (cs_net_l2 c \<and> \<not> cs_net_l2 n) 12
     OR bit_if (cs_observe_tasks c \<and> \<not> cs_observe_tasks n) 13
     OR bit_if (cs_observe_memory c \<and> \<not> cs_observe_memory n) 14
     OR bit_if (cs_vfs_mutate c \<and> \<not> cs_vfs_mutate n) 15
     OR bit_if (cs_config_write c \<and> \<not> cs_config_write n) 16
     OR bit_if (cs_kms_ssh_sign c \<and> \<not> cs_kms_ssh_sign n) 17
     OR bit_if (cs_kms_ssh_admin c \<and> \<not> cs_kms_ssh_admin n) 18"

definition maintenance_permitted :: "policy_state option \<Rightarrow> bool" where
  "maintenance_permitted POLICY =
     (case POLICY of
        Some (Loaded p) \<Rightarrow> lp_flags p AND FLAG_MAINTENANCE_PERMITTED \<noteq> 0
      | _ \<Rightarrow> False)"

text \<open>The two build features.\<close>

record build_features =
  maintenance_mode :: bool
  policy_required :: bool

definition policy_apply ::
    "build_features \<Rightarrow> policy_state option \<Rightarrow> string \<Rightarrow> u32 \<Rightarrow> capset \<Rightarrow> capset \<times> audit_event list"
where
  "policy_apply feat POLICY path tid caps =
     (if maintenance_mode feat \<and> maintenance_permitted POLICY
      then (caps, [PolicyMaintenanceBypass tid])
      else
        let decision = policy_lookup POLICY path;
            no_entry_strip = (decision = NoEntry True \<and> path_mints_ptrust path);
            narrowed = decision_to_caps (policy_required feat) path caps decision;
            stripped = bit_if (cs_pcie_driver caps) 0 OR bit_if (cs_platform caps) 1
              OR bit_if (cs_supervisor caps) 2;
            granted = bit_if (cs_pcie_driver narrowed) 0 OR bit_if (cs_platform narrowed) 1
              OR bit_if (cs_supervisor narrowed) 2 OR bit_if (cs_serial_port narrowed) 3;
            net = bit_if (cs_net_resolve narrowed) 0 OR bit_if (cs_net_connect narrowed) 1
              OR bit_if (cs_net_listen narrowed) 2 OR bit_if (cs_net_l2 narrowed) 3
        in (narrowed,
            (if no_entry_strip then [PolicyNoEntryStripped tid stripped] else [])
            @ (if narrowed \<noteq> caps then [CapNarrowedByPolicy tid (narrowed_bits caps narrowed)] else [])
            @ (if granted \<noteq> 0 then [PrivilegedCapGranted tid granted] else [])
            @ (if net \<noteq> 0 then [NetRightsGranted tid net] else [])))"

section \<open>The policy builder\<close>

text \<open>
  The v8 encoder of the signing tool (\<open>scripts/sign-policy.py\<close>, \<open>build_body\<close>), on normalised rows; a
  row the tool refuses to bake makes it exit (\<open>None\<close>).
\<close>

definition b2u :: "bool \<Rightarrow> u8" where "b2u b = (if b then 1 else 0)"

definition caps_bytes :: "capset \<Rightarrow> bytes" where
  "caps_bytes c =
     [b2u (cs_block_io c), b2u (cs_network c), b2u (cs_spawn c), b2u (cs_hypervisor c),
      cs_mmio_devices c, cs_block_regions c,
      b2u (cs_pcie_driver c), b2u (cs_platform c), b2u (cs_supervisor c), b2u (cs_usb_driver c),
      b2u (cs_serial_port c), b2u (cs_net_resolve c), b2u (cs_net_connect c), b2u (cs_net_listen c),
      b2u (cs_net_l2 c), b2u (cs_observe_tasks c), b2u (cs_observe_memory c), b2u (cs_vfs_mutate c),
      b2u (cs_config_write c), b2u (cs_kms_ssh_sign c), b2u (cs_kms_ssh_admin c)]"

definition MMIO_MASK :: u8 where
  "MMIO_MASK = DEV_UART OR DEV_GPIO OR DEV_PCIE OR DEV_CAN OR DEV_ADC OR DEV_I2C OR DEV_SPI OR DEV_DISPLAY"

definition row_ok :: "policy_entry \<Rightarrow> bool" where
  "row_ok e \<longleftrightarrow>
     list_all (\<lambda>ch. of_char ch < (128::nat)) (pe_path e)
     \<and> length (pe_path e) \<le> 255
     \<and> cs_mmio_devices (pe_caps e) AND NOT MMIO_MASK = 0
     \<and> cs_block_regions (pe_caps e) AND NOT REGION_MASK = 0
     \<and> \<not> (cs_kms_ssh_sign (pe_caps e) \<and> cs_kms_ssh_admin (pe_caps e))"

definition entry_bytes :: "policy_entry \<Rightarrow> bytes" where
  "entry_bytes e =
     of_nat (length (pe_path e)) # str_bytes (pe_path e) @ caps_bytes (pe_caps e)"

definition build_body :: "policy_entry list \<Rightarrow> u8 \<Rightarrow> bytes option" where
  "build_body es flags =
     (if length es < 2 ^ 16 \<and> list_all row_ok es \<and> distinct (map pe_path es)
      then Some ([0x56, 0x50, 0x4F, 0x4C] @ [8, flags] @ to_le_bytes 2 (of_nat (length es) :: u16)
                 @ concat (map entry_bytes es))
      else None)"

section \<open>Narrowing lemmas\<close>

lemma cap_le_drop_kms: "cap_le (c\<lparr>cs_kms_ssh_sign := False, cs_kms_ssh_admin := False\<rparr>) c"
  by (simp add: cap_le_def)

lemma decision_to_caps_le: "cap_le (decision_to_caps req path caps d) caps"
proof (cases d)
  case (NoEntry l)
  have "cap_le ((without_ptrust caps)\<lparr>cs_kms_ssh_sign := False, cs_kms_ssh_admin := False\<rparr>) caps"
    using cap_le_trans [OF cap_le_drop_kms cap_le_without_ptrust] .
  then show ?thesis
    by (simp add: NoEntry decision_to_caps_def Let_def cap_le_drop_kms)
qed (simp_all add: decision_to_caps_def intersect_le1)

lemma policy_apply_le: "cap_le (fst (policy_apply feat POLICY path tid caps)) caps"
  by (simp add: policy_apply_def Let_def decision_to_caps_le)

lemma policy_apply_fst:
  "fst (policy_apply feat POLICY path tid caps) =
     (if maintenance_mode feat \<and> maintenance_permitted POLICY then caps
      else decision_to_caps (policy_required feat) path caps (policy_lookup POLICY path))"
  by (simp add: policy_apply_def Let_def)

lemma policy_apply_Permit:
  assumes "policy_lookup POLICY path = Permit p" "\<not> (maintenance_mode feat \<and> maintenance_permitted POLICY)"
  shows "fst (policy_apply feat POLICY path tid caps) = intersect caps p"
  using assms by (auto simp: policy_apply_def Let_def decision_to_caps_def)

lemma policy_apply_Invalid:
  "\<not> is_trusted_core path \<Longrightarrow> fst (policy_apply feat (Some Invalid) path tid caps) = CAPSET_EMPTY"
  by (simp add: policy_apply_def Let_def decision_to_caps_def policy_lookup_def maintenance_permitted_def)

section \<open>Parser lemmas\<close>

lemma subset_bits_and_not: "x AND NOT m = 0 \<Longrightarrow> subset_bits x m"
  by (auto simp: subset_bits_iff bit_eq_iff bit_simps) (metis bit_imp_le_length)

lemma parse_caps_regions:
  assumes "parse_caps n raw = Some c"
  shows "subset_bits (cs_block_regions c) REGION_MASK"
proof (rule subset_bits_and_not)
  have "\<not> caps_malformed n raw" and "cs_block_regions c = raw ! 5"
    using assms by (auto simp: parse_caps_def split: if_split_asm)
  then show "cs_block_regions c AND NOT REGION_MASK = 0"
    by (simp add: caps_malformed_def)
qed

lemma parse_caps_compat:
  assumes "parse_caps n raw = Some c"
  shows "n < CAP_BYTES_V2 \<Longrightarrow> without_ptrust c = c"
    and "n < CAP_BYTES_V5 \<Longrightarrow> cs_net_resolve c \<and> cs_net_connect c \<and> cs_net_listen c \<and> cs_net_l2 c"
    and "n < CAP_BYTES_V8 \<Longrightarrow> \<not> cs_kms_ssh_sign c \<and> \<not> cs_kms_ssh_admin c"
  using assms by (auto simp: parse_caps_def without_ptrust_def split: if_split_asm)

lemma parse_entries_SucE:
  assumes "parse_entries n body off (Suc k) = Some es"
  obtains e es' raw off' where "es = e # es'" "parse_caps n raw = Some (pe_caps e)"
    "parse_entries n body off' k = Some es'"
proof -
  have "\<exists>e es' raw off'. es = e # es' \<and> parse_caps n raw = Some (pe_caps e)
      \<and> parse_entries n body off' k = Some es'"
    using assms by (fastforce simp: Let_def split: option.splits)
  then show ?thesis using that by blast
qed

lemma parse_entries_length: "parse_entries n body off k = Some es \<Longrightarrow> length es = k"
  by (induction k arbitrary: off es) (auto elim!: parse_entries_SucE simp del: parse_entries.simps(2))

lemma parse_entries_caps:
  "parse_entries n body off k = Some es \<Longrightarrow> e \<in> set es \<Longrightarrow> \<exists>raw. parse_caps n raw = Some (pe_caps e)"
  by (induction k arbitrary: off es) (auto elim!: parse_entries_SucE simp del: parse_entries.simps(2))

lemma utf8_valid_ascii: "list_all (\<lambda>b. b < 0x80) bs \<Longrightarrow> utf8_valid bs"
  by (induction bs rule: utf8_valid.induct) auto

lemma of_char_byte: "of_char c < (128::nat) \<Longrightarrow> (of_nat (of_char c) :: u8) < 0x80"
  by (simp add: word_less_nat_alt unat_of_nat take_bit_eq_mod)

lemma from_utf8_str_bytes:
  assumes "list_all (\<lambda>ch. of_char ch < (128::nat)) s"
  shows "from_utf8 (str_bytes s) = Some s"
proof -
  have "char_of (unat (of_nat (of_char ch) :: u8)) = ch" if "of_char ch < (128::nat)" for ch
  proof -
    have "unat (of_nat (of_char ch) :: u8) = of_char ch"
      using that by (simp add: unat_of_nat take_bit_eq_mod)
    then show ?thesis by simp
  qed
  moreover have "utf8_valid (str_bytes s)"
    by (rule utf8_valid_ascii) (use assms of_char_byte in \<open>auto simp: str_bytes_def list_all_iff\<close>)
  ultimately show ?thesis
    using assms by (auto simp: from_utf8_def str_bytes_def list_all_iff intro!: map_idI)
qed

lemma b2u_simps [simp]: "b2u b \<noteq> 0 \<longleftrightarrow> b" "b2u b = 1 \<longleftrightarrow> b" "\<not> 1 < b2u b" "b2u b = 0 \<longleftrightarrow> \<not> b"
  by (auto simp: b2u_def)

lemma length_caps_bytes [simp]: "length (caps_bytes c) = CAP_BYTES_V8"
  by (simp add: caps_bytes_def CAP_BYTES_V8_def)

lemma parse_caps_bytes:
  assumes "cs_block_regions c AND NOT REGION_MASK = 0"
  shows "parse_caps CAP_BYTES_V8 (caps_bytes c) = Some c"
  using assms
  by (cases c) (simp add: parse_caps_def caps_malformed_def caps_bytes_def cap_bytes_defs slice_def)

lemma get_range_skip:
  "off = length pre \<Longrightarrow> n = length xs \<Longrightarrow> get_range (pre @ xs @ post) off (off + n) = Some xs"
  by (simp add: get_range_def slice_def)

lemma parse_entries_concat:
  assumes "list_all row_ok es"
  shows "parse_entries CAP_BYTES_V8 (pre @ concat (map entry_bytes es)) (length pre) (length es) = Some es"
  using assms
proof (induction es arbitrary: pre)
  case (Cons e es)
  let ?p = "str_bytes (pe_path e)" and ?c = "caps_bytes (pe_caps e)" and ?l = "of_nat (length (pe_path e)) :: u8"
  let ?body = "pre @ concat (map entry_bytes (e # es))"
  have row: "list_all (\<lambda>ch. of_char ch < (128::nat)) (pe_path e)" "length (pe_path e) \<le> 255"
      "cs_block_regions (pe_caps e) AND NOT REGION_MASK = 0"
    using Cons.prems by (simp_all add: row_ok_def)
  have l: "unat ?l = length ?p"
    using row(2) by (simp add: unat_of_nat take_bit_eq_mod str_bytes_def)
  have b1: "get_at ?body (length pre) = Some ?l"
    by (simp add: get_at_def entry_bytes_def nth_append)
  have b2: "get_range ?body (length pre + 1) (length pre + 1 + length ?p) = Some ?p"
    using get_range_skip [of "length pre + 1" "pre @ [?l]" "length ?p" ?p]
    by (simp add: entry_bytes_def)
  have b3: "get_range ?body (length pre + 1 + length ?p) (length pre + 1 + length ?p + CAP_BYTES_V8) = Some ?c"
    using get_range_skip [of "length pre + 1 + length ?p" "pre @ ?l # ?p" CAP_BYTES_V8 ?c]
    by (simp add: entry_bytes_def)
  have b4: "parse_entries CAP_BYTES_V8 ?body (length pre + 1 + length ?p + CAP_BYTES_V8) (length es) = Some es"
    using Cons.IH [of "pre @ entry_bytes e"] Cons.prems
    by (simp add: entry_bytes_def [of e] ac_simps)
  show ?case
    using b1 b2 b3 b4
    by (simp add: Let_def l from_utf8_str_bytes row parse_caps_bytes del: concat.simps list.map)
qed simp

lemma policy_parse_build_body:
  assumes "build_body es flags = Some body" "flags AND NOT FLAGS_MASK = 0"
  shows "policy_parse body = Some \<lparr>lp_flags = flags, lp_entries = es\<rparr>"
proof -
  let ?n = "of_nat (length es) :: u16"
  let ?h = "[0x56, 0x50, 0x4F, 0x4C] @ [8, flags] @ to_le_bytes 2 ?n"
  have es: "length es < 2 ^ 16" "list_all row_ok es" and body: "body = ?h @ concat (map entry_bytes es)"
    using assms(1) by (simp_all add: build_body_def split: if_splits)
  have h: "length ?h = HEADER_LEN" by (simp add: HEADER_LEN_def)
  have n: "unat ?n = length es"
    using es(1) by (simp add: unat_of_nat take_bit_eq_mod)
  have "slice 6 8 body = to_le_bytes 2 ?n"
    by (simp add: body slice_def)
  then have cnt: "unat (from_le_bytes (slice 6 8 body) :: u16) = length es"
    by (simp add: from_le_to_le_bytes n)
  have "slice 0 4 body = [0x56, 0x50, 0x4F, 0x4C]" by (simp add: body slice_def)
  moreover have "body ! 4 = 8" "body ! 5 = flags" by (simp_all add: body)
  moreover have "\<not> length body < HEADER_LEN" using h by (simp add: body)
  moreover have "parse_entries CAP_BYTES_V8 body HEADER_LEN (length es) = Some es"
    using parse_entries_concat [OF es(2), of ?h] h by (simp add: body)
  ultimately show ?thesis
    using assms(2) by (simp add: policy_parse_def POLICY_MAGIC_def cap_bytes_for_def cnt)
qed

end
