(* ===== verification/Elf_Sections.thy ===== *)
theory Elf_Sections
  imports Policy "HOL-Library.Monad_Syntax"
begin

text \<open>
  The bounded ELF section-table reader (\<open>kernel/src/loader/elf_section.rs\<close>), the classification of
  the manifest section (\<open>loader/manifest_section.rs\<close>) and the cell signature check built on it
  (\<open>kernel/src/signing.rs\<close>).  Offsets are naturals: on the 64-bit targets \<open>to_usize\<close> never fails, and a
  \<open>checked_add\<close> or \<open>checked_mul\<close> that overflows describes a range no slice can contain, which is the
  \<open>None\<close> of the range access as well.
\<close>

section \<open>The section table\<close>

definition ELF_MAGIC :: bytes where "ELF_MAGIC = [0x7F, 0x45, 0x4C, 0x46]"
definition ELFCLASS32 :: u8 where "ELFCLASS32 = 1"
definition ELFCLASS64 :: u8 where "ELFCLASS64 = 2"
definition ELFDATA2LSB :: u8 where "ELFDATA2LSB = 1"
definition ELFDATA2MSB :: u8 where "ELFDATA2MSB = 2"
definition SHT_STRTAB :: u64 where "SHT_STRTAB = 3"
definition SHT_NOBITS :: u64 where "SHT_NOBITS = 8"
definition SHN_XINDEX :: usize where "SHN_XINDEX = 0xFFFF"

record elf_section_entry =
  es_name :: usize
  es_kind :: u64
  es_offset :: usize
  es_size :: usize

record elf_header =
  eh_class :: u8
  eh_little :: bool
  eh_shoff :: usize
  eh_shentsize :: usize
  eh_shnum :: usize
  eh_shstrndx :: usize

record elf_sections =
  el_data :: bytes
  el_header :: elf_header

text \<open>An early \<open>return None\<close> unless \<open>b\<close>.\<close>

definition ensure :: "bool \<Rightarrow> unit option" where
  "ensure b = (if b then Some () else None)"

definition checked_range :: "bytes \<Rightarrow> usize \<Rightarrow> usize \<Rightarrow> bytes option" where
  "checked_range data offset len = get_range data offset (offset + len)"

definition elf_read :: "bytes \<Rightarrow> usize \<Rightarrow> usize \<Rightarrow> bool \<Rightarrow> u64 option" where
  "elf_read data offset width little =
     do { bs \<leftarrow> get_range data offset (offset + width);
          Some (if little then from_le_bytes bs
                else fold (\<lambda>byte value. push_bit 8 value OR ucast byte) bs 0) }"

definition elf_read_usize :: "bytes \<Rightarrow> usize \<Rightarrow> usize \<Rightarrow> bool \<Rightarrow> usize option" where
  "elf_read_usize data offset width little = map_option unat (elf_read data offset width little)"

text \<open>The offsets of the header fields of one ELF class.\<close>

record elf_layout =
  header_size :: usize
  phoff_at :: usize
  phentsize_at :: usize
  phnum_at :: usize
  shoff_at :: usize
  ehsize_at :: usize
  shentsize_at :: usize
  shnum_at :: usize
  shstrndx_at :: usize
  expected_phent :: usize
  expected_shent :: usize

definition elf_layout_for :: "u8 \<Rightarrow> elf_layout option" where
  "elf_layout_for cls =
     (if cls = ELFCLASS32 then
        Some \<lparr>header_size = 52, phoff_at = 28, phentsize_at = 42, phnum_at = 44, shoff_at = 32,
              ehsize_at = 40, shentsize_at = 46, shnum_at = 48, shstrndx_at = 50,
              expected_phent = 32, expected_shent = 40\<rparr>
      else if cls = ELFCLASS64 then
        Some \<lparr>header_size = 64, phoff_at = 32, phentsize_at = 54, phnum_at = 56, shoff_at = 40,
              ehsize_at = 52, shentsize_at = 58, shnum_at = 60, shstrndx_at = 62,
              expected_phent = 56, expected_shent = 64\<rparr>
      else None)"

text \<open>One iteration of the program-header loop; \<open>None\<close> is its early return.\<close>

definition phdr_check :: "bytes \<Rightarrow> u8 \<Rightarrow> bool \<Rightarrow> usize \<Rightarrow> usize \<Rightarrow> unit option" where
  "phdr_check data cls little width base =
     (let (offset_at, size_at) = (if cls = ELFCLASS32 then (4, 16) else (8, 32)) in
      do { kind \<leftarrow> elf_read data base 4 little;
           offset \<leftarrow> elf_read_usize data (base + offset_at) width little;
           size \<leftarrow> elf_read_usize data (base + size_at) width little;
           if kind \<noteq> 0 \<and> size \<noteq> 0 then map_option (\<lambda>_. ()) (checked_range data offset size)
           else Some () })"

definition phdrs_check ::
    "bytes \<Rightarrow> u8 \<Rightarrow> bool \<Rightarrow> elf_layout \<Rightarrow> usize \<Rightarrow> usize \<Rightarrow> usize \<Rightarrow> usize \<Rightarrow> unit option" where
  "phdrs_check data cls little lay width phoff phentsize phnum =
     (if phnum = 0 then (if phoff \<noteq> 0 then None else Some ())
      else if phnum = 0xFFFF \<or> phoff = 0 \<or> phentsize \<noteq> expected_phent lay then None
      else do { checked_range data phoff (phentsize * phnum);
                ensure (list_all (\<lambda>index.
                  phdr_check data cls little width (phoff + phentsize * index) \<noteq> None) [0..<phnum]) })"

definition elf_parse :: "bytes \<Rightarrow> elf_sections option" where
  "elf_parse data =
     do { magic \<leftarrow> get_range data 0 4;
          ident_version \<leftarrow> get_at data 6;
          ensure (\<not> (magic \<noteq> ELF_MAGIC \<or> ident_version \<noteq> 1));
          cls \<leftarrow> get_at data 4;
          encoding \<leftarrow> get_at data 5;
          little \<leftarrow> (if encoding = ELFDATA2LSB then Some True
                    else if encoding = ELFDATA2MSB then Some False else None);
          lay \<leftarrow> elf_layout_for cls;
          ensure (\<not> length data < header_size lay);
          version \<leftarrow> elf_read data 20 4 little;
          ensure (\<not> version \<noteq> 1);
          ehsize \<leftarrow> elf_read_usize data (ehsize_at lay) 2 little;
          ensure (\<not> ehsize \<noteq> header_size lay);
          let width = (if cls = ELFCLASS32 then 4 else 8);
          phoff \<leftarrow> elf_read_usize data (phoff_at lay) width little;
          phentsize \<leftarrow> elf_read_usize data (phentsize_at lay) 2 little;
          phnum \<leftarrow> elf_read_usize data (phnum_at lay) 2 little;
          phdrs_check data cls little lay width phoff phentsize phnum;
          shoff \<leftarrow> elf_read_usize data (shoff_at lay) width little;
          shentsize \<leftarrow> elf_read_usize data (shentsize_at lay) 2 little;
          shnum \<leftarrow> elf_read_usize data (shnum_at lay) 2 little;
          shstrndx \<leftarrow> elf_read_usize data (shstrndx_at lay) 2 little;
          let elf = \<lparr>el_data = data,
                     el_header = \<lparr>eh_class = cls, eh_little = little, eh_shoff = shoff,
                                  eh_shentsize = shentsize, eh_shnum = shnum, eh_shstrndx = shstrndx\<rparr>\<rparr>;
          if shnum = 0 then (if shoff = 0 \<and> shstrndx = 0 then Some elf else None)
          else if shstrndx = SHN_XINDEX \<or> shoff = 0 \<or> shentsize \<noteq> expected_shent lay
                  \<or> shstrndx = 0 \<or> shstrndx \<ge> shnum then None
          else do { checked_range data shoff (shentsize * shnum); Some elf } }"

definition elf_count :: "elf_sections \<Rightarrow> usize" where
  "elf_count elf = eh_shnum (el_header elf)"

definition elf_section :: "elf_sections \<Rightarrow> usize \<Rightarrow> elf_section_entry option" where
  "elf_section elf index =
     (let h = el_header elf; data = el_data elf; little = eh_little h in
      if index \<ge> eh_shnum h then None
      else
        let base = eh_shoff h + eh_shentsize h * index;
            (offset_at, size_at, width) =
              (if eh_class h = ELFCLASS32 then (16, 20, 4) else (24, 32, 8)) in
        do { name \<leftarrow> elf_read_usize data base 4 little;
             kind \<leftarrow> elf_read data (base + 4) 4 little;
             offset \<leftarrow> elf_read_usize data (base + offset_at) width little;
             size \<leftarrow> elf_read_usize data (base + size_at) width little;
             Some \<lparr>es_name = name, es_kind = kind, es_offset = offset, es_size = size\<rparr> })"

definition elf_bytes :: "elf_sections \<Rightarrow> elf_section_entry \<Rightarrow> bytes option" where
  "elf_bytes elf s = checked_range (el_data elf) (es_offset s) (es_size s)"

definition elf_names :: "elf_sections \<Rightarrow> bytes option" where
  "elf_names elf =
     do { header \<leftarrow> elf_section elf (eh_shstrndx (el_header elf));
          if es_kind header \<noteq> SHT_STRTAB then None else elf_bytes elf header }"

definition elf_name :: "bytes \<Rightarrow> elf_section_entry \<Rightarrow> bytes option" where
  "elf_name names s =
     (if es_name s > length names then None
      else let tail = drop (es_name s) names in
           do { end_at \<leftarrow> position (\<lambda>byte. byte = 0) tail; Some (take end_at tail) })"

section \<open>The manifest section\<close>

definition MANIFEST_NAME :: bytes where "MANIFEST_NAME = str_bytes ''__ViCell_manifest''"

datatype manifest_version = V1 | V2

datatype manifest_section =
    MAbsent
  | MValid cell_manifest manifest_version
  | MMalformed

text \<open>The content of a section named as the manifest: its version by length and version byte.\<close>

definition manifest_content :: "bytes \<Rightarrow> manifest_section" where
  "manifest_content bs =
     (case (if length bs = 8 \<and> bs ! 4 = MANIFEST_VERSION_V1 then Some V1
            else if length bs = 16 \<and> bs ! 4 = MANIFEST_VERSION then Some V2 else None) of
        None \<Rightarrow> MMalformed
      | Some version \<Rightarrow>
          (case manifest_from_bytes bs of
             Some manifest \<Rightarrow> MValid manifest version
           | None \<Rightarrow> MMalformed))"

fun classify_loop ::
    "elf_sections \<Rightarrow> bytes \<Rightarrow> usize list \<Rightarrow> manifest_section option \<Rightarrow> manifest_section option" where
  "classify_loop elf names [] found =
     Some (case found of Some m \<Rightarrow> m | None \<Rightarrow> MAbsent)"
| "classify_loop elf names (index # rest) found =
     do { s \<leftarrow> elf_section elf index;
          name \<leftarrow> elf_name names s;
          (if es_kind s \<noteq> SHT_NOBITS then map_option (\<lambda>_. ()) (elf_bytes elf s) else Some ());
          if name \<noteq> MANIFEST_NAME then classify_loop elf names rest found
          else if es_kind s = SHT_NOBITS \<or> found \<noteq> None then Some MMalformed
          else do { bs \<leftarrow> elf_bytes elf s;
                    if manifest_content bs = MMalformed then Some MMalformed
                    else classify_loop elf names rest (Some (manifest_content bs)) } }"

definition classify_inner :: "bytes \<Rightarrow> manifest_section option" where
  "classify_inner data =
     do { elf \<leftarrow> elf_parse data;
          if elf_count elf = 0 then Some MAbsent
          else do { names \<leftarrow> elf_names elf;
                    classify_loop elf names [0..<elf_count elf] None } }"

definition classify :: "bytes \<Rightarrow> manifest_section" where
  "classify data = (case classify_inner data of Some m \<Rightarrow> m | None \<Rightarrow> MMalformed)"

section \<open>Cell signatures\<close>

definition SHT_PROGBITS :: u64 where "SHT_PROGBITS = 1"
definition SIG_NAME :: bytes where "SIG_NAME = str_bytes ''__ViCell_sig''"

fun signature_loop ::
    "elf_sections \<Rightarrow> bytes \<Rightarrow> usize list \<Rightarrow> (usize \<times> usize) option \<Rightarrow> (usize \<times> usize) option" where
  "signature_loop elf names [] sig = sig"
| "signature_loop elf names (index # rest) sig =
     do { s \<leftarrow> elf_section elf index;
          name \<leftarrow> elf_name names s;
          if name \<noteq> SIG_NAME then signature_loop elf names rest sig
          else if sig \<noteq> None \<or> es_kind s \<noteq> SHT_PROGBITS \<or> es_size s \<noteq> 64 then None
          else do { elf_bytes elf s;
                    signature_loop elf names rest (Some (es_offset s, es_size s)) } }"

definition signature_range :: "bytes \<Rightarrow> (usize \<times> usize) option" where
  "signature_range data =
     do { elf \<leftarrow> elf_parse data;
          names \<leftarrow> elf_names elf;
          signature_loop elf names [0..<elf_count elf] None }"

definition extract_sig :: "bytes \<Rightarrow> bytes option" where
  "extract_sig data =
     do { (offset, size) \<leftarrow> signature_range data;
          if size \<noteq> 64 then None else Some (slice offset (offset + size) data) }"

text \<open>
  \<open>verify\<close> is the Ed25519 check of the third-party crate; \<open>can_reserve\<close> tells whether the allocator
  grants the scratch buffer of a given length.
\<close>

definition verify_cell_with_key ::
    "(bytes \<Rightarrow> bytes \<Rightarrow> bytes \<Rightarrow> bool) \<Rightarrow> (usize \<Rightarrow> bool) \<Rightarrow> bytes \<Rightarrow> bytes \<Rightarrow> bytes \<Rightarrow> vi_error + bool" where
  "verify_cell_with_key verify can_reserve elf sig pubkey =
     (case signature_range elf of
        None \<Rightarrow> Ok False
      | Some (offset, sz) \<Rightarrow>
          if sz \<noteq> 64 then Ok False
          else if extract_sig elf \<noteq> Some sig then Ok False
          else if \<not> can_reserve (length elf - sz) then Err OutOfMemory
          else Ok (verify pubkey (take offset elf @ drop (offset + sz) elf) sig))"

section \<open>What an accepted image guarantees\<close>

text \<open>Section \<open>index\<close> carries the name \<open>nm\<close>.\<close>

definition section_named :: "elf_sections \<Rightarrow> bytes \<Rightarrow> bytes \<Rightarrow> usize \<Rightarrow> bool" where
  "section_named elf names nm index \<longleftrightarrow>
     (case elf_section elf index of None \<Rightarrow> False | Some s \<Rightarrow> elf_name names s = Some nm)"

lemma section_named_Some:
  "elf_section elf index = Some s \<Longrightarrow> section_named elf names nm index \<longleftrightarrow> elf_name names s = Some nm"
  by (simp add: section_named_def)

definition named_count :: "bytes \<Rightarrow> bytes \<Rightarrow> nat" where
  "named_count nm data =
     (case elf_parse data of None \<Rightarrow> 0 | Some elf \<Rightarrow>
      (case elf_names elf of None \<Rightarrow> 0 | Some names \<Rightarrow>
       length (filter (section_named elf names nm) [0..<elf_count elf])))"

lemma elf_parse_data: "elf_parse data = Some elf \<Longrightarrow> el_data elf = data"
  by (auto simp: elf_parse_def Let_def split: Option.bind_splits if_split_asm)

lemma signature_loop_count:
  "signature_loop elf names idxs sig = Some r \<Longrightarrow>
   length (filter (section_named elf names SIG_NAME) idxs) + (if sig = None then 0 else 1) = 1"
proof (induction idxs arbitrary: sig)
  case (Cons i idxs)
  from Cons.prems show ?case
    by (auto simp: section_named_Some split: Option.bind_splits if_split_asm dest!: Cons.IH)
qed (auto split: if_splits)

lemma signature_loop_range:
  "signature_loop elf names idxs sig = Some (off, n) \<Longrightarrow>
   sig = Some (off, n) \<or> n = 64 \<and> off + 64 \<le> length (el_data elf)"
proof (induction idxs arbitrary: sig)
  case (Cons i idxs)
  then show ?case
    by (fastforce simp: elf_bytes_def checked_range_def get_range_def
          split: Option.bind_splits if_split_asm)
qed simp

lemma signature_range_ok:
  assumes "signature_range data = Some (off, n)"
  shows "n = 64" "off + 64 \<le> length data" "named_count SIG_NAME data = 1"
proof -
  obtain elf names where e: "elf_parse data = Some elf" "elf_names elf = Some names"
      "signature_loop elf names [0..<elf_count elf] None = Some (off, n)"
    using assms by (auto simp: signature_range_def split: Option.bind_splits)
  show "n = 64" "off + 64 \<le> length data"
    using signature_loop_range [OF e(3)] elf_parse_data [OF e(1)] by simp_all
  show "named_count SIG_NAME data = 1"
    using signature_loop_count [OF e(3)] by (simp add: named_count_def e)
qed

lemma verify_cell_accepts:
  assumes "verify_cell_with_key verify can_reserve elf sig pubkey = Ok True"
  obtains off where "signature_range elf = Some (off, 64)" "sig = slice off (off + 64) elf"
    "verify pubkey (take off elf @ drop (off + 64) elf) sig"
  using assms
  by (auto simp: verify_cell_with_key_def extract_sig_def split: option.splits if_split_asm)

text \<open>The manifest loop: a valid classification names exactly one section.\<close>

definition found_count :: "manifest_section option \<Rightarrow> nat" where
  "found_count found = (if found = None then 0 else 1)"

lemma classify_loop_count:
  assumes "classify_loop elf names idxs found = Some r" "r \<noteq> MMalformed" "found \<noteq> Some MAbsent"
  shows "length (filter (section_named elf names MANIFEST_NAME) idxs) + found_count found
      = (if r = MAbsent then 0 else 1)"
  using assms
proof (induction idxs arbitrary: found r)
  case (Cons i idxs)
  have ne: "manifest_content bs \<noteq> MAbsent" for bs
    by (simp add: manifest_content_def split: option.splits)
  show ?case
    using Cons.prems
    by (auto simp: section_named_Some found_count_def ne split: Option.bind_splits if_split_asm dest!: Cons.IH)
qed (auto simp: found_count_def split: option.splits)

lemma classify_loop_valid:
  assumes "classify_loop elf names idxs found = Some (MValid m v)"
  shows "found = Some (MValid m v) \<or>
    (\<exists>i \<in> set idxs. \<exists>s bs. elf_section elf i = Some s \<and> elf_name names s = Some MANIFEST_NAME
       \<and> elf_bytes elf s = Some bs \<and> manifest_content bs = MValid m v)"
  using assms
proof (induction idxs arbitrary: found)
  case (Cons i idxs)
  then show ?case
    by (fastforce split: Option.bind_splits if_split_asm)
qed (auto split: option.splits)

lemma manifest_content_valid: "manifest_content bs = MValid m v \<Longrightarrow> manifest_from_bytes bs = Some m"
  by (auto simp: manifest_content_def split: option.splits if_split_asm)

lemma classify_valid:
  assumes "classify data = MValid m v"
  shows "named_count MANIFEST_NAME data = 1"
    and "\<exists>off n. off + n \<le> length data \<and> manifest_from_bytes (slice off (off + n) data) = Some m"
proof -
  obtain elf names where e: "elf_parse data = Some elf" "elf_names elf = Some names"
      "classify_loop elf names [0..<elf_count elf] None = Some (MValid m v)"
    using assms
    by (auto simp: classify_def classify_inner_def split: option.splits Option.bind_splits if_split_asm)
  show "named_count MANIFEST_NAME data = 1"
    using classify_loop_count [OF e(3)] by (simp add: named_count_def e found_count_def)
  obtain s bs where "elf_bytes elf s = Some bs" "manifest_content bs = MValid m v"
    using classify_loop_valid [OF e(3)] by auto
  then show "\<exists>off n. off + n \<le> length data \<and> manifest_from_bytes (slice off (off + n) data) = Some m"
    using elf_parse_data [OF e(1)]
    by (auto simp: elf_bytes_def checked_range_def get_range_def dest: manifest_content_valid
        split: if_split_asm)
qed

end
