(* ===== verification/Admission.thy ===== *)
theory Admission
  imports Policy
begin

text \<open>
  Owner admission (\<open>kernel/src/admission\<close>): the decision taken from the authenticated floor and the
  two replaceable A/B slots, the signed slot format, and the registry the loader consults with the
  digest of every image before a task exists.  The Ed25519 check against the owner key is the
  parameter \<open>verify_owner_signature\<close>; digests and identities are byte strings.
\<close>

section \<open>The decision core\<close>

record floor_state =
  fl_generation :: u64
  fl_transaction_id :: bytes
  fl_intent_digest :: bytes
  fl_backend_identity :: bytes

datatype floor_port_outcome =
    Authenticated floor_state
  | FloorPortMissing
  | FloorPortInvalid
  | FloorPortUnavailable
  | FloorPortExhausted
  | FloorPortReplaced

datatype slot_observation =
    AuthenticatedCommitted floor_state
  | AuthenticatedIntent floor_state
  | SlotObsMissing
  | SlotObsInvalid

datatype slot_id = SlotA | SlotB

datatype deny_reason =
  FloorMissing | FloorInvalid | FloorUnavailable | FloorExhausted | BackendReplaced

datatype recovery_reason =
    SlotMissing | SlotInvalid | SlotUncommitted | BackendMismatch
  | FloorAhead | SlotAhead | AmbiguousCurrent | ConflictingBinding

datatype admission_decision =
    Admit slot_id
  | Deny deny_reason
  | RecoveryRequired recovery_reason

fun committed :: "slot_observation \<Rightarrow> recovery_reason + floor_state" where
  "committed (AuthenticatedCommitted st) = Ok st"
| "committed (AuthenticatedIntent st) = Err SlotUncommitted"
| "committed SlotObsMissing = Err SlotMissing"
| "committed SlotObsInvalid = Err SlotInvalid"

definition classify_partner :: "slot_id \<Rightarrow> floor_state \<Rightarrow> floor_state \<Rightarrow> admission_decision" where
  "classify_partner current partner fl =
     (if fl_generation partner < fl_generation fl then Admit current
      else if fl_generation partner > fl_generation fl then RecoveryRequired SlotAhead
      else RecoveryRequired ConflictingBinding)"

definition classify_mismatch :: "floor_state \<Rightarrow> floor_state \<Rightarrow> floor_state \<Rightarrow> admission_decision" where
  "classify_mismatch a b fl =
     (if fl_generation a > fl_generation fl \<or> fl_generation b > fl_generation fl
        then RecoveryRequired SlotAhead
      else if fl_generation a = fl_generation fl \<or> fl_generation b = fl_generation fl
        then RecoveryRequired ConflictingBinding
      else RecoveryRequired FloorAhead)"

definition decide_current :: "floor_state \<Rightarrow> floor_state \<Rightarrow> floor_state \<Rightarrow> admission_decision" where
  "decide_current a b fl =
     (if fl_backend_identity a \<noteq> fl_backend_identity fl \<or> fl_backend_identity b \<noteq> fl_backend_identity fl
        then RecoveryRequired BackendMismatch
      else case (a = fl, b = fl) of
          (True, True) \<Rightarrow> RecoveryRequired AmbiguousCurrent
        | (True, False) \<Rightarrow> classify_partner SlotA b fl
        | (False, True) \<Rightarrow> classify_partner SlotB a fl
        | (False, False) \<Rightarrow> classify_mismatch a b fl)"

definition decide :: "floor_port_outcome \<Rightarrow> slot_observation \<Rightarrow> slot_observation \<Rightarrow> admission_decision" where
  "decide port slot0 slot1 =
     (case port of
        FloorPortMissing \<Rightarrow> Deny FloorMissing
      | FloorPortInvalid \<Rightarrow> Deny FloorInvalid
      | FloorPortUnavailable \<Rightarrow> Deny FloorUnavailable
      | FloorPortExhausted \<Rightarrow> Deny FloorExhausted
      | FloorPortReplaced \<Rightarrow> Deny BackendReplaced
      | Authenticated fl \<Rightarrow>
          (case committed slot0 of
             Err reason \<Rightarrow> RecoveryRequired reason
           | Ok a \<Rightarrow>
               (case committed slot1 of
                  Err reason \<Rightarrow> RecoveryRequired reason
                | Ok b \<Rightarrow> decide_current a b fl)))"

section \<open>The slot format\<close>

definition SLOT_MAGIC :: bytes where "SLOT_MAGIC = str_bytes ''VI_OWNER_SLOT_V1''"
definition SLOT_VERSION_1 :: u16 where "SLOT_VERSION_1 = 1"
definition FLAG_COMMITTED :: u16 where "FLAG_COMMITTED = 1"
definition HEADER_SIZE :: usize where "HEADER_SIZE = 144"
definition ENTRY_SIZE :: usize where "ENTRY_SIZE = 40"
definition SIG_SIZE :: usize where "SIG_SIZE = 64"
definition MIN_SLOT_SIZE :: usize where "MIN_SLOT_SIZE = HEADER_SIZE + SIG_SIZE"
definition MAX_ADMISSIONS :: usize where "MAX_ADMISSIONS = 256"

lemmas slot_size_defs = HEADER_SIZE_def ENTRY_SIZE_def SIG_SIZE_def MIN_SLOT_SIZE_def MAX_ADMISSIONS_def

datatype slot_parse_error =
    TooShort | BadMagic | UnsupportedVersion | InvalidSlotId | TooManyAdmissions | LengthMismatch
  | SignatureInvalid | DuplicateAdmission | ConflictingGeneration

record parsed_slot =
  ps_slot_id :: slot_id
  ps_is_committed :: bool
  ps_floor_state :: floor_state
  ps_expected_generation :: u64
  ps_provenance_envelope_digest :: bytes
  ps_admitted_elfs :: "bytes list"

definition observation :: "parsed_slot \<Rightarrow> slot_observation" where
  "observation s =
     (if ps_is_committed s then AuthenticatedCommitted (ps_floor_state s)
      else AuthenticatedIntent (ps_floor_state s))"

definition admits_elf :: "parsed_slot \<Rightarrow> bytes \<Rightarrow> bool" where
  "admits_elf s elf_sha256 = list_ex (\<lambda>admitted. admitted = elf_sha256) (ps_admitted_elfs s)"

text \<open>The admission loop; the accumulator is the vector pushed to so far.\<close>

fun admissions_loop :: "bytes \<Rightarrow> usize \<Rightarrow> nat \<Rightarrow> bytes list \<Rightarrow> slot_parse_error + bytes list" where
  "admissions_loop data offset 0 elfs = Ok elfs"
| "admissions_loop data offset (Suc n) elfs =
     (let elf_hash = slice offset (offset + 32) data in
      if elf_hash \<in> set elfs then Err DuplicateAdmission
      else admissions_loop data (offset + ENTRY_SIZE) n (elfs @ [elf_hash]))"

definition parse_slot_id :: "u8 \<Rightarrow> slot_id option" where
  "parse_slot_id b = (if b = 0 then Some SlotA else if b = 1 then Some SlotB else None)"

definition parse_slot ::
    "(bytes \<Rightarrow> bytes \<Rightarrow> bool) \<Rightarrow> bytes \<Rightarrow> slot_parse_error + parsed_slot" where
  "parse_slot verify_owner_signature data =
     (let n = length data;
          generation = from_le_bytes (slice 24 32 data) :: u64;
          expected_generation = from_le_bytes (slice 32 40 data) :: u64;
          admission_count = unat (from_le_bytes (slice 136 140 data) :: u32)
      in if n < MIN_SLOT_SIZE then Err TooShort
         else if slice 0 16 data \<noteq> SLOT_MAGIC then Err BadMagic
         else if from_le_bytes (slice 16 18 data) \<noteq> SLOT_VERSION_1 then Err UnsupportedVersion
         else if \<not> verify_owner_signature (take (n - SIG_SIZE) data) (drop (n - SIG_SIZE) data)
           then Err SignatureInvalid
         else (case parse_slot_id (data ! 20) of
           None \<Rightarrow> Err InvalidSlotId
         | Some slot_id \<Rightarrow>
             if expected_generation \<ge> generation \<and> generation > 0 then Err ConflictingGeneration
             else if admission_count > MAX_ADMISSIONS then Err TooManyAdmissions
             else if n \<noteq> HEADER_SIZE + admission_count * ENTRY_SIZE + SIG_SIZE then Err LengthMismatch
             else (case admissions_loop data HEADER_SIZE admission_count [] of
                 Err e \<Rightarrow> Err e
               | Ok elfs \<Rightarrow>
                   Ok \<lparr>ps_slot_id = slot_id,
                       ps_is_committed = (from_le_bytes (slice 18 20 data) AND FLAG_COMMITTED \<noteq> 0),
                       ps_floor_state =
                         \<lparr>fl_generation = generation, fl_transaction_id = slice 40 56 data,
                          fl_intent_digest = slice 72 104 data, fl_backend_identity = slice 56 72 data\<rparr>,
                       ps_expected_generation = expected_generation,
                       ps_provenance_envelope_digest = slice 104 136 data,
                       ps_admitted_elfs = elfs\<rparr>)))"

section \<open>The registry\<close>

record admission_registry =
  ar_floor_port :: floor_port_outcome
  ar_slot_a :: "parsed_slot option"
  ar_slot_b :: "parsed_slot option"
  ar_active_admitted_slot :: "slot_id option"
  ar_production_enforced :: bool

definition admission_registry_new :: admission_registry where
  "admission_registry_new =
     \<lparr>ar_floor_port = FloorPortMissing, ar_slot_a = None, ar_slot_b = None,
      ar_active_admitted_slot = None, ar_production_enforced = False\<rparr>"

definition slot_obs :: "parsed_slot option \<Rightarrow> slot_observation" where
  "slot_obs s = (case s of None \<Rightarrow> SlotObsMissing | Some s \<Rightarrow> observation s)"

definition admission_update ::
    "floor_port_outcome \<Rightarrow> parsed_slot option \<Rightarrow> parsed_slot option \<Rightarrow> admission_registry
     \<Rightarrow> admission_decision \<times> admission_registry" where
  "admission_update port slot_a slot_b r =
     (let decision = decide port (slot_obs slot_a) (slot_obs slot_b);
          active = (case decision of Admit s \<Rightarrow> Some s | _ \<Rightarrow> None)
      in (decision,
          r\<lparr>ar_floor_port := port, ar_slot_a := slot_a, ar_slot_b := slot_b,
            ar_active_admitted_slot := active\<rparr>))"

definition set_production_enforced :: "bool \<Rightarrow> admission_registry \<Rightarrow> admission_registry" where
  "set_production_enforced enforced r = r\<lparr>ar_production_enforced := enforced\<rparr>"

definition check_admission :: "admission_registry \<Rightarrow> bytes \<Rightarrow> vi_error + unit" where
  "check_admission r elf_sha256 =
     (if \<not> ar_production_enforced r then Ok ()
      else case ar_active_admitted_slot r of
          None \<Rightarrow> Err PermissionDenied
        | Some slot_id \<Rightarrow>
            (case (case slot_id of SlotA \<Rightarrow> ar_slot_a r | SlotB \<Rightarrow> ar_slot_b r) of
               None \<Rightarrow> Err PermissionDenied
             | Some slot \<Rightarrow> if admits_elf slot elf_sha256 then Ok () else Err PermissionDenied))"

section \<open>The decision is exact\<close>

text \<open>
  The contract of the decision: an authenticated floor, the selected slot committed and bound to
  exactly that floor, and the partner committed by the same backend at a strictly older generation.
\<close>

definition admits_spec ::
    "floor_port_outcome \<Rightarrow> slot_observation \<Rightarrow> slot_observation \<Rightarrow> bool" where
  "admits_spec port current partner \<longleftrightarrow>
     (\<exists>fl old. port = Authenticated fl \<and> current = AuthenticatedCommitted fl
        \<and> partner = AuthenticatedCommitted old
        \<and> fl_backend_identity old = fl_backend_identity fl
        \<and> fl_generation old < fl_generation fl)"

lemma committed_Ok: "committed s = Ok st \<longleftrightarrow> s = AuthenticatedCommitted st"
  by (cases s) auto

lemma decide_current_Admit:
  "decide_current a b fl = Admit s \<longleftrightarrow>
     fl_backend_identity a = fl_backend_identity fl \<and> fl_backend_identity b = fl_backend_identity fl
     \<and> (case s of SlotA \<Rightarrow> a = fl \<and> fl_generation b < fl_generation fl
               | SlotB \<Rightarrow> b = fl \<and> fl_generation a < fl_generation fl)"
  by (cases s; cases "a = fl"; cases "b = fl")
    (auto simp: decide_current_def classify_partner_def classify_mismatch_def)

lemma decide_Admit:
  "decide port s0 s1 = Admit s \<longleftrightarrow>
     (case s of SlotA \<Rightarrow> admits_spec port s0 s1 | SlotB \<Rightarrow> admits_spec port s1 s0)"
proof (cases port)
  case (Authenticated fl)
  show ?thesis
  proof (cases "\<exists>a b. s0 = AuthenticatedCommitted a \<and> s1 = AuthenticatedCommitted b")
    case True
    then obtain a b where "s0 = AuthenticatedCommitted a" "s1 = AuthenticatedCommitted b" by blast
    then show ?thesis
      by (cases s) (auto simp: Authenticated decide_def decide_current_Admit admits_spec_def)
  next
    case False
    then show ?thesis
      by (cases s; cases s0; cases s1) (auto simp: Authenticated decide_def admits_spec_def)
  qed
qed (cases s; simp add: decide_def admits_spec_def)+

section \<open>The registry invariant\<close>

definition ar_inv :: "admission_registry \<Rightarrow> bool" where
  "ar_inv r \<longleftrightarrow>
     (case ar_active_admitted_slot r of
        None \<Rightarrow> True
      | Some s \<Rightarrow> decide (ar_floor_port r) (slot_obs (ar_slot_a r)) (slot_obs (ar_slot_b r)) = Admit s)"

inductive admission_step :: "admission_registry \<Rightarrow> admission_registry \<Rightarrow> bool" where
  update: "admission_step r (snd (admission_update port a b r))"
| enforce: "admission_step r (set_production_enforced e r)"

lemma ar_inv_new [simp]: "ar_inv admission_registry_new"
  by (simp add: ar_inv_def admission_registry_new_def)

lemma ar_inv_step: "admission_step r r' \<Longrightarrow> ar_inv r \<Longrightarrow> ar_inv r'"
  by (induction rule: admission_step.induct)
    (auto simp: ar_inv_def admission_update_def set_production_enforced_def Let_def
      split: option.splits admission_decision.splits)

lemma ar_inv_steps: "admission_step\<^sup>*\<^sup>* r r' \<Longrightarrow> ar_inv r \<Longrightarrow> ar_inv r'"
  by (induction rule: rtranclp_induct) (auto intro: ar_inv_step)

lemma slot_obs_committed:
  "slot_obs s = AuthenticatedCommitted fl \<longleftrightarrow>
     (\<exists>p. s = Some p \<and> ps_is_committed p \<and> ps_floor_state p = fl)"
  by (auto simp: slot_obs_def observation_def split: option.splits if_splits)

lemma check_admission_enforced:
  assumes "ar_inv r" "ar_production_enforced r" "check_admission r digest = Ok ()"
  shows "\<exists>fl slot. ar_floor_port r = Authenticated fl
    \<and> (ar_slot_a r = Some slot \<or> ar_slot_b r = Some slot)
    \<and> ps_is_committed slot \<and> ps_floor_state slot = fl \<and> digest \<in> set (ps_admitted_elfs slot)"
proof -
  obtain s where s: "ar_active_admitted_slot r = Some s"
    using assms by (auto simp: check_admission_def split: option.splits)
  then have "decide (ar_floor_port r) (slot_obs (ar_slot_a r)) (slot_obs (ar_slot_b r)) = Admit s"
    using assms(1) by (simp add: ar_inv_def)
  then show ?thesis
    using assms(2,3) s
    by (cases s) (auto simp: decide_Admit admits_spec_def slot_obs_committed check_admission_def
        admits_elf_def list_ex_iff split: if_splits)
qed

section \<open>Parsed slots\<close>

lemma admissions_loop_distinct:
  "admissions_loop data off n elfs = Ok r \<Longrightarrow> distinct elfs \<Longrightarrow> distinct r \<and> length r = length elfs + n"
  by (induction data off n elfs rule: admissions_loop.induct) (auto simp: Let_def split: if_splits)

lemma parse_slot_ok:
  assumes "parse_slot verify data = Ok slot"
  shows "verify (take (length data - SIG_SIZE) data) (drop (length data - SIG_SIZE) data)"
    and "distinct (ps_admitted_elfs slot)"
    and "length (ps_admitted_elfs slot) \<le> MAX_ADMISSIONS"
    and "length data = HEADER_SIZE + length (ps_admitted_elfs slot) * ENTRY_SIZE + SIG_SIZE"
    and "0 < fl_generation (ps_floor_state slot) \<Longrightarrow>
         ps_expected_generation slot < fl_generation (ps_floor_state slot)"
  using assms
  by (auto simp: parse_slot_def Let_def split: if_split_asm option.splits sum.splits
      dest: admissions_loop_distinct)

end
