(* ===== verification/Launch_Profile.thy ===== *)
theory Launch_Profile
  imports CapSet
begin

text \<open>
  The reviewed authority tables of the loader: the boot ceilings (\<open>kernel/src/loader/boot_ceiling.rs\<close>)
  and the exact launch edges (\<open>kernel/src/loader/launch_profile\<close>).  The arms of a Rust \<open>match\<close> become
  the branches of a conditional in source order; a long alternative of path literals is a named list.
  The three fixture features of the build are the fields of \<open>launch_features\<close>.
\<close>

section \<open>Boot ceilings\<close>

definition CONSOLE_MMIO :: u8 where "CONSOLE_MMIO = DEV_GPIO OR DEV_UART"
definition ROOT_MMIO :: u8 where "ROOT_MMIO = CONSOLE_MMIO OR DEV_I2C OR DEV_SPI OR DEV_DISPLAY"
definition VFS_REGIONS :: u8 where "VFS_REGIONS = 15"

abbreviation LEGACY :: capset where "LEGACY \<equiv> LEGACY_OBSERVE_MUTATE"

definition INIT_CEILING :: capset where
  "INIT_CEILING =
     \<lparr>cs_block_io = True, cs_network = True, cs_spawn = True, cs_hypervisor = True,
      cs_mmio_devices = ROOT_MMIO, cs_block_regions = VFS_REGIONS,
      cs_pcie_driver = True, cs_platform = False, cs_supervisor = True, cs_usb_driver = True,
      cs_serial_port = True,
      cs_net_resolve = False, cs_net_connect = False, cs_net_listen = False, cs_net_l2 = False,
      cs_observe_tasks = True, cs_observe_memory = True, cs_vfs_mutate = True,
      cs_config_write = False, cs_kms_ssh_sign = False, cs_kms_ssh_admin = False\<rparr>"

definition BOOT_PCIE_DRIVERS :: "string list" where
  "BOOT_PCIE_DRIVERS =
     [''/bin/block'', ''/bin/nvme'', ''/bin/e1000'', ''/bin/igb'', ''/bin/virtio-net'',
      ''/bin/virtio-gpu'', ''/bin/input'', ''/bin/ahci'']"

definition BOOT_LEGACY_CELLS :: "string list" where
  "BOOT_LEGACY_CELLS =
     [''/bin/ocel'', ''/bin/ocel-js'', ''/bin/ocel-quickjs'', ''/bin/ocel-pdf'',
      ''/bin/chrome'', ''/bin/vm-runner'', ''/bin/files'', ''/bin/terminal'', ''/bin/config'',
      ''/bin/compositor'', ''/bin/fb-console'', ''/bin/kms'', ''/bin/silo-test'',
      ''/bin/vfs-test'', ''/bin/srv-test'', ''/bin/std-smoke'', ''/bin/desktop'',
      ''/bin/tier2-exploit'', ''/bin/tier2-smoke'', ''/bin/cpp-smoke'',
      ''/bin/tier2-rpc-provider'', ''/bin/tier2-rpc-driver'']"

definition boot_lookup :: "string \<Rightarrow> capset option" where
  "boot_lookup path =
     (if path = ''/bin/init'' then Some INIT_CEILING
      else if path = ''/bin/platform'' then Some (LEGACY\<lparr>cs_platform := True\<rparr>)
      else if path = ''/bin/vfs'' then
        Some (LEGACY\<lparr>cs_block_io := True, cs_block_regions := VFS_REGIONS\<rparr>)
      else if path = ''/bin/net'' then Some (LEGACY\<lparr>cs_network := True\<rparr>)
      else if path = ''/bin/net-broker'' then
        Some (LEGACY\<lparr>cs_network := True, cs_net_resolve := True, cs_net_connect := True,
                     cs_net_listen := True\<rparr>)
      else if path = ''/bin/cellbox'' then Some (LEGACY\<lparr>cs_config_write := True\<rparr>)
      else if path = ''/bin/supervisor'' then
        Some (LEGACY\<lparr>cs_spawn := True, cs_supervisor := True\<rparr>)
      else if path = ''/bin/silo'' then Some (LEGACY\<lparr>cs_hypervisor := True\<rparr>)
      else if path = ''/bin/hypervisor'' then
        Some (LEGACY\<lparr>cs_hypervisor := True, cs_net_l2 := True\<rparr>)
      else if path \<in> set BOOT_PCIE_DRIVERS then
        Some (LEGACY\<lparr>cs_pcie_driver := True, cs_mmio_devices := DEV_DISPLAY\<rparr>)
      else if path = ''/bin/xhci'' then
        Some (LEGACY\<lparr>cs_pcie_driver := True, cs_usb_driver := True, cs_mmio_devices := DEV_DISPLAY\<rparr>)
      else if path = ''/bin/serial'' then Some (LEGACY\<lparr>cs_serial_port := True\<rparr>)
      else if path = ''/bin/bcm-display'' then Some (LEGACY\<lparr>cs_mmio_devices := DEV_DISPLAY\<rparr>)
      else if path = ''/bin/dwc2-usb'' then
        Some (LEGACY\<lparr>cs_spawn := True, cs_usb_driver := True\<rparr>)
      else if path = ''/bin/lan9514'' then Some LEGACY
      else if path \<in> set BOOT_LEGACY_CELLS then Some LEGACY
      else if path = ''/bin/sshd'' then Some (LEGACY\<lparr>cs_net_listen := True\<rparr>)
      else if is_sandbox_path path then Some CAPSET_EMPTY
      else None)"

definition boot_ceiling :: "string \<Rightarrow> capset" where
  "boot_ceiling path = (case boot_lookup path of Some c \<Rightarrow> c | None \<Rightarrow> CAPSET_EMPTY)"

section \<open>Reviewed user targets\<close>

record launch_features =
  phase02_terminal_profile :: bool
  phase03_filter_profile :: bool
  phase04_driver_profile :: bool

definition NET_CLIENT :: capset where
  "NET_CLIENT = LEGACY\<lparr>cs_net_resolve := True, cs_net_connect := True\<rparr>"
definition NET_LISTENER :: capset where
  "NET_LISTENER = LEGACY\<lparr>cs_net_listen := True\<rparr>"
definition NET_PEER :: capset where
  "NET_PEER = LEGACY\<lparr>cs_net_resolve := True, cs_net_connect := True, cs_net_listen := True\<rparr>"

definition console_mmio_capset :: capset where
  "console_mmio_capset = LEGACY\<lparr>cs_mmio_devices := CONSOLE_MMIO\<rparr>"
definition gpio_mmio_capset :: capset where
  "gpio_mmio_capset = LEGACY\<lparr>cs_mmio_devices := DEV_GPIO\<rparr>"
definition sensor_mmio_capset :: capset where
  "sensor_mmio_capset = LEGACY\<lparr>cs_mmio_devices := DEV_GPIO OR DEV_I2C\<rparr>"
definition spi_demo_mmio_capset :: capset where
  "spi_demo_mmio_capset = LEGACY\<lparr>cs_mmio_devices := DEV_GPIO OR DEV_SPI\<rparr>"

definition REVIEWED_LEGACY_TARGETS :: "string list" where
  "REVIEWED_LEGACY_TARGETS =
     [''/bin/adc-demo'', ''/bin/ai-test'', ''/bin/audio-demo'', ''/bin/bench-probe'',
      ''/bin/c2c-render-worker'', ''/bin/c2c-render-domain-worker'', ''/bin/can-demo'',
      ''/bin/cat'', ''/bin/cfi-test'', ''/bin/c-pthread'', ''/bin/cpp-smoke'',
      ''/bin/tls-test'', ''/bin/futex-test'', ''/bin/pipe-test'', ''/bin/pipe-peer'',
      ''/bin/c-spawn'', ''/bin/backend-worker'', ''/bin/doom'', ''/bin/echo'', ''/bin/free'',
      ''/bin/gpio-test-rv'', ''/bin/http-smoke'', ''/bin/input-test'',
      ''/bin/window-policy-probe'', ''/bin/ls'', ''/bin/posix-shim-test'', ''/bin/ps'',
      ''/bin/robot-dashboard'', ''/bin/viui-demo'', ''/bin/tetris'', ''/bin/tetris-c'',
      ''/bin/tetris-lua'', ''/bin/vfs-test'', ''/bin/wx-test'', ''/bin/tier2-exploit'',
      ''/bin/tier2-smoke'', ''/bin/tier2-rpc-provider'', ''/bin/tier2-rpc-driver'',
      ''/bin/std-smoke'', ''/bin/desktop'', ''/bin/ocel-js'', ''/bin/ocel-quickjs'',
      ''/bin/ocel-pdf'', ''/bin/chrome'', ''/bin/vm-runner'', ''/bin/files'',
      ''/bin/terminal'']"

definition REVIEWED_NET_CLIENTS :: "string list" where
  "REVIEWED_NET_CLIENTS =
     [''/bin/curl'', ''/bin/wget'', ''/bin/mqtt'', ''/bin/ocel'', ''/bin/llm-gateway'', ''/bin/https-demo'']"

definition REVIEWED_SPAWNERS :: "string list" where
  "REVIEWED_SPAWNERS =
     [''/bin/bench'', ''/bin/c2c-render'', ''/bin/capacity-probe'', ''/bin/hypha'', ''/bin/tool-spawn'',
      ''/bin/backend-supervisor'', ''/bin/hotswap-demo-v1'', ''/bin/hotswap-demo-v2'']"

definition reviewed_user_target_ceiling :: "launch_features \<Rightarrow> string \<Rightarrow> capset option" where
  "reviewed_user_target_ceiling feat target =
     (if target \<in> set REVIEWED_LEGACY_TARGETS then Some LEGACY
      else if target \<in> set REVIEWED_NET_CLIENTS then Some NET_CLIENT
      else if target = ''/bin/nc'' then Some NET_PEER
      else if target = ''/bin/httpd'' then Some NET_LISTENER
      else if target = ''/bin/net-broker'' then Some (NET_PEER\<lparr>cs_network := True\<rparr>)
      else if target = ''/bin/dwc2-usb'' then Some (LEGACY\<lparr>cs_usb_driver := True\<rparr>)
      else if target = ''/bin/hypervisor'' then
        Some (LEGACY\<lparr>cs_hypervisor := True, cs_net_l2 := True\<rparr>)
      else if target \<in> set [''/bin/periph-demo'', ''/bin/periph-test''] then Some console_mmio_capset
      else if target = ''/bin/pwm-demo'' then Some gpio_mmio_capset
      else if target = ''/bin/sensor-demo'' then Some sensor_mmio_capset
      else if target = ''/bin/spi-demo'' then Some spi_demo_mmio_capset
      else if target \<in> set REVIEWED_SPAWNERS then Some (LEGACY\<lparr>cs_spawn := True\<rparr>)
      else if target \<in> set [''/bin/python'', ''/bin/lua'', ''/bin/tool-fs'', ''/bin/tool-sys''] then Some LEGACY
      else if phase04_driver_profile feat \<and> target = ''/bin/s2tw-probe'' then Some LEGACY
      else if target = ''/bin/robot-demo'' then
        Some (NET_CLIENT\<lparr>cs_network := True, cs_mmio_devices := cs_mmio_devices gpio_mmio_capset\<rparr>)
      else if is_sandbox_path target then Some CAPSET_EMPTY
      else None)"

section \<open>Launch edges\<close>

datatype launch_route = Path | Elf | Mem | Pinned

record caller_launch_state =
  cl_name :: string
  cl_has_spawn :: bool
  cl_has_supervisor :: bool

record launch_profile =
  child_ceiling :: capset
  denial_label :: string
  requires_lifecycle_authority :: bool

definition launch_profile_new :: "capset \<Rightarrow> string \<Rightarrow> bool \<Rightarrow> launch_profile" where
  "launch_profile_new c l r = \<lparr>child_ceiling = c, denial_label = l, requires_lifecycle_authority = r\<rparr>"

definition SHELL_EDGE :: capset where "SHELL_EDGE = LEGACY\<lparr>cs_config_write := True\<rparr>"
definition SSH_CLIENT_EDGE :: capset where "SSH_CLIENT_EDGE = NET_CLIENT\<lparr>cs_kms_ssh_sign := True\<rparr>"
definition KMS_SSH_ADMIN_EDGE :: capset where
  "KMS_SSH_ADMIN_EDGE = LEGACY\<lparr>cs_kms_ssh_admin := True\<rparr>"

definition INIT_TARGETS :: "string list" where
  "INIT_TARGETS =
     [''/bin/ai'', ''/bin/ahci'', ''/bin/xhci'', ''/bin/bcm-display'', ''/bin/block'',
      ''/bin/compositor'', ''/bin/config'', ''/bin/dwc2-usb'', ''/bin/e1000'', ''/bin/igb'',
      ''/bin/fb-console'', ''/bin/hypervisor'', ''/bin/input'', ''/bin/kms'', ''/bin/net'',
      ''/bin/net-broker'', ''/bin/nvme'', ''/bin/serial'', ''/bin/cellbox'', ''/bin/silo'',
      ''/bin/ai-test'', ''/bin/silo-test'', ''/bin/srv-test'', ''/bin/supervisor'',
      ''/bin/vfs'', ''/bin/vfs-test'', ''/bin/virtio-gpu'', ''/bin/virtio-net'',
      ''/bin/std-smoke'', ''/bin/desktop'', ''/bin/sshd'', ''/bin/chrome'', ''/bin/vm-runner'',
      ''/bin/files'', ''/bin/terminal'', ''/bin/ocel-js'', ''/bin/ocel-quickjs'',
      ''/bin/ocel-pdf'', ''/bin/tier2-smoke'', ''/bin/tier2-exploit'', ''/bin/cpp-smoke'',
      ''/bin/tier2-rpc-provider'', ''/bin/tier2-rpc-driver'']"

definition path_or_elf :: "launch_route \<Rightarrow> bool" where
  "path_or_elf route \<longleftrightarrow> route = Path \<or> route = Elf"

definition phase04_driver_init_profile :: "launch_route \<Rightarrow> string \<Rightarrow> launch_profile option" where
  "phase04_driver_init_profile route target =
     (if \<not> path_or_elf route \<or> target \<noteq> ''/bin/phase04-terminal-driver'' then None
      else Some (launch_profile_new LEGACY ''phase04-driver-init-edge'' True))"

definition init_profile :: "launch_features \<Rightarrow> launch_route \<Rightarrow> string \<Rightarrow> launch_profile option" where
  "init_profile feat route target =
     (if phase04_driver_profile feat \<and> target = ''/bin/phase04-terminal-driver''
      then phase04_driver_init_profile route target
      else if route = Mem \<or> route = Pinned then None
      else if target \<in> set INIT_TARGETS
        then Some (launch_profile_new (boot_ceiling target) ''init-launch-edge'' True)
      else map_option (\<lambda>c. launch_profile_new c ''init-autoload-edge'' True)
             (reviewed_user_target_ceiling feat target))"

definition cellbox_profile :: "launch_features \<Rightarrow> launch_route \<Rightarrow> string \<Rightarrow> launch_profile option" where
  "cellbox_profile feat route target =
     map_option (\<lambda>c. launch_profile_new c ''cellbox-launch-edge'' False)
       (if path_or_elf route \<and> target = ''/bin/hotswap'' then Some LEGACY
        else if route = Path \<and> target = ''/bin/shutdown'' then Some LEGACY
        else if route = Path \<and> target = ''/bin/cellbox-ssh'' then Some SSH_CLIENT_EDGE
        else if route = Path \<and> target = ''/bin/kms-ssh-admin'' then Some KMS_SSH_ADMIN_EDGE
        else if path_or_elf route then reviewed_user_target_ceiling feat target
        else None)"

text \<open>\<open>desktop_profile\<close> and \<open>tool_spawn_profile\<close> differ only in their label.\<close>

definition reviewed_profile ::
    "string \<Rightarrow> launch_features \<Rightarrow> launch_route \<Rightarrow> string \<Rightarrow> launch_profile option" where
  "reviewed_profile label feat route target =
     map_option (\<lambda>c. launch_profile_new c label False)
       (if path_or_elf route then reviewed_user_target_ceiling feat target else None)"

definition desktop_profile :: "launch_features \<Rightarrow> launch_route \<Rightarrow> string \<Rightarrow> launch_profile option" where
  "desktop_profile = reviewed_profile ''desktop-launch-edge''"

definition tool_spawn_profile :: "launch_features \<Rightarrow> launch_route \<Rightarrow> string \<Rightarrow> launch_profile option" where
  "tool_spawn_profile = reviewed_profile ''tool-spawn-launch-edge''"

definition hypha_profile :: "launch_features \<Rightarrow> launch_route \<Rightarrow> string \<Rightarrow> launch_profile option" where
  "hypha_profile feat route target =
     (if \<not> path_or_elf route then None
      else map_option (\<lambda>c. launch_profile_new c ''hypha-launch-edge'' False)
        (if target = ''/bin/llm-gateway'' then reviewed_user_target_ceiling feat target
         else if target \<in> set [''/bin/tool-fs'', ''/bin/tool-sys''] then Some LEGACY
         else if target = ''/bin/tool-spawn'' then Some (LEGACY\<lparr>cs_spawn := True\<rparr>)
         else None))"

text \<open>The edges to a fixed set of capability-free children, on the path and ELF routes.\<close>

definition worker_profile ::
    "string list \<Rightarrow> string \<Rightarrow> bool \<Rightarrow> launch_route \<Rightarrow> string \<Rightarrow> launch_profile option" where
  "worker_profile targets label lifecycle route target =
     (if \<not> path_or_elf route \<or> target \<notin> set targets then None
      else Some (launch_profile_new LEGACY label lifecycle))"

definition dwc2_function_worker_profile :: "launch_route \<Rightarrow> string \<Rightarrow> launch_profile option" where
  "dwc2_function_worker_profile = worker_profile [''/bin/lan9514''] ''dwc2-function-worker-edge'' True"

definition pipe_test_profile :: "launch_route \<Rightarrow> string \<Rightarrow> launch_profile option" where
  "pipe_test_profile = worker_profile [''/bin/pipe-peer''] ''pipe-test-peer-edge'' False"

definition c_spawn_profile :: "launch_route \<Rightarrow> string \<Rightarrow> launch_profile option" where
  "c_spawn_profile = worker_profile [''/bin/c-spawn-child''] ''c-spawn-child-edge'' False"

definition backend_supervisor_profile :: "launch_route \<Rightarrow> string \<Rightarrow> launch_profile option" where
  "backend_supervisor_profile =
     worker_profile [''/bin/backend-worker''] ''backend-supervisor-worker-edge'' True"

definition render_worker_profile :: "launch_route \<Rightarrow> string \<Rightarrow> launch_profile option" where
  "render_worker_profile =
     worker_profile [''/bin/c2c-render-worker'', ''/bin/c2c-render-domain-worker'']
       ''c2c-render-worker-edge'' True"

definition terminal_profile :: "launch_route \<Rightarrow> string \<Rightarrow> launch_profile option" where
  "terminal_profile route target =
     (if route \<noteq> Path \<or> target \<noteq> ''/bin/cellbox'' then None
      else Some (launch_profile_new SHELL_EDGE ''terminal-shell-edge'' False))"

definition phase04_driver_launch_profile :: "launch_route \<Rightarrow> string \<Rightarrow> launch_profile option" where
  "phase04_driver_launch_profile route target =
     (if route \<noteq> Path then None
      else if target = ''/bin/cellbox''
        then Some (launch_profile_new SHELL_EDGE ''phase04-driver-shell-edge'' False)
      else if target = ''/bin/echo''
        then Some (launch_profile_new LEGACY ''phase04-driver-output-probe-edge'' False)
      else None)"

definition phase02_session_profile ::
    "string \<Rightarrow> launch_route \<Rightarrow> string \<Rightarrow> launch_profile option" where
  "phase02_session_profile caller route target =
     (let approved =
        (if caller = ''cellbox'' then target = ''/bin/phase02-session-parent''
         else if caller \<in> set [''phase02-session-parent'', ''phase02-session-child'']
           then target = ''/bin/phase02-session-child''
         else False)
      in if \<not> approved \<or> route \<noteq> Path then None
         else Some (launch_profile_new LEGACY ''phase02-session-fixture-edge'' False))"

definition phase03_filter_launch_profile :: "launch_route \<Rightarrow> string \<Rightarrow> launch_profile option" where
  "phase03_filter_launch_profile route target =
     (if route \<noteq> Path \<or> target \<noteq> ''/bin/p03-filter'' then None
      else Some (launch_profile_new LEGACY ''phase03-filter-fixture-edge'' False))"

definition supervisor_profile :: "launch_features \<Rightarrow> launch_route \<Rightarrow> string \<Rightarrow> launch_profile option" where
  "supervisor_profile feat route target =
     (if \<not> path_or_elf route \<or> \<not> starts_with target ''/bin/'' then None
      else map_option (\<lambda>c. launch_profile_new c ''supervisor-hotswap-edge'' True)
        (case boot_lookup target of
           Some c \<Rightarrow> Some c
         | None \<Rightarrow> reviewed_user_target_ceiling feat target))"

definition pinned_profile :: "string \<Rightarrow> launch_route \<Rightarrow> string \<Rightarrow> launch_profile option" where
  "pinned_profile caller_name route target =
     (if route \<noteq> Pinned then None
      else map_option (\<lambda>c. launch_profile_new c ''pinned-launch-edge'' False)
        (if (caller_name, target) \<in> set [(''bench'', ''/bin/bench-probe''),
              (''capacity-probe'', ''/bin/bench-probe'')] then Some LEGACY
         else if (caller_name, target) = (''capacity-probe'', ''/bin/heavy-probe'') then Some LEGACY
         else if (caller_name, target) = (''periph-demo'', ''/bin/periph-demo'')
           then Some (LEGACY\<lparr>cs_mmio_devices := CONSOLE_MMIO\<rparr>)
         else None))"

text \<open>The \<open>match\<close> on the caller's name.\<close>

definition caller_profile ::
    "launch_features \<Rightarrow> caller_launch_state \<Rightarrow> launch_route \<Rightarrow> string \<Rightarrow> launch_profile option" where
  "caller_profile feat caller route target =
     (let name = cl_name caller; spawn = cl_has_spawn caller in
      if name = ''init'' \<and> spawn then init_profile feat route target
      else if phase02_terminal_profile feat
           \<and> name \<in> set [''phase02-session-parent'', ''phase02-session-child'']
        then phase02_session_profile name route target
      else if name = ''cellbox'' then
        (if phase02_terminal_profile feat \<and> target = ''/bin/phase02-session-parent''
           then phase02_session_profile name route target
         else if phase03_filter_profile feat \<and> target = ''/bin/p03-filter''
           then phase03_filter_launch_profile route target
         else cellbox_profile feat route target)
      else if name = ''terminal'' then terminal_profile route target
      else if phase04_driver_profile feat \<and> name = ''phase04-terminal-driver''
        then phase04_driver_launch_profile route target
      else if name = ''desktop'' then desktop_profile feat route target
      else if name = ''pipe-test'' then pipe_test_profile route target
      else if name = ''c-spawn'' then c_spawn_profile route target
      else if name = ''hypha'' \<and> spawn then hypha_profile feat route target
      else if name = ''tool-spawn'' \<and> spawn then tool_spawn_profile feat route target
      else if name = ''dwc2-usb'' \<and> spawn then dwc2_function_worker_profile route target
      else if name = ''backend-supervisor'' \<and> spawn then backend_supervisor_profile route target
      else if name = ''c2c-render'' \<and> spawn then render_worker_profile route target
      else if name = ''supervisor'' \<and> spawn \<and> cl_has_supervisor caller
        then supervisor_profile feat route target
      else if name \<in> set [''bench'', ''capacity-probe''] \<and> spawn then pinned_profile name route target
      else if name = ''periph-demo'' then pinned_profile name route target
      else None)"

definition authorize ::
    "launch_features \<Rightarrow> caller_launch_state \<Rightarrow> launch_route \<Rightarrow> string \<Rightarrow> launch_profile option" where
  "authorize feat caller route target =
     (case caller_profile feat caller route target of
        None \<Rightarrow> None
      | Some profile \<Rightarrow>
          if route = Elf
             \<and> without_observe_mutate (child_ceiling profile) \<noteq> CAPSET_EMPTY
             \<and> \<not> requires_lifecycle_authority profile
          then None
          else Some profile)"

section \<open>Rights the tables can convey\<close>

text \<open>
  No KMS right; none of the rights only a trusted launcher conveys (PCIe, platform, supervisor, serial
  and raw block storage); no device authority (USB, hypervisor, memory-mapped devices), which reviewed
  user targets may also carry.
\<close>

definition kms_free :: "capset \<Rightarrow> bool" where
  "kms_free c \<longleftrightarrow> \<not> cs_kms_ssh_sign c \<and> \<not> cs_kms_ssh_admin c"

definition trusted_rights_free :: "capset \<Rightarrow> bool" where
  "trusted_rights_free c \<longleftrightarrow>
     \<not> cs_pcie_driver c \<and> \<not> cs_platform c \<and> \<not> cs_supervisor c \<and> \<not> cs_serial_port c
     \<and> \<not> cs_block_io c \<and> cs_block_regions c = 0"

definition device_free :: "capset \<Rightarrow> bool" where
  "device_free c \<longleftrightarrow> \<not> cs_usb_driver c \<and> \<not> cs_hypervisor c \<and> cs_mmio_devices c = 0"

lemmas ceiling_defs = LEGACY_OBSERVE_MUTATE_def CAPSET_EMPTY_def INIT_CEILING_def NET_CLIENT_def
  NET_LISTENER_def NET_PEER_def console_mmio_capset_def gpio_mmio_capset_def sensor_mmio_capset_def
  spi_demo_mmio_capset_def SHELL_EDGE_def SSH_CLIENT_EDGE_def KMS_SSH_ADMIN_EDGE_def

lemma row_Some_iff: "(if b then Some x else y) = Some c \<longleftrightarrow> b \<and> x = c \<or> \<not> b \<and> y = Some c"
  by simp

lemma boot_lookup_kms_free: "boot_lookup path = Some c \<Longrightarrow> kms_free c"
  unfolding boot_lookup_def row_Some_iff
  by (elim disjE conjE; hypsubst?; simp (no_asm_use) add: kms_free_def ceiling_defs)

lemma boot_ceiling_kms_free: "kms_free (boot_ceiling path)"
proof (cases "boot_lookup path")
  case None
  then show ?thesis by (simp add: boot_ceiling_def kms_free_def CAPSET_EMPTY_def)
next
  case (Some c)
  then show ?thesis using boot_lookup_kms_free by (simp add: boot_ceiling_def)
qed

lemma reviewed_free:
  "reviewed_user_target_ceiling feat target = Some c \<Longrightarrow> kms_free c \<and> trusted_rights_free c"
  unfolding reviewed_user_target_ceiling_def row_Some_iff
  by (elim disjE conjE; hypsubst?; simp (no_asm_use) add: kms_free_def trusted_rights_free_def ceiling_defs)

text \<open>The reviewed user targets with device authority, and that there are no others.\<close>

definition REVIEWED_MMIO_TARGETS :: "string list" where
  "REVIEWED_MMIO_TARGETS =
     [''/bin/periph-demo'', ''/bin/periph-test'', ''/bin/pwm-demo'', ''/bin/sensor-demo'', ''/bin/spi-demo'',
      ''/bin/robot-demo'']"

lemma reviewed_device_only:
  assumes "reviewed_user_target_ceiling feat target = Some c"
  shows "cs_usb_driver c \<longrightarrow> target = ''/bin/dwc2-usb''"
    and "cs_hypervisor c \<longrightarrow> target = ''/bin/hypervisor''"
    and "cs_mmio_devices c \<noteq> 0 \<longrightarrow> target \<in> set REVIEWED_MMIO_TARGETS"
  using assms unfolding reviewed_user_target_ceiling_def row_Some_iff
  by - (elim disjE conjE; hypsubst?; (simp (no_asm) add: ceiling_defs REVIEWED_MMIO_TARGETS_def; fail)?;
      simp add: ceiling_defs REVIEWED_MMIO_TARGETS_def)+

lemma reviewed_device_rows:
  "reviewed_user_target_ceiling feat ''/bin/dwc2-usb'' = Some c \<Longrightarrow> cs_usb_driver c"
  "reviewed_user_target_ceiling feat ''/bin/hypervisor'' = Some c \<Longrightarrow> cs_hypervisor c"
  by (auto simp: reviewed_user_target_ceiling_def ceiling_defs REVIEWED_LEGACY_TARGETS_def REVIEWED_NET_CLIENTS_def)

lemma reviewed_mmio_rows:
  assumes "reviewed_user_target_ceiling feat target = Some c" "target \<in> set REVIEWED_MMIO_TARGETS"
  shows "cs_mmio_devices c \<noteq> 0"
  using assms(2,1) unfolding REVIEWED_MMIO_TARGETS_def set_simps insert_iff empty_iff
  by (elim disjE FalseE; hypsubst; auto simp: reviewed_user_target_ceiling_def ceiling_defs REVIEWED_LEGACY_TARGETS_def
      REVIEWED_NET_CLIENTS_def REVIEWED_SPAWNERS_def CONSOLE_MMIO_def DEV_GPIO_def DEV_UART_def DEV_I2C_def DEV_SPI_def)

lemma reviewed_device:
  assumes "reviewed_user_target_ceiling feat target = Some c"
  shows "cs_usb_driver c \<longleftrightarrow> target = ''/bin/dwc2-usb''"
    and "cs_hypervisor c \<longleftrightarrow> target = ''/bin/hypervisor''"
    and "cs_mmio_devices c \<noteq> 0 \<longleftrightarrow> target \<in> set REVIEWED_MMIO_TARGETS"
proof -
  note only = reviewed_device_only [OF assms]
  show "cs_usb_driver c \<longleftrightarrow> target = ''/bin/dwc2-usb''"
    using only(1) reviewed_device_rows(1) [of feat c] assms by (intro iffI) simp_all
  show "cs_hypervisor c \<longleftrightarrow> target = ''/bin/hypervisor''"
    using only(2) reviewed_device_rows(2) [of feat c] assms by (intro iffI) simp_all
  show "cs_mmio_devices c \<noteq> 0 \<longleftrightarrow> target \<in> set REVIEWED_MMIO_TARGETS"
    using only(3) reviewed_mmio_rows [OF assms] by (intro iffI) simp_all
qed

lemma legacy_free: "kms_free LEGACY" "trusted_rights_free LEGACY" "kms_free SHELL_EDGE" "trusted_rights_free SHELL_EDGE"
    "kms_free (LEGACY\<lparr>cs_spawn := b\<rparr>)" "trusted_rights_free (LEGACY\<lparr>cs_spawn := b\<rparr>)"
    "kms_free (LEGACY\<lparr>cs_mmio_devices := d\<rparr>)" "trusted_rights_free (LEGACY\<lparr>cs_mmio_devices := d\<rparr>)"
    "trusted_rights_free SSH_CLIENT_EDGE" "trusted_rights_free KMS_SSH_ADMIN_EDGE"
  by (simp_all add: kms_free_def trusted_rights_free_def ceiling_defs)

lemma child_ceiling_new [simp]: "child_ceiling (launch_profile_new c l r) = c"
    "requires_lifecycle_authority (launch_profile_new c l r) = r"
  by (simp_all add: launch_profile_new_def)

lemmas fixed_profile_defs = phase04_driver_init_profile_def hypha_profile_def worker_profile_def
  dwc2_function_worker_profile_def pipe_test_profile_def c_spawn_profile_def
  backend_supervisor_profile_def render_worker_profile_def terminal_profile_def
  phase04_driver_launch_profile_def phase02_session_profile_def phase03_filter_launch_profile_def
  pinned_profile_def reviewed_profile_def desktop_profile_def tool_spawn_profile_def

text \<open>The edges whose children are reviewed rows or fixed rows: no KMS right and no hardware authority.\<close>

lemma fixed_profiles_free:
  "phase04_driver_init_profile route target = Some p \<Longrightarrow> kms_free (child_ceiling p) \<and> trusted_rights_free (child_ceiling p)"
  "hypha_profile feat route target = Some p \<Longrightarrow> kms_free (child_ceiling p) \<and> trusted_rights_free (child_ceiling p)"
  "worker_profile ts l b route target = Some p \<Longrightarrow> kms_free (child_ceiling p) \<and> trusted_rights_free (child_ceiling p)"
  "terminal_profile route target = Some p \<Longrightarrow> kms_free (child_ceiling p) \<and> trusted_rights_free (child_ceiling p)"
  "phase04_driver_launch_profile route target = Some p \<Longrightarrow> kms_free (child_ceiling p) \<and> trusted_rights_free (child_ceiling p)"
  "phase02_session_profile caller route target = Some p \<Longrightarrow> kms_free (child_ceiling p) \<and> trusted_rights_free (child_ceiling p)"
  "phase03_filter_launch_profile route target = Some p \<Longrightarrow> kms_free (child_ceiling p) \<and> trusted_rights_free (child_ceiling p)"
  "pinned_profile caller route target = Some p \<Longrightarrow> kms_free (child_ceiling p) \<and> trusted_rights_free (child_ceiling p)"
  "reviewed_profile l feat route target = Some p \<Longrightarrow> kms_free (child_ceiling p) \<and> trusted_rights_free (child_ceiling p)"
  by (auto simp: fixed_profile_defs legacy_free Let_def dest: reviewed_free split: if_split_asm)

lemma init_profile_kms_free: "init_profile feat route target = Some p \<Longrightarrow> kms_free (child_ceiling p)"
  by (auto simp: init_profile_def boot_ceiling_kms_free dest: fixed_profiles_free(1) reviewed_free
      split: if_split_asm)

lemma init_profile_lifecycle: "init_profile feat route target = Some p \<Longrightarrow> requires_lifecycle_authority p"
  by (auto simp: init_profile_def phase04_driver_init_profile_def split: if_split_asm)

lemma supervisor_profile_kms_free:
  "supervisor_profile feat route target = Some p \<Longrightarrow> kms_free (child_ceiling p)"
  by (auto simp: supervisor_profile_def dest: boot_lookup_kms_free reviewed_free
      split: if_split_asm option.splits)

lemma supervisor_profile_lifecycle:
  "supervisor_profile feat route target = Some p \<Longrightarrow> requires_lifecycle_authority p"
  by (auto simp: supervisor_profile_def split: if_split_asm option.splits)

lemma cellbox_profile_rows:
  assumes "cellbox_profile feat route target = Some p"
  shows "route = Path \<and> target = ''/bin/cellbox-ssh'' \<and> child_ceiling p = SSH_CLIENT_EDGE
    \<or> route = Path \<and> target = ''/bin/kms-ssh-admin'' \<and> child_ceiling p = KMS_SSH_ADMIN_EDGE
    \<or> \<not> (route = Path \<and> (target = ''/bin/cellbox-ssh'' \<or> target = ''/bin/kms-ssh-admin''))
       \<and> (child_ceiling p = LEGACY \<or> path_or_elf route \<and> reviewed_user_target_ceiling feat target = Some (child_ceiling p))"
  using assms unfolding cellbox_profile_def by (simp split: if_split_asm) auto

lemma cellbox_profile_kms:
  assumes "cellbox_profile feat route target = Some p"
  shows "cs_kms_ssh_sign (child_ceiling p) \<longleftrightarrow> route = Path \<and> target = ''/bin/cellbox-ssh''"
    and "cs_kms_ssh_admin (child_ceiling p) \<longleftrightarrow> route = Path \<and> target = ''/bin/kms-ssh-admin''"
    and "trusted_rights_free (child_ceiling p)"
proof -
  have ssh: "cs_kms_ssh_sign SSH_CLIENT_EDGE" "\<not> cs_kms_ssh_admin SSH_CLIENT_EDGE"
    and adm: "cs_kms_ssh_admin KMS_SSH_ADMIN_EDGE" "\<not> cs_kms_ssh_sign KMS_SSH_ADMIN_EDGE"
    by (simp_all add: ceiling_defs)
  have row: "kms_free c \<and> trusted_rights_free c" if "c = LEGACY \<or> path_or_elf route \<and> reviewed_user_target_ceiling feat target = Some c" for c
    using that reviewed_free [of feat target c] legacy_free(1,2) by (elim disjE conjE) simp_all
  from cellbox_profile_rows [OF assms] consider
      "route = Path" "target = ''/bin/cellbox-ssh''" "child_ceiling p = SSH_CLIENT_EDGE"
    | "route = Path" "target = ''/bin/kms-ssh-admin''" "child_ceiling p = KMS_SSH_ADMIN_EDGE"
    | "\<not> (route = Path \<and> (target = ''/bin/cellbox-ssh'' \<or> target = ''/bin/kms-ssh-admin''))"
      "kms_free (child_ceiling p)" "trusted_rights_free (child_ceiling p)"
    by (elim disjE conjE) (use row [of "child_ceiling p"] in simp_all)
  then have "(cs_kms_ssh_sign (child_ceiling p) \<longleftrightarrow> route = Path \<and> target = ''/bin/cellbox-ssh'')
    \<and> (cs_kms_ssh_admin (child_ceiling p) \<longleftrightarrow> route = Path \<and> target = ''/bin/kms-ssh-admin'')
    \<and> trusted_rights_free (child_ceiling p)"
    by cases (simp_all add: ssh adm legacy_free kms_free_def)
  then show "cs_kms_ssh_sign (child_ceiling p) \<longleftrightarrow> route = Path \<and> target = ''/bin/cellbox-ssh''"
    and "cs_kms_ssh_admin (child_ceiling p) \<longleftrightarrow> route = Path \<and> target = ''/bin/kms-ssh-admin''"
    and "trusted_rights_free (child_ceiling p)" by blast+
qed

section \<open>Authorized edges\<close>

lemma arm_Some_iff: "(if b then x else y) = Some c \<longleftrightarrow> b \<and> x = Some c \<or> \<not> b \<and> y = Some c"
  by simp

lemmas worker_edge_defs = desktop_profile_def tool_spawn_profile_def dwc2_function_worker_profile_def
  pipe_test_profile_def c_spawn_profile_def backend_supervisor_profile_def render_worker_profile_def

lemma caller_profile_kms:
  assumes "caller_profile feat caller route target = Some p"
  shows "kms_free (child_ceiling p) \<or> cl_name caller = ''cellbox'' \<and> cellbox_profile feat route target = Some p"
  using assms unfolding caller_profile_def Let_def worker_edge_defs arm_Some_iff
  by - (elim disjE conjE;
      (drule fixed_profiles_free init_profile_kms_free supervisor_profile_kms_free)?;
      blast | simp)

lemma caller_profile_trusted:
  assumes "caller_profile feat caller route target = Some p" "\<not> trusted_rights_free (child_ceiling p)"
  shows "requires_lifecycle_authority p \<and> cl_has_spawn caller
    \<and> (cl_name caller = ''init'' \<or> cl_name caller = ''supervisor'' \<and> cl_has_supervisor caller)"
  using assms unfolding caller_profile_def Let_def worker_edge_defs arm_Some_iff
  by - (elim disjE conjE;
      (drule fixed_profiles_free cellbox_profile_kms(3) init_profile_lifecycle supervisor_profile_lifecycle)?;
      blast | simp)

text \<open>
  A profile with device authority is an edge of a trusted launcher, a reviewed row of one of the three
  callers that start user targets, or the pinned edge of \<open>periph-demo\<close>.
\<close>

definition trusted_edge :: "caller_launch_state \<Rightarrow> launch_profile \<Rightarrow> bool" where
  "trusted_edge caller p \<longleftrightarrow> requires_lifecycle_authority p \<and> cl_has_spawn caller
     \<and> (cl_name caller = ''init'' \<or> cl_name caller = ''supervisor'' \<and> cl_has_supervisor caller)"

definition user_launcher :: "caller_launch_state \<Rightarrow> bool" where
  "user_launcher caller \<longleftrightarrow> cl_name caller \<in> set [''cellbox'', ''desktop'', ''tool-spawn'']"

lemma device_free_rows [simp]: "device_free LEGACY" "device_free SHELL_EDGE" "device_free SSH_CLIENT_EDGE"
    "device_free KMS_SSH_ADMIN_EDGE" "device_free (LEGACY\<lparr>cs_spawn := b\<rparr>)"
  by (simp_all add: device_free_def ceiling_defs)

lemma worker_device:
  "worker_profile ts l b route target = Some p \<Longrightarrow> device_free (child_ceiling p)"
  "terminal_profile route target = Some p \<Longrightarrow> device_free (child_ceiling p)"
  "phase04_driver_launch_profile route target = Some p \<Longrightarrow> device_free (child_ceiling p)"
  "phase02_session_profile caller route target = Some p \<Longrightarrow> device_free (child_ceiling p)"
  "phase03_filter_launch_profile route target = Some p \<Longrightarrow> device_free (child_ceiling p)"
  by (auto simp: fixed_profile_defs Let_def split: if_split_asm)

lemma hypha_device:
  assumes "hypha_profile feat route target = Some p"
  shows "device_free (child_ceiling p)"
proof -
  from assms consider "child_ceiling p = LEGACY" | b where "child_ceiling p = LEGACY\<lparr>cs_spawn := b\<rparr>"
    | "target = ''/bin/llm-gateway''" "reviewed_user_target_ceiling feat target = Some (child_ceiling p)"
    by (auto simp: hypha_profile_def split: if_split_asm)
  then show ?thesis
  proof cases
    case 3
    then show ?thesis using reviewed_device [OF 3(2)] by (simp add: device_free_def REVIEWED_MMIO_TARGETS_def)
  qed simp_all
qed

lemma pinned_device:
  assumes "pinned_profile caller route target = Some p"
  shows "device_free (child_ceiling p) \<or> route = Pinned \<and> caller = ''periph-demo'' \<and> target = ''/bin/periph-demo'' \<and> child_ceiling p = console_mmio_capset"
  using assms by (auto simp: pinned_profile_def console_mmio_capset_def split: if_split_asm)

lemma cellbox_device:
  assumes "cellbox_profile feat route target = Some p"
  shows "device_free (child_ceiling p) \<or> path_or_elf route \<and> reviewed_user_target_ceiling feat target = Some (child_ceiling p)"
  using cellbox_profile_rows [OF assms] by (elim disjE conjE) simp_all

lemma reviewed_profile_device:
  "reviewed_profile l feat route target = Some p \<Longrightarrow>
   path_or_elf route \<and> reviewed_user_target_ceiling feat target = Some (child_ceiling p)"
  by (auto simp: reviewed_profile_def split: if_split_asm)

lemma caller_profile_device:
  assumes "caller_profile feat caller route target = Some p" "\<not> device_free (child_ceiling p)"
  shows "trusted_edge caller p
    \<or> user_launcher caller \<and> path_or_elf route \<and> reviewed_user_target_ceiling feat target = Some (child_ceiling p)
    \<or> route = Pinned \<and> cl_name caller = ''periph-demo'' \<and> target = ''/bin/periph-demo''
       \<and> child_ceiling p = console_mmio_capset"
  using assms unfolding caller_profile_def Let_def worker_edge_defs arm_Some_iff trusted_edge_def user_launcher_def
  by - (elim disjE conjE;
      (drule worker_device hypha_device pinned_device cellbox_device reviewed_profile_device
        init_profile_lifecycle supervisor_profile_lifecycle)?;
      simp)

lemma authorize_SomeD:
  assumes "authorize feat caller route target = Some p"
  shows "caller_profile feat caller route target = Some p"
    and "route = Elf \<Longrightarrow> \<not> requires_lifecycle_authority p \<Longrightarrow>
         without_observe_mutate (child_ceiling p) = CAPSET_EMPTY"
  using assms by (auto simp: authorize_def split: option.splits if_split_asm)

lemma caller_profile_kms_exact:
  assumes "caller_profile feat caller route target = Some p"
  shows "(cs_kms_ssh_sign (child_ceiling p) \<longleftrightarrow>
        cl_name caller = ''cellbox'' \<and> route = Path \<and> target = ''/bin/cellbox-ssh'')
    \<and> (cs_kms_ssh_admin (child_ceiling p) \<longleftrightarrow>
        cl_name caller = ''cellbox'' \<and> route = Path \<and> target = ''/bin/kms-ssh-admin'')"
proof (cases "cl_name caller = ''cellbox'' \<and> cellbox_profile feat route target = Some p")
  case True
  then show ?thesis using cellbox_profile_kms by blast
next
  case False
  then have "kms_free (child_ceiling p)" using caller_profile_kms [OF assms] by blast
  moreover have "cellbox_profile feat route target = Some p"
    if "cl_name caller = ''cellbox''" "target = ''/bin/cellbox-ssh'' \<or> target = ''/bin/kms-ssh-admin''"
    using assms that by (auto simp: caller_profile_def Let_def)
  ultimately show ?thesis using False by (auto simp: kms_free_def)
qed

text \<open>An authorized reviewed row with device authority was not caller-supplied ELF bytes.\<close>

lemma authorize_not_elf:
  assumes "authorize feat caller Elf target = Some p" "\<not> device_free (child_ceiling p)"
  shows "requires_lifecycle_authority p"
proof (rule ccontr)
  assume "\<not> requires_lifecycle_authority p"
  then have "without_observe_mutate (child_ceiling p) = CAPSET_EMPTY" using authorize_SomeD(2) [OF assms(1)] by simp
  then have "cs_usb_driver (without_observe_mutate (child_ceiling p)) = cs_usb_driver CAPSET_EMPTY"
    "cs_hypervisor (without_observe_mutate (child_ceiling p)) = cs_hypervisor CAPSET_EMPTY"
    "cs_mmio_devices (without_observe_mutate (child_ceiling p)) = cs_mmio_devices CAPSET_EMPTY" by simp_all
  then show False using assms(2) by (simp add: device_free_def without_observe_mutate_def CAPSET_EMPTY_def)
qed

text \<open>The callers that start user targets start the reviewed device targets from their rows.\<close>

lemma user_launcher_rows:
  assumes "caller_profile feat caller Path target = Some p" "user_launcher caller"
    and "target = ''/bin/dwc2-usb'' \<or> target = ''/bin/hypervisor'' \<or> target \<in> set REVIEWED_MMIO_TARGETS"
  shows "reviewed_user_target_ceiling feat target = Some (child_ceiling p)"
proof -
  have t: "target \<noteq> ''/bin/phase02-session-parent'' \<and> target \<noteq> ''/bin/p03-filter'' \<and> target \<noteq> ''/bin/hotswap''
      \<and> target \<noteq> ''/bin/shutdown'' \<and> target \<noteq> ''/bin/cellbox-ssh'' \<and> target \<noteq> ''/bin/kms-ssh-admin''"
    using assms(3) by (auto simp: REVIEWED_MMIO_TARGETS_def)
  from assms(2) consider "cl_name caller = ''cellbox''" | "cl_name caller = ''desktop''" | "cl_name caller = ''tool-spawn''"
    by (auto simp: user_launcher_def)
  then show ?thesis
    using assms(1) t
    by cases (auto simp: caller_profile_def Let_def cellbox_profile_def desktop_profile_def tool_spawn_profile_def
      reviewed_profile_def path_or_elf_def split: if_split_asm)
qed

lemma user_launcher_lifecycle:
  assumes "caller_profile feat caller route target = Some p" "user_launcher caller"
  shows "\<not> requires_lifecycle_authority p"
proof -
  from assms(2) consider "cl_name caller = ''cellbox''" | "cl_name caller = ''desktop''" | "cl_name caller = ''tool-spawn''"
    by (auto simp: user_launcher_def)
  then show ?thesis
    using assms(1)
    by cases (auto simp: caller_profile_def Let_def cellbox_profile_def desktop_profile_def tool_spawn_profile_def
      reviewed_profile_def phase02_session_profile_def phase03_filter_launch_profile_def split: if_split_asm)
qed

lemma periph_pinned_row:
  "caller_profile feat caller Pinned ''/bin/periph-demo'' = Some p \<Longrightarrow> cl_name caller = ''periph-demo'' \<Longrightarrow>
   child_ceiling p = console_mmio_capset"
  by (auto simp: caller_profile_def Let_def pinned_profile_def console_mmio_capset_def)

lemma console_mmio_devices: "\<not> cs_usb_driver console_mmio_capset" "\<not> cs_hypervisor console_mmio_capset"
    "cs_mmio_devices console_mmio_capset \<noteq> 0"
  by (simp_all add: ceiling_defs CONSOLE_MMIO_def DEV_GPIO_def DEV_UART_def)

lemma untrusted_device_edge:
  assumes "authorize feat caller route target = Some p" "\<not> trusted_edge caller p" "\<not> device_free (child_ceiling p)"
  shows "user_launcher caller \<and> route = Path \<and> reviewed_user_target_ceiling feat target = Some (child_ceiling p)
    \<or> cl_name caller = ''periph-demo'' \<and> route = Pinned \<and> target = ''/bin/periph-demo''
      \<and> child_ceiling p = console_mmio_capset"
proof -
  note c = authorize_SomeD(1) [OF assms(1)]
  have "route \<noteq> Elf" if "user_launcher caller"
    using authorize_not_elf [OF _ assms(3)] user_launcher_lifecycle [OF c that] assms(1) by blast
  then show ?thesis using caller_profile_device [OF c assms(3)] assms(2) unfolding path_or_elf_def by blast
qed

lemma authorize_device:
  assumes "authorize feat caller route target = Some p" "\<not> trusted_edge caller p"
  shows "cs_usb_driver (child_ceiling p) \<longleftrightarrow> user_launcher caller \<and> route = Path \<and> target = ''/bin/dwc2-usb''"
    and "cs_hypervisor (child_ceiling p) \<longleftrightarrow> user_launcher caller \<and> route = Path \<and> target = ''/bin/hypervisor''"
    and "cs_mmio_devices (child_ceiling p) \<noteq> 0 \<longleftrightarrow>
      user_launcher caller \<and> route = Path \<and> target \<in> set REVIEWED_MMIO_TARGETS
      \<or> cl_name caller = ''periph-demo'' \<and> route = Pinned \<and> target = ''/bin/periph-demo''"
proof -
  note c = authorize_SomeD(1) [OF assms(1)]
  let ?r = "reviewed_user_target_ceiling feat target = Some (child_ceiling p)"
  have row: ?r if "user_launcher caller" "route = Path"
    "target = ''/bin/dwc2-usb'' \<or> target = ''/bin/hypervisor'' \<or> target \<in> set REVIEWED_MMIO_TARGETS"
    using user_launcher_rows [OF c [unfolded that(2)] that(1,3)] .
  have edge: "user_launcher caller \<and> route = Path \<and> ?r
    \<or> cl_name caller = ''periph-demo'' \<and> route = Pinned \<and> target = ''/bin/periph-demo'' \<and> child_ceiling p = console_mmio_capset"
    if "cs_usb_driver (child_ceiling p) \<or> cs_hypervisor (child_ceiling p) \<or> cs_mmio_devices (child_ceiling p) \<noteq> 0"
    using untrusted_device_edge [OF assms] that by (simp add: device_free_def)
  show "cs_usb_driver (child_ceiling p) \<longleftrightarrow> user_launcher caller \<and> route = Path \<and> target = ''/bin/dwc2-usb''"
    by (rule iffI) (use edge row reviewed_device(1) [of feat target "child_ceiling p"] console_mmio_devices in auto)
  show "cs_hypervisor (child_ceiling p) \<longleftrightarrow> user_launcher caller \<and> route = Path \<and> target = ''/bin/hypervisor''"
    by (rule iffI) (use edge row reviewed_device(2) [of feat target "child_ceiling p"] console_mmio_devices in auto)
  show "cs_mmio_devices (child_ceiling p) \<noteq> 0 \<longleftrightarrow>
      user_launcher caller \<and> route = Path \<and> target \<in> set REVIEWED_MMIO_TARGETS
      \<or> cl_name caller = ''periph-demo'' \<and> route = Pinned \<and> target = ''/bin/periph-demo''" (is "?l \<longleftrightarrow> ?u \<or> ?d")
  proof
    assume ?l
    then show "?u \<or> ?d" using edge reviewed_device(3) [of feat target "child_ceiling p"] by auto
  next
    assume "?u \<or> ?d"
    then show ?l
    proof
      assume ?u
      then show ?l using row reviewed_device(3) [of feat target "child_ceiling p"] by blast
    next
      assume d: ?d
      then have "child_ceiling p = console_mmio_capset" using c periph_pinned_row [of feat caller p] by simp
      then show ?l using console_mmio_devices(3) by simp
    qed
  qed
qed

end
