(* ===== verification/Spawn_Grant.thy ===== *)
theory Spawn_Grant
  imports Elf_Sections Admission Launch_Profile
begin

text \<open>
  Governed spawn admission (\<open>kernel/src/loader/governed_spawn.rs\<close>): from the image bytes, the install
  path and the launch request to the authority the new task is created with.  The stages are the
  source's, in its order: manifest classification, signature gate, owner admission, the privilege
  rule for paths outside \<open>/bin/\<close>, the capability request and its three bounds (spawner ceiling, operator
  policy, mandatory VFS regions), the priority rule and the Platform reservation.

  Third-party code is a field of the environment: the Ed25519 check (\<open>se_verify\<close>) and the section
  lookup of the ELF crate (\<open>se_get_section\<close>).  The allocator's answers are \<open>se_can_align\<close> and
  \<open>se_can_reserve\<close>; the image digest is the function \<open>se_sha256\<close>, whose algorithm nothing here depends on.
\<close>

section \<open>Requests and environment\<close>

definition PRIORITY_NORMAL :: u8 where "PRIORITY_NORMAL = 1"
definition PRIORITY_REALTIME :: u8 where "PRIORITY_REALTIME = 2"

record caller_launch_authority =
  ca_tid :: usize
  ca_generation :: u64
  ca_ceiling :: capset

record spawn_request =
  sr_spawner :: spawner
  sr_caller :: "caller_launch_authority option"
  sr_priority :: u8
  sr_replacement :: "capset option"
  sr_inherit_from :: usize
  sr_argv :: "bytes option"

definition governed_boot :: spawn_request where
  "governed_boot =
     \<lparr>sr_spawner = Root, sr_caller = None, sr_priority = PRIORITY_NORMAL, sr_replacement = None,
      sr_inherit_from = 0, sr_argv = None\<rparr>"

definition with_argv :: "bytes \<Rightarrow> spawn_request \<Rightarrow> spawn_request" where
  "with_argv argv r = r\<lparr>sr_argv := Some argv\<rparr>"

definition governed_caller ::
    "usize \<Rightarrow> u64 \<Rightarrow> capset \<Rightarrow> capset \<Rightarrow> u8 \<Rightarrow> bytes option \<Rightarrow> spawn_request" where
  "governed_caller tid generation caller_authority ceiling priority argv =
     \<lparr>sr_spawner = Ceiling ceiling,
      sr_caller = Some \<lparr>ca_tid = tid, ca_generation = generation, ca_ceiling = caller_authority\<rparr>,
      sr_priority = priority, sr_replacement = None, sr_inherit_from = tid, sr_argv = argv\<rparr>"

text \<open>A replacement reservation is represented by its ceiling, the caps of the replaced cell.\<close>

definition governed_replacement ::
    "usize \<Rightarrow> u64 \<Rightarrow> capset \<Rightarrow> capset \<Rightarrow> capset \<Rightarrow> bytes option \<Rightarrow> spawn_request" where
  "governed_replacement tid generation caller_authority route_ceiling replacement argv =
     \<lparr>sr_spawner = Ceiling (intersect route_ceiling replacement),
      sr_caller = Some \<lparr>ca_tid = tid, ca_generation = generation, ca_ceiling = caller_authority\<rparr>,
      sr_priority = PRIORITY_NORMAL, sr_replacement = Some replacement, sr_inherit_from = tid,
      sr_argv = argv\<rparr>"

record spawn_env =
  se_features :: build_features
  se_browser_engine_profile :: bool
  se_x86_64 :: bool
  se_cpu :: cpu_features
  se_policy :: "policy_state option"
  se_admission :: admission_registry
  se_tasks :: "usize \<Rightarrow> task_caps option"
  se_next_tid :: usize
  se_platform_granted :: bool
  se_sha256 :: "bytes \<Rightarrow> bytes"
  se_verify :: "bytes \<Rightarrow> bytes \<Rightarrow> bytes \<Rightarrow> bool"
  se_signer_pubkey :: bytes
  se_get_section :: "bytes \<Rightarrow> string \<Rightarrow> bytes option"
  se_can_align :: "bytes \<Rightarrow> bool"
  se_can_reserve :: "usize \<Rightarrow> bool"

record launch_state =
  ls_caller :: "caller_launch_authority option"
  ls_granted :: capset
  ls_platform :: bool
  ls_replacement :: "capset option"
  ls_allowlist :: u64
  ls_cluster_mode :: u8
  ls_cluster_id :: u64
  ls_priority :: u8
  ls_pku_key :: u8
  ls_inherit_from :: usize
  ls_argv :: "bytes option"
  ls_path :: string
  ls_digest :: bytes
  ls_is_domain :: bool

section \<open>Stages\<close>

definition section_u64 :: "spawn_env \<Rightarrow> bytes \<Rightarrow> string \<Rightarrow> u64" where
  "section_u64 env elf name =
     (case se_get_section env elf name of
        None \<Rightarrow> - 1
      | Some bs \<Rightarrow>
          (case get_range bs 0 8 of None \<Rightarrow> - 1 | Some b8 \<Rightarrow> from_le_bytes b8))"

definition cluster :: "spawn_env \<Rightarrow> bytes \<Rightarrow> u8 \<times> u64" where
  "cluster env elf =
     (case se_get_section env elf ''__ViCell_cluster'' of
        None \<Rightarrow> (0, 0)
      | Some bs \<Rightarrow>
          if length bs \<ge> 16 then (bs ! 0, from_le_bytes (slice 8 16 bs)) else (0, 0))"

definition manifest_of :: "bytes \<Rightarrow> (unit + cell_manifest option)" where
  "manifest_of elf =
     (case classify elf of
        MAbsent \<Rightarrow> Ok None
      | MValid m _ \<Rightarrow> Ok (Some m)
      | MMalformed \<Rightarrow> Err ())"

text \<open>The signature gate: whether the image runs as an isolated domain, or the refusal.\<close>

definition signature_gate ::
    "spawn_env \<Rightarrow> cell_manifest option \<Rightarrow> bytes \<Rightarrow> (vi_error + bool) \<times> audit_event list" where
  "signature_gate env manifest elf =
     (case extract_sig elf of
        Some sig \<Rightarrow>
          (case verify_cell_with_key (se_verify env) (se_can_reserve env) elf sig (se_signer_pubkey env) of
             Ok True \<Rightarrow>
               (Ok (case manifest of
                      None \<Rightarrow> False
                    | Some m \<Rightarrow> protection_class m = PROTECTION_CLASS_FFI
                               \<or> protection_class m = PROTECTION_CLASS_UNTRUSTED),
                [CellSignatureVerified])
           | Ok False \<Rightarrow> (Err PermissionDenied, [CellSignatureFailed])
           | Err err \<Rightarrow> (Err err, [CellSpawnDenied 0 3]))
      | None \<Rightarrow>
          if se_browser_engine_profile env then (Err PermissionDenied, []) else (Ok True, []))"

definition ends_with :: "string \<Rightarrow> string \<Rightarrow> bool" where
  "ends_with s suf \<longleftrightarrow> starts_with (rev s) (rev suf)"

definition legacy_path_caps :: "string \<Rightarrow> capset" where
  "legacy_path_caps path =
     (let c = CAPSET_EMPTY in
      if starts_with path ''/bin/'' then
        let c = (if ends_with path ''/bin/vfs''
                 then c\<lparr>cs_block_io := True, cs_block_regions := 7\<rparr> else c);
            c = (if ends_with path ''/bin/net'' then c\<lparr>cs_network := True\<rparr> else c)
        in if ends_with path ''/bin/cellbox'' \<or> ends_with path ''/bin/init''
           then c\<lparr>cs_spawn := True\<rparr> else c
      else c)"

definition requested_caps :: "spawn_env \<Rightarrow> cell_manifest option \<Rightarrow> string \<Rightarrow> capset" where
  "requested_caps env manifest path =
     with_path_caps
       (case manifest of Some m \<Rightarrow> from_manifest (se_cpu env) m | None \<Rightarrow> legacy_path_caps path) path"

definition spawner_ceiling :: "spawn_env \<Rightarrow> spawner \<Rightarrow> string \<Rightarrow> capset" where
  "spawner_ceiling env spawner path =
     (case spawner of
        Root \<Rightarrow> boot_ceiling path
      | Ceiling ceiling \<Rightarrow> ceiling
      | User tid \<Rightarrow> (case se_tasks env tid of Some task \<Rightarrow> of_task task | None \<Rightarrow> CAPSET_EMPTY))"

definition bounded_caps :: "spawn_env \<Rightarrow> spawner \<Rightarrow> cell_manifest option \<Rightarrow> string \<Rightarrow> capset" where
  "bounded_caps env spawner manifest path =
     intersect (requested_caps env manifest path) (spawner_ceiling env spawner path)"

definition granted_caps ::
    "spawn_env \<Rightarrow> spawner \<Rightarrow> cell_manifest option \<Rightarrow> string \<Rightarrow> capset \<times> audit_event list" where
  "granted_caps env spawner manifest path =
     (let bounded = bounded_caps env spawner manifest path in
      if spawner = Root \<and> \<not> is_resolved (se_policy env) then (bounded, [])
      else policy_apply (se_features env) (se_policy env) path (of_nat (se_next_tid env)) bounded)"

section \<open>Admission\<close>

text \<open>
  The result is the refusal or the launch state, the audit records, and the Platform latch, which is
  the only kernel state this stage changes.  \<open>admit_granted\<close> is the part of \<open>prepare_gated\<close> that
  follows the capability computation.
\<close>

definition admit_granted ::
    "spawn_env \<Rightarrow> bytes \<Rightarrow> string \<Rightarrow> spawn_request \<Rightarrow> cell_manifest option \<Rightarrow> bool \<Rightarrow> capset
     \<Rightarrow> (vi_error + launch_state) \<times> bool" where
  "admit_granted env elf path request manifest is_domain granted =
     (let latch = se_platform_granted env; mode = fst (cluster env elf) in
      if path = ''/bin/vfs'' \<and> cs_block_regions granted \<noteq> 15 then (Err PermissionDenied, latch)
      else if sr_priority request > PRIORITY_REALTIME
              \<or> sr_priority request = PRIORITY_REALTIME \<and> mode \<noteq> 0
        then (Err PermissionDenied, latch)
      else if cs_platform granted \<and> fst (reserve_platform latch) = None
        then (Err PermissionDenied, latch)
      else
        (Ok \<lparr>ls_caller = sr_caller request,
             ls_granted = granted,
             ls_platform = cs_platform granted,
             ls_replacement = sr_replacement request,
             ls_allowlist = section_u64 env elf ''__ViCell_syscalls'',
             ls_cluster_mode = mode,
             ls_cluster_id = snd (cluster env elf),
             ls_priority = sr_priority request,
             ls_pku_key =
               (if se_x86_64 env
                then granted_protection_class granted
                       (case manifest of Some m \<Rightarrow> protection_class m
                                       | None \<Rightarrow> PROTECTION_CLASS_LEGACY)
                else 0),
             ls_inherit_from = sr_inherit_from request,
             ls_argv = sr_argv request,
             ls_path = path,
             ls_digest = se_sha256 env elf,
             ls_is_domain = is_domain\<rparr>,
         if cs_platform granted then snd (reserve_platform latch) else latch))"

definition overdeclares :: "string \<Rightarrow> cell_manifest option \<Rightarrow> bool" where
  "overdeclares path manifest \<longleftrightarrow>
     (case manifest of
        None \<Rightarrow> False
      | Some m \<Rightarrow> \<not> starts_with path ''/bin/'' \<and> declares_any_privilege m)"

definition prepare_gated ::
    "spawn_env \<Rightarrow> bytes \<Rightarrow> string \<Rightarrow> spawn_request
     \<Rightarrow> (vi_error + launch_state) \<times> audit_event list \<times> bool" where
  "prepare_gated env elf path request =
     (let latch = se_platform_granted env in
      if \<not> se_can_align env elf then (Err OutOfMemory, [], latch)
      else case manifest_of elf of
        Err _ \<Rightarrow> (Err PermissionDenied, [CellSpawnDenied 0 1], latch)
      | Ok manifest \<Rightarrow>
          (case signature_gate env manifest elf of
             (Err e, log) \<Rightarrow> (Err e, log, latch)
           | (Ok is_domain, log) \<Rightarrow>
               (case check_admission (se_admission env) (se_sha256 env elf) of
                  Err e \<Rightarrow> (Err e, log @ [CellSpawnDenied 0 2], latch)
                | Ok _ \<Rightarrow>
                    if overdeclares path manifest
                    then (Err PermissionDenied,
                          log @ [CellSpawnDenied (ucast (mf_flags (the manifest))) 0], latch)
                    else
                      let (granted, log') = granted_caps env (sr_spawner request) manifest path;
                          (result, latch') =
                            admit_granted env elf path request manifest is_domain granted
                      in (result, log @ log', latch'))))"

section \<open>Entry points\<close>

text \<open>
  The three ways a launch state is made: the governed spawn of given bytes, the governed spawn of a path
  whose bytes are read once (\<open>read_file\<close> is the early loader's file read), and the trusted spawn of the
  image linked into the kernel as \<open>init\<close>, which passes no gate.
\<close>

definition prepare_session_path ::
    "(string \<Rightarrow> vi_error + bytes) \<Rightarrow> spawn_env \<Rightarrow> string \<Rightarrow> spawn_request
     \<Rightarrow> (vi_error + launch_state) \<times> audit_event list \<times> bool" where
  "prepare_session_path read_file env path request =
     (if path = [] \<or> \<not> starts_with path ''/'' \<or> 4096 < length path \<or> CHR 0x00 \<in> set path
      then (Err InvalidInput, [], se_platform_granted env)
      else case read_file path of
        Err e \<Rightarrow> (Err e, [], se_platform_granted env)
      | Ok elf \<Rightarrow> prepare_gated env elf path request)"

definition spawn_init :: "spawn_env \<Rightarrow> bytes \<Rightarrow> launch_state" where
  "spawn_init env elf =
     \<lparr>ls_caller = None,
      ls_granted = boot_ceiling ''/bin/init'',
      ls_platform = False,
      ls_replacement = None,
      ls_allowlist = - 1,
      ls_cluster_mode = 0,
      ls_cluster_id = 0,
      ls_priority = PRIORITY_NORMAL,
      ls_pku_key = 0,
      ls_inherit_from = 0,
      ls_argv = None,
      ls_path = ''/bin/init'',
      ls_digest = se_sha256 env elf,
      ls_is_domain = False\<rparr>"

datatype launch =
    LaunchGated bytes string spawn_request
  | LaunchSession string spawn_request
  | LaunchInit bytes

fun launch_prepare ::
    "(string \<Rightarrow> vi_error + bytes) \<Rightarrow> spawn_env \<Rightarrow> launch
     \<Rightarrow> (vi_error + launch_state) \<times> audit_event list \<times> bool" where
  "launch_prepare read_file env (LaunchGated elf path request) = prepare_gated env elf path request"
| "launch_prepare read_file env (LaunchSession path request) = prepare_session_path read_file env path request"
| "launch_prepare read_file env (LaunchInit elf) = (Ok (spawn_init env elf), [], se_platform_granted env)"

text \<open>Every launch but the trusted one goes through the gates, on the bytes that are measured.\<close>

lemma launch_prepare_gated:
  assumes "launch_prepare read_file env l = (Ok ls, log, latch)"
  obtains elf where "l = LaunchInit elf" "ls = spawn_init env elf" "latch = se_platform_granted env"
  | elf path request where "prepare_gated env elf path request = (Ok ls, log, latch)"
      "l = LaunchGated elf path request \<or> l = LaunchSession path request \<and> read_file path = Ok elf"
proof (cases l)
  case (LaunchGated elf path request)
  with assms that(2) show thesis by simp
next
  case (LaunchSession path request)
  with assms obtain elf where "read_file path = Ok elf" "prepare_gated env elf path request = (Ok ls, log, latch)"
    by (auto simp: prepare_session_path_def split: if_split_asm sum.splits)
  with LaunchSession that(2) show thesis by blast
next
  case (LaunchInit elf)
  with assms that(1) show thesis by simp
qed

section \<open>Bounds of a grant\<close>

lemma bounded_le: "cap_le (bounded_caps env sp m path) (requested_caps env m path)"
    "cap_le (bounded_caps env sp m path) (spawner_ceiling env sp path)"
  by (simp_all add: bounded_caps_def intersect_le1 intersect_le2)

lemma granted_le_bounded: "cap_le (fst (granted_caps env sp m path)) (bounded_caps env sp m path)"
  by (simp add: granted_caps_def Let_def policy_apply_le)

lemma granted_le_requested: "cap_le (fst (granted_caps env sp m path)) (requested_caps env m path)"
  by (rule cap_le_trans [OF granted_le_bounded bounded_le(1)])

lemma granted_le_ceiling: "cap_le (fst (granted_caps env sp m path)) (spawner_ceiling env sp path)"
  by (rule cap_le_trans [OF granted_le_bounded bounded_le(2)])

lemma granted_le_policy:
  assumes "policy_lookup (se_policy env) path = Permit p"
    and "\<not> (maintenance_mode (se_features env) \<and> maintenance_permitted (se_policy env))"
  shows "cap_le (fst (granted_caps env sp m path)) p"
proof -
  have "is_resolved (se_policy env)"
    using assms(1) by (cases "se_policy env") (simp_all add: is_resolved_def policy_lookup_def)
  then show ?thesis
    using policy_apply_Permit [OF assms] by (simp add: granted_caps_def Let_def intersect_le2)
qed

section \<open>What a path can request\<close>

lemma starts_with_Cons: "starts_with (c # s) (d # pre) \<longleftrightarrow> c = d \<and> starts_with s pre"
  by (auto simp: starts_with_def)

lemma starts_with_Nil [simp]: "starts_with s []"
  by (simp add: starts_with_def)

lemma not_bin_path:
  "\<not> starts_with path ''/bin/'' \<Longrightarrow>
   path \<noteq> CHR ''/'' # CHR ''b'' # CHR ''i'' # CHR ''n'' # CHR ''/'' # x"
  by (auto simp: starts_with_Cons)

lemma with_path_caps_outside:
  "\<not> starts_with path ''/bin/'' \<Longrightarrow> with_path_caps c path = with_path_observe_mutate_rights c path"
  by (simp add: with_path_caps_def with_path_ptrust_def with_path_net_rights_def
      with_path_config_rights_def with_path_kms_ssh_rights_def not_bin_path Let_def)

lemma from_manifest_unprivileged:
  "\<not> declares_any_privilege m \<Longrightarrow> from_manifest cpu m = CAPSET_EMPTY"
  by (simp add: from_manifest_def declares_any_privilege_def manifest_accessor_defs CAPSET_EMPTY_def
      flag_if_def)

lemma legacy_path_caps_outside: "\<not> starts_with path ''/bin/'' \<Longrightarrow> legacy_path_caps path = CAPSET_EMPTY"
  by (simp add: legacy_path_caps_def)

lemma requested_outside:
  assumes "\<not> starts_with path ''/bin/''" "\<And>m. manifest = Some m \<Longrightarrow> \<not> declares_any_privilege m"
  shows "requested_caps env manifest path = (if is_sandbox_path path then CAPSET_EMPTY else LEGACY)"
proof (cases manifest)
  case None
  then show ?thesis
    using assms(1) by (simp add: requested_caps_def with_path_caps_outside legacy_path_caps_outside
        with_path_observe_mutate_rights_def LEGACY_OBSERVE_MUTATE_def)
next
  case (Some m)
  then show ?thesis
    using assms by (simp add: requested_caps_def with_path_caps_outside from_manifest_unprivileged
        with_path_observe_mutate_rights_def LEGACY_OBSERVE_MUTATE_def)
qed

lemma sandbox_outside_bin: "is_sandbox_path path \<Longrightarrow> \<not> starts_with path ''/bin/''"
  by (cases path; cases "tl path") (auto simp: is_sandbox_path_def starts_with_def)

text \<open>The privileged fields of a request come from the install path alone.\<close>

lemma manifest_unprivileged_fields:
  "\<not> cs_pcie_driver (from_manifest cpu m)" "\<not> cs_platform (from_manifest cpu m)"
  "\<not> cs_supervisor (from_manifest cpu m)" "\<not> cs_usb_driver (from_manifest cpu m)"
  "\<not> cs_serial_port (from_manifest cpu m)" "\<not> cs_kms_ssh_sign (from_manifest cpu m)"
  "\<not> cs_kms_ssh_admin (from_manifest cpu m)"
  by (simp_all only: from_manifest_def Let_def capset.simps not_False_eq_True)

lemma legacy_unprivileged_fields:
  "\<not> cs_pcie_driver (legacy_path_caps path)" "\<not> cs_platform (legacy_path_caps path)"
  "\<not> cs_supervisor (legacy_path_caps path)" "\<not> cs_usb_driver (legacy_path_caps path)"
  "\<not> cs_serial_port (legacy_path_caps path)" "\<not> cs_kms_ssh_sign (legacy_path_caps path)"
  "\<not> cs_kms_ssh_admin (legacy_path_caps path)"
  by (simp_all add: legacy_path_caps_def CAPSET_EMPTY_def Let_def)

text \<open>One conditional update of the chain; a field it does not write is kept.\<close>

definition upd_when :: "bool \<Rightarrow> (capset \<Rightarrow> capset) \<Rightarrow> capset \<Rightarrow> capset" where
  "upd_when b f c = (if b then f c else c)"

lemma upd_when_keep: "(\<And>c. F (f c) = F c) \<Longrightarrow> F (upd_when b f c) = F c"
  by (simp add: upd_when_def)

lemma upd_when_set: "(\<And>c. F (f c)) \<Longrightarrow> F (upd_when b f c) \<longleftrightarrow> b \<or> F c"
  by (simp add: upd_when_def)

lemma with_path_ptrust_chain:
  "with_path_ptrust c path =
     upd_when (path = ''/bin/supervisor'') (\<lambda>c. c\<lparr>cs_supervisor := True\<rparr>)
     (upd_when (path = ''/bin/platform'') (\<lambda>c. c\<lparr>cs_platform := True\<rparr>)
     (upd_when (path = ''/bin/serial'') (\<lambda>c. c\<lparr>cs_serial_port := True\<rparr>)
     (upd_when (path = ''/bin/dwc2-usb'') (\<lambda>c. c\<lparr>cs_usb_driver := True\<rparr>)
     (upd_when (path = ''/bin/xhci'') (\<lambda>c. c\<lparr>cs_pcie_driver := True, cs_usb_driver := True,
                     cs_mmio_devices := cs_mmio_devices c OR DEV_DISPLAY\<rparr>)
     (upd_when (path = ''/bin/bcm-display'') (\<lambda>c. c\<lparr>cs_mmio_devices := cs_mmio_devices c OR DEV_DISPLAY\<rparr>)
     (upd_when (path \<in> {''/bin/nvme'', ''/bin/e1000'', ''/bin/igb'', ''/bin/virtio-net'',
                        ''/bin/block'', ''/bin/input'', ''/bin/virtio-gpu'', ''/bin/ahci''})
        (\<lambda>c. c\<lparr>cs_pcie_driver := True, cs_mmio_devices := cs_mmio_devices c OR DEV_DISPLAY\<rparr>)
     (upd_when (path = ''/bin/vfs'') (\<lambda>c. c\<lparr>cs_block_regions := cs_block_regions c OR 8\<rparr>) c)))))))"
  unfolding with_path_ptrust_def upd_when_def Let_def by (rule refl)

lemma with_path_ptrust_fields:
  "cs_platform (with_path_ptrust c path) \<longleftrightarrow> path = ''/bin/platform'' \<or> cs_platform c"
  "cs_supervisor (with_path_ptrust c path) \<longleftrightarrow> path = ''/bin/supervisor'' \<or> cs_supervisor c"
  "cs_serial_port (with_path_ptrust c path) \<longleftrightarrow> path = ''/bin/serial'' \<or> cs_serial_port c"
  "cs_usb_driver (with_path_ptrust c path) \<longleftrightarrow> path = ''/bin/dwc2-usb'' \<or> path = ''/bin/xhci'' \<or> cs_usb_driver c"
  "cs_pcie_driver (with_path_ptrust c path) \<longleftrightarrow> path = ''/bin/xhci'' \<or>
     path \<in> {''/bin/nvme'', ''/bin/e1000'', ''/bin/igb'', ''/bin/virtio-net'',
              ''/bin/block'', ''/bin/input'', ''/bin/virtio-gpu'', ''/bin/ahci''} \<or> cs_pcie_driver c"
  "cs_kms_ssh_sign (with_path_ptrust c path) = cs_kms_ssh_sign c"
  "cs_kms_ssh_admin (with_path_ptrust c path) = cs_kms_ssh_admin c"
  unfolding with_path_ptrust_chain
  by (simp_all add: upd_when_keep [of cs_platform] upd_when_set [of cs_platform]
      upd_when_keep [of cs_supervisor] upd_when_set [of cs_supervisor]
      upd_when_keep [of cs_serial_port] upd_when_set [of cs_serial_port]
      upd_when_keep [of cs_usb_driver] upd_when_set [of cs_usb_driver]
      upd_when_keep [of cs_pcie_driver] upd_when_set [of cs_pcie_driver]
      upd_when_keep [of cs_kms_ssh_sign] upd_when_keep [of cs_kms_ssh_admin] del: insert_iff)

lemma with_path_net_rights_upd:
  "\<exists>r n l e. with_path_net_rights c path =
     c\<lparr>cs_net_resolve := r, cs_net_connect := n, cs_net_listen := l, cs_net_l2 := e\<rparr>"
  unfolding with_path_net_rights_def Let_def case_prod_beta by blast

lemma with_path_net_rights_fields:
  "cs_platform (with_path_net_rights c path) = cs_platform c"
  "cs_supervisor (with_path_net_rights c path) = cs_supervisor c"
  "cs_serial_port (with_path_net_rights c path) = cs_serial_port c"
  "cs_usb_driver (with_path_net_rights c path) = cs_usb_driver c"
  "cs_pcie_driver (with_path_net_rights c path) = cs_pcie_driver c"
  "cs_kms_ssh_sign (with_path_net_rights c path) = cs_kms_ssh_sign c"
  "cs_kms_ssh_admin (with_path_net_rights c path) = cs_kms_ssh_admin c"
  by (insert with_path_net_rights_upd [of c path]; elim exE; simp)+

lemma with_path_other_rights_fields:
  "cs_platform (with_path_observe_mutate_rights c path) = cs_platform c"
  "cs_supervisor (with_path_observe_mutate_rights c path) = cs_supervisor c"
  "cs_serial_port (with_path_observe_mutate_rights c path) = cs_serial_port c"
  "cs_usb_driver (with_path_observe_mutate_rights c path) = cs_usb_driver c"
  "cs_pcie_driver (with_path_observe_mutate_rights c path) = cs_pcie_driver c"
  "cs_kms_ssh_sign (with_path_observe_mutate_rights c path) = cs_kms_ssh_sign c"
  "cs_kms_ssh_admin (with_path_observe_mutate_rights c path) = cs_kms_ssh_admin c"
  "cs_platform (with_path_config_rights c path) = cs_platform c"
  "cs_supervisor (with_path_config_rights c path) = cs_supervisor c"
  "cs_serial_port (with_path_config_rights c path) = cs_serial_port c"
  "cs_usb_driver (with_path_config_rights c path) = cs_usb_driver c"
  "cs_pcie_driver (with_path_config_rights c path) = cs_pcie_driver c"
  "cs_kms_ssh_sign (with_path_config_rights c path) = cs_kms_ssh_sign c"
  "cs_kms_ssh_admin (with_path_config_rights c path) = cs_kms_ssh_admin c"
  "cs_platform (with_path_kms_ssh_rights c path) = cs_platform c"
  "cs_supervisor (with_path_kms_ssh_rights c path) = cs_supervisor c"
  "cs_serial_port (with_path_kms_ssh_rights c path) = cs_serial_port c"
  "cs_usb_driver (with_path_kms_ssh_rights c path) = cs_usb_driver c"
  "cs_pcie_driver (with_path_kms_ssh_rights c path) = cs_pcie_driver c"
  by (simp_all add: with_path_observe_mutate_rights_def with_path_config_rights_def
      with_path_kms_ssh_rights_def Let_def)

lemma with_path_kms_ssh_rights_kms:
  "cs_kms_ssh_sign (with_path_kms_ssh_rights c path) \<longleftrightarrow> path = ''/bin/cellbox-ssh'' \<or> cs_kms_ssh_sign c"
  "cs_kms_ssh_admin (with_path_kms_ssh_rights c path) \<longleftrightarrow> path = ''/bin/kms-ssh-admin'' \<or> cs_kms_ssh_admin c"
  by (simp_all add: with_path_kms_ssh_rights_def Let_def)

lemma with_path_caps_privileged:
  "cs_platform (with_path_caps c path) \<longleftrightarrow> path = ''/bin/platform'' \<or> cs_platform c"
  "cs_supervisor (with_path_caps c path) \<longleftrightarrow> path = ''/bin/supervisor'' \<or> cs_supervisor c"
  "cs_serial_port (with_path_caps c path) \<longleftrightarrow> path = ''/bin/serial'' \<or> cs_serial_port c"
  "cs_usb_driver (with_path_caps c path) \<longleftrightarrow>
     path = ''/bin/dwc2-usb'' \<or> path = ''/bin/xhci'' \<or> cs_usb_driver c"
  "cs_pcie_driver (with_path_caps c path) \<longleftrightarrow>
     path = ''/bin/xhci'' \<or> path \<in> set BOOT_PCIE_DRIVERS \<or> cs_pcie_driver c"
  "cs_kms_ssh_sign (with_path_caps c path) \<longleftrightarrow> path = ''/bin/cellbox-ssh'' \<or> cs_kms_ssh_sign c"
  "cs_kms_ssh_admin (with_path_caps c path) \<longleftrightarrow> path = ''/bin/kms-ssh-admin'' \<or> cs_kms_ssh_admin c"
  by (simp_all add: with_path_caps_def with_path_net_rights_fields with_path_other_rights_fields
      with_path_kms_ssh_rights_kms with_path_ptrust_fields) (auto simp: BOOT_PCIE_DRIVERS_def)

lemma requested_privileged:
  "cs_platform (requested_caps env m path) \<longleftrightarrow> path = ''/bin/platform''"
  "cs_supervisor (requested_caps env m path) \<longleftrightarrow> path = ''/bin/supervisor''"
  "cs_serial_port (requested_caps env m path) \<longleftrightarrow> path = ''/bin/serial''"
  "cs_usb_driver (requested_caps env m path) \<longleftrightarrow> path = ''/bin/dwc2-usb'' \<or> path = ''/bin/xhci''"
  "cs_pcie_driver (requested_caps env m path) \<longleftrightarrow> path = ''/bin/xhci'' \<or> path \<in> set BOOT_PCIE_DRIVERS"
  "cs_kms_ssh_sign (requested_caps env m path) \<longleftrightarrow> path = ''/bin/cellbox-ssh''"
  "cs_kms_ssh_admin (requested_caps env m path) \<longleftrightarrow> path = ''/bin/kms-ssh-admin''"
  by (simp_all add: requested_caps_def with_path_caps_privileged manifest_unprivileged_fields
      legacy_unprivileged_fields split: option.splits)

lemma cap_le_EMPTY_iff: "cap_le c CAPSET_EMPTY \<longleftrightarrow> c = CAPSET_EMPTY"
  using cap_le_antisym [OF _ cap_le_EMPTY] by auto

section \<open>The admitted launch\<close>

lemma admit_granted_Ok:
  assumes "admit_granted env elf path req manifest d granted = (Ok ls, latch)"
  shows "ls_granted ls = granted" "ls_is_domain ls = d" "ls_digest ls = se_sha256 env elf"
    "path = ''/bin/vfs'' \<Longrightarrow> cs_block_regions granted = 15"
    "ls_priority ls = sr_priority req" "ls_priority ls \<le> PRIORITY_REALTIME"
    "ls_priority ls = PRIORITY_REALTIME \<Longrightarrow> ls_cluster_mode ls = 0"
    "ls_platform ls = cs_platform granted"
    "ls_platform ls \<Longrightarrow> \<not> se_platform_granted env \<and> latch"
    "\<not> ls_platform ls \<Longrightarrow> latch = se_platform_granted env"
    "ls_pku_key ls = (if se_x86_64 env then granted_protection_class granted
       (case manifest of Some m \<Rightarrow> protection_class m | None \<Rightarrow> PROTECTION_CLASS_LEGACY) else 0)"
  using assms
  by (simp_all add: admit_granted_def Let_def reserve_platform_def not_less split: if_split_asm)
    (auto simp: not_less)

text \<open>Everything the success path has established before that, as one elimination rule.\<close>

lemma prepare_gated_OkE:
  assumes "prepare_gated env elf path req = (Ok ls, log, latch)"
  obtains manifest d where
    "manifest_of elf = Ok manifest"
    "fst (signature_gate env manifest elf) = Ok d"
    "check_admission (se_admission env) (se_sha256 env elf) = Ok ()"
    "\<not> overdeclares path manifest"
    "admit_granted env elf path req manifest d
       (fst (granted_caps env (sr_spawner req) manifest path)) = (Ok ls, latch)"
proof -
  obtain manifest where m: "manifest_of elf = Ok manifest"
    using assms by (auto simp: prepare_gated_def Let_def split: if_split_asm sum.splits)
  obtain d lg where sg: "signature_gate env manifest elf = (Ok d, lg)"
  proof (cases "signature_gate env manifest elf")
    case (Pair r lg)
    then show ?thesis
      using assms m that by (cases r) (simp_all add: prepare_gated_def Let_def split: if_split_asm)
  qed
  have adm: "check_admission (se_admission env) (se_sha256 env elf) = Ok ()"
    using assms m sg
    by (cases "check_admission (se_admission env) (se_sha256 env elf)")
      (simp_all add: prepare_gated_def Let_def split: if_split_asm)
  have nov: "\<not> overdeclares path manifest"
    using assms m sg adm by (simp add: prepare_gated_def Let_def split: if_split_asm)
  have "admit_granted env elf path req manifest d
      (fst (granted_caps env (sr_spawner req) manifest path)) = (Ok ls, latch)"
    using assms m sg adm nov by (simp add: prepare_gated_def Let_def split: if_split_asm prod.splits)
  then show ?thesis using that m sg adm nov by simp
qed

end
