(* ===== verification/Spawn_Props.thy ===== *)
theory Spawn_Props
  imports Spawn_Grant
begin

text \<open>
  The properties of governed spawning: what authority a new cell can receive, what an unfenced cell
  must have proved, and which launch edges convey the sensitive rights.  A small signed ELF image and
  one environment serve as the concrete inputs of the witnesses.
\<close>

section \<open>Sample image and environment\<close>

text \<open>A 32-bit ELF with a string table and a 64-byte \<open>__ViCell_sig\<close> section at offset 69.\<close>

definition sample_elf :: bytes where
  "sample_elf =
     [127, 69, 76, 70, 1, 1, 1, 0, 0, 0, 0, 0, 0, 0, 0, 0, 0, 0, 0, 0, 1, 0, 0, 0, 0, 0, 0, 0, 0, 0,
      0, 0, 133, 0, 0, 0, 0, 0, 0, 0, 52, 0, 0, 0, 0, 0, 40, 0, 3, 0, 1, 0, 0, 46, 115, 0, 95, 95,
      86, 105, 67, 101, 108, 108, 95, 115, 105, 103, 0, 7, 7, 7, 7, 7, 7, 7, 7, 7, 7, 7, 7, 7, 7, 7,
      7, 7, 7, 7, 7, 7, 7, 7, 7, 7, 7, 7, 7, 7, 7, 7, 7, 7, 7, 7, 7, 7, 7, 7, 7, 7, 7, 7, 7, 7, 7, 7,
      7, 7, 7, 7, 7, 7, 7, 7, 7, 7, 7, 7, 7, 7, 7, 7, 7, 0, 0, 0, 0, 0, 0, 0, 0, 0, 0, 0, 0, 0, 0, 0,
      0, 0, 0, 0, 0, 0, 0, 0, 0, 0, 0, 0, 0, 0, 0, 0, 0, 0, 0, 0, 0, 0, 0, 0, 0, 1, 0, 0, 0, 3, 0, 0,
      0, 0, 0, 0, 0, 0, 0, 0, 0, 52, 0, 0, 0, 17, 0, 0, 0, 0, 0, 0, 0, 0, 0, 0, 0, 0, 0, 0, 0, 0, 0,
      0, 0, 4, 0, 0, 0, 1, 0, 0, 0, 0, 0, 0, 0, 0, 0, 0, 0, 69, 0, 0, 0, 64, 0, 0, 0, 0, 0, 0, 0, 0,
      0, 0, 0, 0, 0, 0, 0, 0, 0, 0, 0]"

definition sample_sections :: elf_sections where
  "sample_sections =
     \<lparr>el_data = sample_elf,
      el_header = \<lparr>eh_class = 1, eh_little = True, eh_shoff = 133, eh_shentsize = 40,
                   eh_shnum = 3, eh_shstrndx = 1\<rparr>\<rparr>"

definition sample_names :: bytes where
  "sample_names = [0, 46, 115, 0] @ SIG_NAME @ [0]"

definition sample_env :: spawn_env where
  "sample_env =
     \<lparr>se_features = \<lparr>maintenance_mode = False, policy_required = False\<rparr>,
      se_browser_engine_profile = False, se_x86_64 = True,
      se_cpu = \<lparr>has_h_ext = False, has_el2 = False, has_x86_virt = False\<rparr>,
      se_policy = Some (Loaded \<lparr>lp_flags = 0, lp_entries = []\<rparr>),
      se_admission = admission_registry_new, se_tasks = (\<lambda>_. None), se_next_tid = 7,
      se_platform_granted = False, se_sha256 = (\<lambda>_. replicate 32 0),
      se_verify = (\<lambda>pk msg sig. pk = [1] \<and> length msg = 189 \<and> sig = replicate 64 7),
      se_signer_pubkey = [1], se_get_section = (\<lambda>_ _. None), se_can_align = (\<lambda>_. True),
      se_can_reserve = (\<lambda>_. True)\<rparr>"

lemma sample_features: "se_features sample_env = \<lparr>maintenance_mode = False, policy_required = False\<rparr>"
  by (simp add: sample_env_def)

lemmas elf_read_defs = elf_read_usize_def elf_read_def get_range_def slice_def get_at_def sample_elf_def

lemma length_sample_elf [simp]: "length sample_elf = 253"
  by (simp add: sample_elf_def)

lemma sample_parse: "elf_parse sample_elf = Some sample_sections"
  by (simp add: elf_parse_def sample_sections_def elf_read_defs ensure_def elf_layout_for_def
      ELF_MAGIC_def ELFCLASS32_def ELFDATA2LSB_def phdrs_check_def SHN_XINDEX_def checked_range_def Let_def)

lemma sample_section:
  "elf_section sample_sections 0 = Some \<lparr>es_name = 0, es_kind = 0, es_offset = 0, es_size = 0\<rparr>"
  "elf_section sample_sections (Suc 0) = Some \<lparr>es_name = 1, es_kind = 3, es_offset = 52, es_size = 17\<rparr>"
  "elf_section sample_sections 2 = Some \<lparr>es_name = 4, es_kind = 1, es_offset = 69, es_size = 64\<rparr>"
  by (simp_all add: elf_section_def ELFCLASS32_def sample_sections_def elf_read_defs)

lemma sample_count: "[0..<elf_count sample_sections] = [0, Suc 0, 2]"
  by (simp add: elf_count_def sample_sections_def upt_rec)

lemma sample_names_eq: "elf_names sample_sections = Some sample_names"
proof -
  have "eh_shstrndx (el_header sample_sections) = Suc 0" "el_data sample_sections = sample_elf"
    by (simp_all add: sample_sections_def)
  then show ?thesis
    by (simp add: elf_names_def sample_section SHT_STRTAB_def elf_bytes_def checked_range_def)
      (simp add: elf_read_defs sample_names_def SIG_NAME_def str_bytes_def)
qed

lemma sample_name:
  "elf_name sample_names \<lparr>es_name = 0, es_kind = k, es_offset = f, es_size = n\<rparr> = Some []"
  "elf_name sample_names \<lparr>es_name = 1, es_kind = k, es_offset = f, es_size = n\<rparr> = Some [46, 115]"
  "elf_name sample_names \<lparr>es_name = 4, es_kind = k, es_offset = f, es_size = n\<rparr> = Some SIG_NAME"
  by (simp_all add: elf_name_def sample_names_def SIG_NAME_def str_bytes_def)

lemma section_name_neq: "SIG_NAME \<noteq> []" "SIG_NAME \<noteq> [46, 115]" "MANIFEST_NAME \<noteq> []" "MANIFEST_NAME \<noteq> [46, 115]"
    "MANIFEST_NAME \<noteq> SIG_NAME"
  by (simp_all add: SIG_NAME_def MANIFEST_NAME_def str_bytes_def)

lemmas sample_elf_facts = sample_parse sample_names_eq sample_count sample_section
  sample_name [simplified One_nat_def] section_name_neq section_name_neq [symmetric]

lemma sample_elf_bytes:
  "off + n \<le> 253 \<Longrightarrow>
   elf_bytes sample_sections \<lparr>es_name = a, es_kind = k, es_offset = off, es_size = n\<rparr>
     = Some (slice off (off + n) sample_elf)"
  by (simp add: elf_bytes_def checked_range_def get_range_def sample_sections_def)

lemma sample_signature_range: "signature_range sample_elf = Some (69, 64)"
  by (simp add: signature_range_def sample_elf_facts SHT_PROGBITS_def sample_elf_bytes)

lemma sample_sig: "slice 69 133 sample_elf = replicate 64 7"
  by (simp add: slice_def sample_elf_def numeral_eq_Suc)

lemma sample_extract_sig: "extract_sig sample_elf = Some (replicate 64 7)"
  by (simp add: extract_sig_def sample_signature_range sample_sig)

lemma sample_manifest: "manifest_of sample_elf = Ok None"
proof -
  have "classify_inner sample_elf = Some MAbsent"
    by (simp add: classify_inner_def sample_elf_facts sample_elf_bytes)
  then show ?thesis by (simp add: manifest_of_def classify_def)
qed

lemma sample_signature_gate:
  "signature_gate (sample_env\<lparr>se_policy := pol\<rparr>) None sample_elf = (Ok False, [CellSignatureVerified])"
  "signature_gate (sample_env\<lparr>se_policy := pol, se_admission := reg\<rparr>) None sample_elf
     = (Ok False, [CellSignatureVerified])"
  by (simp_all add: signature_gate_def sample_extract_sig verify_cell_with_key_def sample_signature_range
      sample_env_def)

text \<open>The sample image is admitted, as an unfenced cell, on every path but \<open>/bin/vfs\<close>.\<close>

definition sample_request :: "capset \<Rightarrow> spawn_request" where
  "sample_request ceiling = governed_caller 3 1 CAPSET_EMPTY ceiling PRIORITY_NORMAL None"

lemma sample_admitted_in:
  assumes env: "se_can_align env sample_elf" "\<not> se_platform_granted env"
      "check_admission (se_admission env) (se_sha256 env sample_elf) = Ok ()"
      "signature_gate env None sample_elf = (Ok False, [CellSignatureVerified])"
    and "path \<noteq> ''/bin/vfs''" "sr_priority req = PRIORITY_NORMAL"
  shows "\<exists>ls log latch. prepare_gated env sample_elf path req = (Ok ls, log, latch) \<and> \<not> ls_is_domain ls"
proof -
  obtain g lg where g: "granted_caps env (sr_spawner req) None path = (g, lg)" by fastforce
  obtain ls latch where a: "admit_granted env sample_elf path req None False g = (Ok ls, latch)"
    using assms
    by (simp add: admit_granted_def Let_def PRIORITY_NORMAL_def PRIORITY_REALTIME_def reserve_platform_def)
  have "prepare_gated env sample_elf path req = (Ok ls, [CellSignatureVerified] @ lg, latch)"
    by (simp add: prepare_gated_def Let_def sample_manifest g a env overdeclares_def)
  then show ?thesis using admit_granted_Ok(2) [OF a] by blast
qed

lemma sample_admitted:
  assumes "path \<noteq> ''/bin/vfs''" "sr_priority req = PRIORITY_NORMAL"
  shows "\<exists>ls log latch. prepare_gated (sample_env\<lparr>se_policy := pol\<rparr>) sample_elf path req = (Ok ls, log, latch)
    \<and> \<not> ls_is_domain ls"
  by (rule sample_admitted_in [OF _ _ _ sample_signature_gate(1) assms])
    (simp_all add: sample_env_def check_admission_def admission_registry_new_def)

section \<open>Authority of a new cell\<close>

text \<open>
  C16.  Delegation only narrows.  Whenever spawn admission succeeds, the authority of the new task is
  contained in what the manifest and the install path request, in the spawner's ceiling (the boot
  row, the reviewed edge or the live capabilities of the spawning task), and in the operator's policy
  entry for the path unless the signed maintenance bypass is active.
\<close>

theorem spawn_grant_bounded:
  assumes "prepare_gated env elf path req = (Ok ls, log, latch)"
  shows "\<exists>manifest. manifest_of elf = Ok manifest
    \<and> cap_le (ls_granted ls) (requested_caps env manifest path)
    \<and> cap_le (ls_granted ls) (spawner_ceiling env (sr_spawner req) path)
    \<and> (\<forall>p. policy_lookup (se_policy env) path = Permit p
           \<and> \<not> (maintenance_mode (se_features env) \<and> maintenance_permitted (se_policy env))
         \<longrightarrow> cap_le (ls_granted ls) p)"
  using assms
proof (elim prepare_gated_OkE)
  fix manifest d
  assume "manifest_of elf = Ok manifest"
    and "admit_granted env elf path req manifest d (fst (granted_caps env (sr_spawner req) manifest path)) = (Ok ls, latch)"
  then show ?thesis
    using granted_le_requested granted_le_ceiling granted_le_policy by (auto dest: admit_granted_Ok(1))
qed

theorem spawn_grant_bounded_witness:
  "\<exists>ls log latch. prepare_gated (sample_env\<lparr>se_policy := Some Absent\<rparr>) sample_elf ''/bin/curl'' (sample_request NET_CLIENT)
      = (Ok ls, log, latch) \<and> cap_le (ls_granted ls) NET_CLIENT"
proof -
  obtain ls log latch where *: "prepare_gated (sample_env\<lparr>se_policy := Some Absent\<rparr>) sample_elf ''/bin/curl''
      (sample_request NET_CLIENT) = (Ok ls, log, latch)"
    using sample_admitted [of "''/bin/curl''" "sample_request NET_CLIENT" "Some Absent"]
    by (auto simp: sample_request_def governed_caller_def)
  show ?thesis
    using spawn_grant_bounded [OF *] *
    by (auto simp: spawner_ceiling_def sample_request_def governed_caller_def)
qed

text \<open>
  C17.  Programs outside \<open>/bin/\<close> are unprivileged.  Whatever their manifest, signature, spawner and
  policy, an admitted program installed outside \<open>/bin/\<close> receives nothing but the observation and
  VFS-mutation rights, and one under a user-application prefix receives no authority at all.
\<close>

theorem spawn_outside_bin_unprivileged:
  assumes "prepare_gated env elf path req = (Ok ls, log, latch)" "\<not> starts_with path ''/bin/''"
  shows "without_observe_mutate (ls_granted ls) = CAPSET_EMPTY
    \<and> (is_sandbox_path path \<longrightarrow> ls_granted ls = CAPSET_EMPTY)"
  using assms(1)
proof (elim prepare_gated_OkE)
  fix manifest d
  assume nov: "\<not> overdeclares path manifest"
    and "admit_granted env elf path req manifest d (fst (granted_caps env (sr_spawner req) manifest path)) = (Ok ls, latch)"
  then have le: "cap_le (ls_granted ls) (requested_caps env manifest path)"
    using granted_le_requested by (auto dest: admit_granted_Ok(1))
  have req: "requested_caps env manifest path = (if is_sandbox_path path then CAPSET_EMPTY else LEGACY)"
    using nov assms(2) by (intro requested_outside) (auto simp: overdeclares_def)
  have "without_observe_mutate (ls_granted ls) = CAPSET_EMPTY" if "cap_le (ls_granted ls) LEGACY"
    using that
    by (cases "ls_granted ls")
      (simp add: cap_le_def without_observe_mutate_def CAPSET_EMPTY_def LEGACY_OBSERVE_MUTATE_def
        subset_bits_0_iff)
  then show ?thesis
    using le req cap_le_EMPTY_iff cap_le_trans [OF _ cap_le_EMPTY] by (auto split: if_splits)
qed

theorem spawn_outside_bin_unprivileged_witness:
  "\<exists>ls log latch. prepare_gated (sample_env\<lparr>se_policy := None\<rparr>) sample_elf ''/apps/game'' (sample_request CAPSET_ALL)
      = (Ok ls, log, latch) \<and> ls_granted ls = CAPSET_EMPTY"
proof -
  obtain ls log latch where *: "prepare_gated (sample_env\<lparr>se_policy := None\<rparr>) sample_elf ''/apps/game''
      (sample_request CAPSET_ALL) = (Ok ls, log, latch)"
    using sample_admitted [of "''/apps/game''" "sample_request CAPSET_ALL" None]
    by (auto simp: sample_request_def governed_caller_def)
  show ?thesis
    using spawn_outside_bin_unprivileged [OF *] *
    by (simp add: starts_with_def is_sandbox_path_def)
qed





text \<open>
  C19.  Privileged authority follows the install path.  An admitted task that drives PCIe or USB hardware,
  serial ports, the platform or the supervisor role, or holds a KMS SSH right, was installed at one of
  the paths reviewed for it; the sign and the admin right are never held together; and the Platform
  right is taken from an unclaimed latch that is set afterwards.
\<close>

theorem privileged_authority_by_path:
  assumes "prepare_gated env elf path req = (Ok ls, log, latch)"
  shows "(cs_pcie_driver (ls_granted ls) \<longrightarrow> path = ''/bin/xhci'' \<or> path \<in> set BOOT_PCIE_DRIVERS)
    \<and> (cs_usb_driver (ls_granted ls) \<longrightarrow> path = ''/bin/dwc2-usb'' \<or> path = ''/bin/xhci'')
    \<and> (cs_serial_port (ls_granted ls) \<longrightarrow> path = ''/bin/serial'')
    \<and> (cs_supervisor (ls_granted ls) \<longrightarrow> path = ''/bin/supervisor'')
    \<and> (cs_kms_ssh_sign (ls_granted ls) \<longrightarrow> path = ''/bin/cellbox-ssh'')
    \<and> (cs_kms_ssh_admin (ls_granted ls) \<longrightarrow> path = ''/bin/kms-ssh-admin'')
    \<and> \<not> (cs_kms_ssh_sign (ls_granted ls) \<and> cs_kms_ssh_admin (ls_granted ls))
    \<and> (cs_platform (ls_granted ls) \<longrightarrow>
         path = ''/bin/platform'' \<and> \<not> se_platform_granted env \<and> latch)"
  using assms
proof (elim prepare_gated_OkE)
  fix manifest d
  assume a: "admit_granted env elf path req manifest d (fst (granted_caps env (sr_spawner req) manifest path)) = (Ok ls, latch)"
  then have le: "cap_le (ls_granted ls) (requested_caps env manifest path)"
    using granted_le_requested by (auto dest: admit_granted_Ok(1))
  have g: "ls_granted ls = fst (granted_caps env (sr_spawner req) manifest path)"
    by (rule admit_granted_Ok(1) [OF a])
  have plat: "cs_platform (ls_granted ls) \<Longrightarrow> \<not> se_platform_granted env \<and> latch"
    using admit_granted_Ok(8,9) [OF a] unfolding g by blast
  note by_path = cap_le_privileged [OF le, unfolded requested_privileged]
  have "\<not> (cs_kms_ssh_sign (ls_granted ls) \<and> cs_kms_ssh_admin (ls_granted ls))"
    using by_path(6,7) by force
  with by_path plat show ?thesis by blast
qed

theorem privileged_authority_by_path_witness:
  "\<exists>ls log latch. prepare_gated (sample_env\<lparr>se_policy := Some Absent\<rparr>) sample_elf ''/bin/platform'' governed_boot
      = (Ok ls, log, latch) \<and> cs_platform (ls_granted ls) \<and> latch"
proof -
  let ?env = "sample_env\<lparr>se_policy := Some Absent\<rparr>"
  obtain ls log latch where *: "prepare_gated ?env sample_elf ''/bin/platform'' governed_boot = (Ok ls, log, latch)"
    using sample_admitted [of "''/bin/platform''" governed_boot "Some Absent"]
    by (auto simp: governed_boot_def)
  then obtain manifest d where
    "admit_granted ?env sample_elf ''/bin/platform'' governed_boot manifest d
       (fst (granted_caps ?env Root manifest ''/bin/platform'')) = (Ok ls, latch)"
    by (elim prepare_gated_OkE) (auto simp: governed_boot_def)
  then have "ls_granted ls = fst (granted_caps ?env Root manifest ''/bin/platform'')"
    by (rule admit_granted_Ok(1))
  also have "\<dots> = bounded_caps ?env Root manifest ''/bin/platform''"
    by (simp add: granted_caps_def policy_apply_fst policy_lookup_def maintenance_permitted_def
        decision_to_caps_def is_resolved_def Let_def sample_features)
  finally have "cs_platform (ls_granted ls)"
    by (simp add: bounded_caps_def intersect_def requested_privileged spawner_ceiling_def
        boot_ceiling_def boot_lookup_def)
  then show ?thesis
    using privileged_authority_by_path [OF *] * by blast
qed

text \<open>
  C20.  The owner's admission record governs every spawn.  In every registry reached by floor and slot
  updates, once production enforcement is on, an admitted image's digest is listed in a committed slot
  whose binding (generation, transaction, intent and backend) is exactly the authenticated floor.
\<close>

theorem owner_admission_enforced:
  assumes "admission_step\<^sup>*\<^sup>* admission_registry_new (se_admission env)"
    and "ar_production_enforced (se_admission env)"
    and "prepare_gated env elf path req = (Ok ls, log, latch)"
  shows "\<exists>fl slot. ar_floor_port (se_admission env) = Authenticated fl
    \<and> (ar_slot_a (se_admission env) = Some slot \<or> ar_slot_b (se_admission env) = Some slot)
    \<and> ps_is_committed slot \<and> ps_floor_state slot = fl
    \<and> se_sha256 env elf \<in> set (ps_admitted_elfs slot)"
  using assms(3)
proof (elim prepare_gated_OkE)
  assume "check_admission (se_admission env) (se_sha256 env elf) = Ok ()"
  then show ?thesis
    using check_admission_enforced ar_inv_steps [OF assms(1) ar_inv_new] assms(2) by blast
qed

definition sample_floor :: "u64 \<Rightarrow> floor_state" where
  "sample_floor g =
     \<lparr>fl_generation = g, fl_transaction_id = [], fl_intent_digest = [], fl_backend_identity = [1]\<rparr>"

definition sample_slot :: "u64 \<Rightarrow> bytes list \<Rightarrow> parsed_slot" where
  "sample_slot g elfs =
     \<lparr>ps_slot_id = SlotA, ps_is_committed = True, ps_floor_state = sample_floor g,
      ps_expected_generation = g - 1, ps_provenance_envelope_digest = [], ps_admitted_elfs = elfs\<rparr>"

definition sample_registry :: admission_registry where
  "sample_registry =
     set_production_enforced True (snd (admission_update (Authenticated (sample_floor 5))
       (Some (sample_slot 5 [replicate 32 0])) (Some (sample_slot 4 [])) admission_registry_new))"

theorem owner_admission_enforced_witness:
  "\<exists>ls log latch.
     prepare_gated (sample_env\<lparr>se_policy := None, se_admission := sample_registry\<rparr>) sample_elf ''/bin/ls''
       (sample_request LEGACY) = (Ok ls, log, latch)
     \<and> ar_floor_port sample_registry = Authenticated (sample_floor 5)"
proof -
  let ?env = "sample_env\<lparr>se_policy := None, se_admission := sample_registry\<rparr>"
  have steps: "admission_step\<^sup>*\<^sup>* admission_registry_new sample_registry"
    unfolding sample_registry_def
    by (meson admission_step.intros rtranclp.rtrancl_into_rtrancl rtranclp.rtrancl_refl)
  have reg: "ar_production_enforced sample_registry"
    "check_admission sample_registry (replicate 32 0) = Ok ()"
    by (simp_all add: sample_registry_def set_production_enforced_def admission_update_def slot_obs_def
        observation_def decide_def decide_current_def sample_slot_def sample_floor_def
        classify_partner_def check_admission_def admits_elf_def Let_def)
  have "se_sha256 ?env sample_elf = replicate 32 0" by (simp add: sample_env_def)
  then obtain ls log latch where *: "prepare_gated ?env sample_elf ''/bin/ls'' (sample_request LEGACY) = (Ok ls, log, latch)"
    using sample_admitted_in [of ?env "''/bin/ls''" "sample_request LEGACY"] reg(2) sample_signature_gate(2)
    by (auto simp: sample_request_def governed_caller_def sample_env_def)
  show ?thesis
    using owner_admission_enforced [of ?env, OF _ _ *] steps reg(1) * by (auto simp: sample_registry_def
        set_production_enforced_def admission_update_def Let_def)
qed

section \<open>Launch edges, policy and admission records\<close>

text \<open>
  C21.  What a launch edge can convey, and to whom.  An authorized edge carries the signing right exactly
  when the shell starts \<open>/bin/cellbox-ssh\<close> by path and the admin right exactly when it starts
  \<open>/bin/kms-ssh-admin\<close> by path.  PCIe, platform, supervisor, serial and raw block authority flow only from
  \<open>init\<close> or the supervisor, holding the spawn right, on edges that require lifecycle authority.  On every
  other edge USB authority goes exactly to \<open>/bin/dwc2-usb\<close> and hypervisor authority exactly to
  \<open>/bin/hypervisor\<close>, started by path by the shell, the desktop or the spawn tool, and memory-mapped
  devices exactly to the six reviewed peripheral demos started so, or to \<open>periph-demo\<close> restarting its own
  pinned image.  An edge for caller-supplied ELF bytes carries nothing beyond the observe and mutate rights
  unless it requires lifecycle authority.
\<close>

theorem launch_edges_confine_rights:
  assumes "authorize feat caller route target = Some p"
  shows "(cs_kms_ssh_sign (child_ceiling p) \<longleftrightarrow>
        cl_name caller = ''cellbox'' \<and> route = Path \<and> target = ''/bin/cellbox-ssh'')
    \<and> (cs_kms_ssh_admin (child_ceiling p) \<longleftrightarrow>
        cl_name caller = ''cellbox'' \<and> route = Path \<and> target = ''/bin/kms-ssh-admin'')
    \<and> (\<not> trusted_rights_free (child_ceiling p) \<longrightarrow> trusted_edge caller p)
    \<and> (\<not> trusted_edge caller p \<longrightarrow>
        (cs_usb_driver (child_ceiling p) \<longleftrightarrow>
           user_launcher caller \<and> route = Path \<and> target = ''/bin/dwc2-usb'')
        \<and> (cs_hypervisor (child_ceiling p) \<longleftrightarrow>
           user_launcher caller \<and> route = Path \<and> target = ''/bin/hypervisor'')
        \<and> (cs_mmio_devices (child_ceiling p) \<noteq> 0 \<longleftrightarrow>
           user_launcher caller \<and> route = Path \<and> target \<in> set REVIEWED_MMIO_TARGETS
           \<or> cl_name caller = ''periph-demo'' \<and> route = Pinned \<and> target = ''/bin/periph-demo''))
    \<and> (route = Elf \<and> \<not> requires_lifecycle_authority p \<longrightarrow>
        without_observe_mutate (child_ceiling p) = CAPSET_EMPTY)"
proof (intro conjI impI)
  note c = authorize_SomeD(1) [OF assms]
  show "cs_kms_ssh_sign (child_ceiling p) \<longleftrightarrow>
        cl_name caller = ''cellbox'' \<and> route = Path \<and> target = ''/bin/cellbox-ssh''"
    and "cs_kms_ssh_admin (child_ceiling p) \<longleftrightarrow>
        cl_name caller = ''cellbox'' \<and> route = Path \<and> target = ''/bin/kms-ssh-admin''"
    using caller_profile_kms_exact [OF c] by blast+
  show "trusted_edge caller p" if "\<not> trusted_rights_free (child_ceiling p)"
    unfolding trusted_edge_def using caller_profile_trusted [OF c that] .
  show "without_observe_mutate (child_ceiling p) = CAPSET_EMPTY" if "route = Elf \<and> \<not> requires_lifecycle_authority p"
    using authorize_SomeD(2) [OF assms] that by blast
  assume "\<not> trusted_edge caller p"
  note devices = authorize_device [OF assms this]
  show "cs_usb_driver (child_ceiling p) \<longleftrightarrow> user_launcher caller \<and> route = Path \<and> target = ''/bin/dwc2-usb''"
    by (rule devices(1))
  show "cs_hypervisor (child_ceiling p) \<longleftrightarrow> user_launcher caller \<and> route = Path \<and> target = ''/bin/hypervisor''"
    by (rule devices(2))
  show "cs_mmio_devices (child_ceiling p) \<noteq> 0 \<longleftrightarrow>
      user_launcher caller \<and> route = Path \<and> target \<in> set REVIEWED_MMIO_TARGETS
      \<or> cl_name caller = ''periph-demo'' \<and> route = Pinned \<and> target = ''/bin/periph-demo''"
    by (rule devices(3))
qed

definition sample_shell :: caller_launch_state where
  "sample_shell = \<lparr>cl_name = ''cellbox'', cl_has_spawn = False, cl_has_supervisor = False\<rparr>"

definition no_fixtures :: launch_features where
  "no_fixtures = \<lparr>phase02_terminal_profile = False, phase03_filter_profile = False, phase04_driver_profile = False\<rparr>"

theorem launch_edges_confine_rights_witness:
  "\<exists>p. authorize no_fixtures sample_shell Path ''/bin/cellbox-ssh'' = Some p
     \<and> cs_kms_ssh_sign (child_ceiling p) \<and> \<not> cs_kms_ssh_admin (child_ceiling p)"
proof -
  obtain p where p: "authorize no_fixtures sample_shell Path ''/bin/cellbox-ssh'' = Some p"
    by (simp add: authorize_def caller_profile_def cellbox_profile_def no_fixtures_def sample_shell_def Let_def)
  then show ?thesis
    using launch_edges_confine_rights [OF p] by (auto simp: sample_shell_def)
qed

text \<open>
  C22.  The kernel reads back the policy the signing tool wrote.  Every body the tool bakes at version 8,
  with flags inside the mask, parses to exactly the rows that went in, in order.
\<close>

theorem policy_roundtrip:
  assumes "build_body es flags = Some body" "flags AND NOT FLAGS_MASK = 0"
  shows "policy_parse body = Some \<lparr>lp_flags = flags, lp_entries = es\<rparr>"
  using assms by (rule policy_parse_build_body)

definition sample_rows :: "policy_entry list" where
  "sample_rows =
     [\<lparr>pe_path = ''/bin/vfs'', pe_caps = LEGACY\<lparr>cs_block_io := True, cs_block_regions := 15\<rparr>\<rparr>,
      \<lparr>pe_path = ''/bin/ls'', pe_caps = CAPSET_EMPTY\<rparr>]"

theorem policy_roundtrip_witness:
  "policy_parse (the (build_body sample_rows 1)) = Some \<lparr>lp_flags = 1, lp_entries = sample_rows\<rparr>"
proof (rule policy_roundtrip)
  have "list_all row_ok sample_rows" "distinct (map pe_path sample_rows)" "length sample_rows < 2 ^ 16"
    by (simp_all add: sample_rows_def row_ok_def REGION_MASK_def CAPSET_EMPTY_def LEGACY_OBSERVE_MUTATE_def)
  then show "build_body sample_rows 1 = Some (the (build_body sample_rows 1))"
    by (simp add: build_body_def)
qed (simp add: FLAGS_MASK_def FLAG_MAINTENANCE_PERMITTED_def)

text \<open>
  C23.  A policy that does not authenticate denies.  When the file is present but too short, carries a
  signature that does not verify, or has a malformed body, every path outside the trusted core is left
  with no capability, in every build and even in maintenance builds.
\<close>

theorem policy_fails_closed:
  assumes "blob \<noteq> []"
    and "length blob < HEADER_LEN + SIG_LEN
      \<or> \<not> verify key (take (length blob - SIG_LEN) blob) (drop (length blob - SIG_LEN) blob)
      \<or> policy_parse (take (length blob - SIG_LEN) blob) = None"
    and "\<not> is_trusted_core path"
  shows "fst (policy_apply feat (fst (load_from_vifs1 verify key (Some blob))) path tid caps) = CAPSET_EMPTY"
proof -
  have "fst (load_from_vifs1 verify key (Some blob)) = Some Invalid"
    using assms(1,2) by (auto simp: load_from_vifs1_def mark_invalid_def Let_def)
  then show ?thesis using policy_apply_Invalid [OF assms(3)] by simp
qed

theorem policy_fails_closed_witness:
  "fst (policy_apply \<lparr>maintenance_mode = True, policy_required = False\<rparr>
     (fst (load_from_vifs1 (\<lambda>key body sig. sig = []) [] (Some (replicate 80 0)))) ''/bin/ls'' 4 CAPSET_ALL)
   = CAPSET_EMPTY"
  by (rule policy_fails_closed) (simp_all add: is_trusted_core_def SIG_LEN_def)

text \<open>
  C24.  The admission decision is exact: a slot is admitted if and only if the floor is authenticated, the
  slot is committed with exactly the floor's binding, and its partner is a committed record of the same
  backend with a strictly older generation.
\<close>

theorem admission_decision_exact:
  "decide port s0 s1 = Admit s \<longleftrightarrow>
     (case s of SlotA \<Rightarrow> admits_spec port s0 s1 | SlotB \<Rightarrow> admits_spec port s1 s0)"
  by (rule decide_Admit)

end
