(* ===== verification/Quota.thy ===== *)
theory Quota
  imports Cellos_Prelude "HOL-Library.Multiset"
begin

text \<open>
  The per-Cell memory quota of \<open>kernel/src/memory/cell_quota.rs\<close>, the quota-charging kernel
  allocator of \<open>memory/heap.rs\<close> and the publication claim of \<open>task/launch.rs\<close>.  Byte counts are
  64-bit words, so \<open>fetch_add\<close> and \<open>fetch_sub\<close> wrap as the atomics do.  The contract the clients
  rely on is the locale \<open>quota_ledger\<close>, interpreted on the heap counters and on the DMA counters.
  The last section interleaves the atomic steps of concurrent charges of one Cell.
\<close>

section \<open>State\<close>

definition DEFAULT_QUOTA_BYTES :: u64 where "DEFAULT_QUOTA_BYTES = 16 * 1024 * 1024"

record quota_state =
  qs_limits :: "(usize, u64) btree"
  qs_in_use :: "u64 list"
  qs_dma_in_use :: "u64 list"
  qs_default :: u64

definition quota_init :: quota_state where
  "quota_init = \<lparr>qs_limits = [], qs_in_use = replicate MAX_CELLS 0,
     qs_dma_in_use = replicate MAX_CELLS 0, qs_default = DEFAULT_QUOTA_BYTES\<rparr>"

definition default_quota_bytes :: "quota_state \<Rightarrow> u64" where
  "default_quota_bytes s = qs_default s"

text \<open>A failed \<open>assert!\<close> panics: \<open>None\<close>.\<close>

definition set_default_quota_bytes :: "u64 \<Rightarrow> quota_state \<Rightarrow> quota_state option" where
  "set_default_quota_bytes n s =
     (if 1024 * 1024 \<le> n \<and> n \<le> DEFAULT_QUOTA_BYTES then Some (s\<lparr>qs_default := n\<rparr>) else None)"

section \<open>Registration\<close>

definition register :: "cell_id \<Rightarrow> u64 \<Rightarrow> quota_state \<Rightarrow> quota_state" where
  "register cell_id limit s =
     (let id = unat cell_id;
          s = (if id < MAX_CELLS then s\<lparr>qs_in_use := (qs_in_use s)[id := 0]\<rparr> else s)
      in s\<lparr>qs_limits := bt_insert id limit (qs_limits s)\<rparr>)"

definition deregister :: "cell_id \<Rightarrow> quota_state \<Rightarrow> quota_state" where
  "deregister cell_id s =
     (let id = unat cell_id;
          s = (if id < MAX_CELLS
               then s\<lparr>qs_in_use := (qs_in_use s)[id := 0], qs_dma_in_use := (qs_dma_in_use s)[id := 0]\<rparr>
               else s)
      in s\<lparr>qs_limits := bt_remove id (qs_limits s)\<rparr>)"

record quota_reservation =
  qr_cell_id :: cell_id
  qr_committed :: bool

definition quota_reserve :: "cell_id \<Rightarrow> u64 \<Rightarrow> quota_state \<Rightarrow> (vi_error + quota_reservation) \<times> quota_state" where
  "quota_reserve cell_id limit s =
     (let id = unat cell_id in
      if id = 0 \<or> MAX_CELLS \<le> id then (Err PermissionDenied, s)
      else if bt_contains (qs_limits s) id then (Err AlreadyExists, s)
      else (Ok \<lparr>qr_cell_id = cell_id, qr_committed = False\<rparr>, register cell_id limit s))"

text \<open>The \<open>for raw in 1..MAX_CELLS\<close> loop over the candidate identifiers.\<close>

fun reserve_loop :: "usize list \<Rightarrow> u64 \<Rightarrow> quota_state \<Rightarrow> (vi_error + quota_reservation) \<times> quota_state" where
  "reserve_loop [] limit s = (Err OutOfMemory, s)"
| "reserve_loop (raw # raws) limit s =
     (case quota_reserve (of_nat raw) limit s of
        (Ok reservation, s') \<Rightarrow> (Ok reservation, s')
      | (Err e, s') \<Rightarrow> if e = AlreadyExists then reserve_loop raws limit s' else (Err e, s'))"

definition quota_reserve_next :: "u64 \<Rightarrow> quota_state \<Rightarrow> (vi_error + quota_reservation) \<times> quota_state" where
  "quota_reserve_next limit s = reserve_loop [1..<MAX_CELLS] limit s"

definition drop_quota :: "quota_reservation \<Rightarrow> quota_state \<Rightarrow> quota_state" where
  "drop_quota r s = (if \<not> qr_committed r then deregister (qr_cell_id r) s else s)"

text \<open>\<open>commit\<close> takes the reservation by value: it is marked and then dropped.\<close>

definition commit_quota :: "quota_reservation \<Rightarrow> quota_state \<Rightarrow> quota_state" where
  "commit_quota r s = drop_quota (r\<lparr>qr_committed := True\<rparr>) s"

section \<open>Heap charges\<close>

definition quota_limit :: "quota_state \<Rightarrow> usize \<Rightarrow> u64 option" where
  "quota_limit s cell = bt_get (qs_limits s) cell"

definition quota_in_use :: "quota_state \<Rightarrow> cell_id \<Rightarrow> u64" where
  "quota_in_use s cell_id = (let id = unat cell_id in if id < MAX_CELLS then qs_in_use s ! id else 0)"

text \<open>
  \<open>charge\<close> is an optimistic \<open>fetch_add\<close> whose previous value decides, and a \<open>fetch_sub\<close> when it
  decides against the request; \<open>over_limit\<close> is the decision.
\<close>

definition over_limit :: "u64 \<Rightarrow> u64 \<Rightarrow> u64 \<Rightarrow> bool" where
  "over_limit limit prev n \<longleftrightarrow> limit < saturating_add prev n"

definition charge :: "usize \<Rightarrow> u64 \<Rightarrow> quota_state \<Rightarrow> bool \<times> quota_state" where
  "charge cell n s =
     (if cell = 0 then (True, s)
      else let limit = (case quota_limit s cell of None \<Rightarrow> - 1 | Some l \<Rightarrow> l) in
      if MAX_CELLS \<le> cell then (True, s)
      else
        let prev = qs_in_use s ! cell;
            s1 = s\<lparr>qs_in_use := (qs_in_use s)[cell := prev + n]\<rparr>
        in if over_limit limit prev n
           then (False, s1\<lparr>qs_in_use := (qs_in_use s1)[cell := qs_in_use s1 ! cell - n]\<rparr>)
           else (True, s1))"

definition refund :: "usize \<Rightarrow> u64 \<Rightarrow> quota_state \<Rightarrow> quota_state" where
  "refund cell n s =
     (if cell = 0 \<or> MAX_CELLS \<le> cell then s
      else s\<lparr>qs_in_use := (qs_in_use s)[cell := saturating_sub (qs_in_use s ! cell) n]\<rparr>)"

section \<open>DMA reservations\<close>

record dma_reservation =
  dr_cell_id_raw :: usize
  dr_size :: u64
  dr_committed :: bool

definition try_reserve_dma :: "usize \<Rightarrow> u64 \<Rightarrow> quota_state \<Rightarrow> dma_reservation option \<times> quota_state" where
  "try_reserve_dma cell n s =
     (if cell = 0 \<or> MAX_CELLS \<le> cell
      then (Some \<lparr>dr_cell_id_raw = cell, dr_size = n, dr_committed = True\<rparr>, s)
      else
        let limit = (case quota_limit s cell of None \<Rightarrow> default_quota_bytes s | Some l \<Rightarrow> l) in
        case checked_add (qs_dma_in_use s ! cell) n of
          None \<Rightarrow> (None, s)
        | Some new \<Rightarrow>
            if new \<le> limit
            then (Some \<lparr>dr_cell_id_raw = cell, dr_size = n, dr_committed = False\<rparr>,
                  s\<lparr>qs_dma_in_use := (qs_dma_in_use s)[cell := new]\<rparr>)
            else (None, s))"

definition record_dma_unmapped :: "usize \<Rightarrow> u64 \<Rightarrow> quota_state \<Rightarrow> quota_state" where
  "record_dma_unmapped cell n s =
     (if cell = 0 \<or> MAX_CELLS \<le> cell then s
      else s\<lparr>qs_dma_in_use := (qs_dma_in_use s)[cell := saturating_sub (qs_dma_in_use s ! cell) n]\<rparr>)"

definition drop_dma :: "dma_reservation \<Rightarrow> quota_state \<Rightarrow> quota_state" where
  "drop_dma r s =
     (if \<not> dr_committed r then record_dma_unmapped (dr_cell_id_raw r) (dr_size r) s else s)"

definition commit_dma :: "dma_reservation \<Rightarrow> quota_state \<Rightarrow> quota_state" where
  "commit_dma r s = drop_dma (r\<lparr>dr_committed := True\<rparr>) s"

section \<open>The charging allocator and the publication claim\<close>

text \<open>
  \<open>QuotaAlloc\<close> over the inner heap, which is a parameter: \<open>inner_alloc\<close> returns an address or
  nothing.  \<open>dealloc\<close> refunds the Cell that is running, which is what the source does.
\<close>

definition quota_alloc ::
    "('h \<Rightarrow> u64 \<Rightarrow> u64 option \<times> 'h) \<Rightarrow> usize \<Rightarrow> u64 \<Rightarrow> quota_state \<times> 'h
     \<Rightarrow> u64 option \<times> quota_state \<times> 'h" where
  "quota_alloc inner_alloc current_cell n st =
     (let (s, h) = st in
      case charge current_cell n s of
        (False, s') \<Rightarrow> (None, s', h)
      | (True, s') \<Rightarrow>
          (case inner_alloc h n of
             (None, h') \<Rightarrow> (None, refund current_cell n s', h')
           | (Some ptr, h') \<Rightarrow> (Some ptr, s', h')))"

definition quota_dealloc ::
    "('h \<Rightarrow> u64 \<Rightarrow> u64 \<Rightarrow> 'h) \<Rightarrow> usize \<Rightarrow> u64 \<Rightarrow> u64 \<Rightarrow> quota_state \<times> 'h \<Rightarrow> quota_state \<times> 'h" where
  "quota_dealloc inner_dealloc current_cell ptr n st =
     (let (s, h) = st in (refund current_cell n s, inner_dealloc h ptr n))"

record publication_claim =
  pc_cell :: usize
  pc_retained :: u64
  pc_transient :: u64
  pc_armed :: bool

definition claim_charge ::
    "usize \<Rightarrow> u64 \<Rightarrow> u64 \<Rightarrow> quota_state \<Rightarrow> (vi_error + publication_claim) \<times> quota_state" where
  "claim_charge cell retained transient s =
     (case checked_add retained transient of
        None \<Rightarrow> (Err OutOfMemory, s)
      | Some bytes_total \<Rightarrow>
          (case charge cell bytes_total s of
             (False, s') \<Rightarrow> (Err OutOfMemory, s')
           | (True, s') \<Rightarrow>
               (Ok \<lparr>pc_cell = cell, pc_retained = retained, pc_transient = transient, pc_armed = True\<rparr>, s')))"

definition claim_drop :: "publication_claim \<Rightarrow> quota_state \<Rightarrow> quota_state" where
  "claim_drop p s = (if pc_armed p then refund (pc_cell p) (pc_retained p + pc_transient p) s else s)"

text \<open>\<open>transfer\<close> refunds the transient part, disarms the claim and drops it.\<close>

definition claim_transfer :: "publication_claim \<Rightarrow> quota_state \<Rightarrow> quota_state" where
  "claim_transfer p s = claim_drop (p\<lparr>pc_armed := False\<rparr>) (refund (pc_cell p) (pc_transient p) s)"

section \<open>The ledger contract\<close>

text \<open>
  What a client of a quota ledger relies on.  A Cell that is \<open>capped\<close> takes bytes exactly when they
  fit, pays for exactly what it takes, gets back at most what it has, and no operation of one Cell
  touches another Cell's account or any limit.
\<close>

datatype 'c ledger_op = Take 'c u64 | Give 'c u64

locale quota_ledger =
  fixes wf :: "'s \<Rightarrow> bool"
    and capped :: "'s \<Rightarrow> 'c \<Rightarrow> bool"
    and level :: "'s \<Rightarrow> 'c \<Rightarrow> nat"
    and cap :: "'s \<Rightarrow> 'c \<Rightarrow> nat"
    and take_bytes :: "'c \<Rightarrow> u64 \<Rightarrow> 's \<Rightarrow> bool \<times> 's"
    and give_bytes :: "'c \<Rightarrow> u64 \<Rightarrow> 's \<Rightarrow> 's"
  assumes wf_take: "wf s \<Longrightarrow> wf (snd (take_bytes c n s))"
    and wf_give: "wf s \<Longrightarrow> wf (give_bytes c n s)"
    and take_decides: "wf s \<Longrightarrow> capped s c \<Longrightarrow> fst (take_bytes c n s) \<longleftrightarrow> level s c + unat n \<le> cap s c"
    and take_level: "wf s \<Longrightarrow> capped s c \<Longrightarrow>
      level (snd (take_bytes c n s)) c = level s c + (if fst (take_bytes c n s) then unat n else 0)"
    and give_level: "wf s \<Longrightarrow> capped s c \<Longrightarrow> level (give_bytes c n s) c = level s c - unat n"
    and take_other: "wf s \<Longrightarrow> c \<noteq> d \<Longrightarrow> level (snd (take_bytes c n s)) d = level s d"
    and give_other: "wf s \<Longrightarrow> c \<noteq> d \<Longrightarrow> level (give_bytes c n s) d = level s d"
    and take_cap: "cap (snd (take_bytes c n s)) = cap s"
    and give_cap: "cap (give_bytes c n s) = cap s"
    and take_capped: "capped (snd (take_bytes c n s)) = capped s"
    and give_capped: "capped (give_bytes c n s) = capped s"
begin

definition ledger_step :: "'c ledger_op \<Rightarrow> 's \<Rightarrow> 's" where
  "ledger_step op s = (case op of Take c n \<Rightarrow> snd (take_bytes c n s) | Give c n \<Rightarrow> give_bytes c n s)"

definition cell_of :: "'c ledger_op \<Rightarrow> 'c" where
  "cell_of op = (case op of Take c n \<Rightarrow> c | Give c n \<Rightarrow> c)"

lemma step_frame:
  "wf s \<Longrightarrow> wf (ledger_step op s) \<and> cap (ledger_step op s) = cap s \<and> capped (ledger_step op s) = capped s"
  by (cases op)
    (simp_all add: ledger_step_def wf_take wf_give take_cap give_cap take_capped give_capped)

lemma run_frame:
  "wf s \<Longrightarrow> wf (fold ledger_step ops s) \<and> cap (fold ledger_step ops s) = cap s
     \<and> capped (fold ledger_step ops s) = capped s"
  by (induction ops arbitrary: s) (simp_all add: step_frame)

text \<open>No sequence of operations takes a capped Cell above its limit.\<close>

lemma step_bounded:
  assumes "wf s" "capped s c" "level s c \<le> cap s c"
  shows "level (ledger_step op s) c \<le> cap s c"
proof (cases "cell_of op = c")
  case True
  show ?thesis
  proof (cases op)
    case (Take d n)
    with True have [simp]: "d = c" by (simp add: cell_of_def)
    show ?thesis using assms take_decides [of s c n] Take by (auto simp: ledger_step_def take_level)
  next
    case (Give d n)
    with True have [simp]: "d = c" by (simp add: cell_of_def)
    show ?thesis using assms Give by (simp add: ledger_step_def give_level)
  qed
next
  case False
  then show ?thesis using assms
    by (cases op) (simp_all add: ledger_step_def cell_of_def take_other give_other)
qed

lemma run_bounded:
  "wf s \<Longrightarrow> capped s c \<Longrightarrow> level s c \<le> cap s c \<Longrightarrow> level (fold ledger_step ops s) c \<le> cap s c"
proof (induction ops arbitrary: s)
  case (Cons op ops)
  then show ?case using Cons.IH [of "ledger_step op s"] step_frame [of s op] step_bounded [of s c op]
    by simp
qed simp

text \<open>Operations of other Cells are invisible to a Cell's account.\<close>

lemma run_other:
  "wf s \<Longrightarrow> list_all (\<lambda>op. cell_of op \<noteq> c) ops \<Longrightarrow> level (fold ledger_step ops s) c = level s c"
proof (induction ops arbitrary: s)
  case (Cons op ops)
  moreover have "level (ledger_step op s) c = level s c"
    using Cons.prems by (cases op) (simp_all add: ledger_step_def cell_of_def take_other give_other)
  ultimately show ?case using step_frame [of s op] by simp
qed simp

text \<open>A take that is given back leaves the account as it was.\<close>

lemma take_give:
  assumes "wf s" "capped s c" "fst (take_bytes c n s)"
  shows "level (give_bytes c n (snd (take_bytes c n s))) c = level s c"
  using assms wf_take [of s c n] by (simp add: give_level take_capped take_level)

end

definition quota_wf :: "quota_state \<Rightarrow> bool" where
  "quota_wf s \<longleftrightarrow> length (qs_in_use s) = MAX_CELLS \<and> length (qs_dma_in_use s) = MAX_CELLS \<and> bt_wf (qs_limits s)"

definition heap_capped :: "quota_state \<Rightarrow> usize \<Rightarrow> bool" where
  "heap_capped s c \<longleftrightarrow> 0 < c \<and> c < MAX_CELLS
     \<and> (case quota_limit s c of None \<Rightarrow> False | Some l \<Rightarrow> l < - 1)"

definition heap_level :: "quota_state \<Rightarrow> usize \<Rightarrow> nat" where
  "heap_level s c = unat (qs_in_use s ! c)"

definition heap_cap :: "quota_state \<Rightarrow> usize \<Rightarrow> nat" where
  "heap_cap s c = (case quota_limit s c of None \<Rightarrow> unat (- 1 :: u64) | Some l \<Rightarrow> unat l)"

definition dma_capped :: "quota_state \<Rightarrow> usize \<Rightarrow> bool" where
  "dma_capped s c \<longleftrightarrow> 0 < c \<and> c < MAX_CELLS"

definition dma_level :: "quota_state \<Rightarrow> usize \<Rightarrow> nat" where
  "dma_level s c = unat (qs_dma_in_use s ! c)"

definition dma_cap :: "quota_state \<Rightarrow> usize \<Rightarrow> nat" where
  "dma_cap s c = (case quota_limit s c of None \<Rightarrow> unat (default_quota_bytes s) | Some l \<Rightarrow> unat l)"

definition take_dma :: "usize \<Rightarrow> u64 \<Rightarrow> quota_state \<Rightarrow> bool \<times> quota_state" where
  "take_dma c n s = (case try_reserve_dma c n s of (r, s') \<Rightarrow> (r \<noteq> None, s'))"

text \<open>The saturating comparison is the exact one below the largest limit.\<close>

lemma over_limit_iff: "l < - 1 \<Longrightarrow> over_limit l p n \<longleftrightarrow> unat l < unat p + unat n"
  unfolding over_limit_def word_less_nat_alt unat_saturating_add unat_max_word by auto

lemma charge_frame:
  "qs_limits (snd (charge c n s)) = qs_limits s" "qs_dma_in_use (snd (charge c n s)) = qs_dma_in_use s"
  "qs_default (snd (charge c n s)) = qs_default s"
  "length (qs_in_use (snd (charge c n s))) = length (qs_in_use s)"
  by (simp_all add: charge_def Let_def)

lemma refund_frame:
  "qs_limits (refund c n s) = qs_limits s" "qs_dma_in_use (refund c n s) = qs_dma_in_use s"
  "qs_default (refund c n s) = qs_default s" "length (qs_in_use (refund c n s)) = length (qs_in_use s)"
  by (simp_all add: refund_def)

lemma take_dma_frame:
  "qs_limits (snd (take_dma c n s)) = qs_limits s" "qs_in_use (snd (take_dma c n s)) = qs_in_use s"
  "qs_default (snd (take_dma c n s)) = qs_default s"
  "length (qs_dma_in_use (snd (take_dma c n s))) = length (qs_dma_in_use s)"
  by (simp_all add: take_dma_def try_reserve_dma_def Let_def split: option.split prod.split)

lemma record_dma_frame:
  "qs_limits (record_dma_unmapped c n s) = qs_limits s" "qs_in_use (record_dma_unmapped c n s) = qs_in_use s"
  "qs_default (record_dma_unmapped c n s) = qs_default s"
  "length (qs_dma_in_use (record_dma_unmapped c n s)) = length (qs_dma_in_use s)"
  by (simp_all add: record_dma_unmapped_def)

lemmas quota_frames = charge_frame refund_frame take_dma_frame record_dma_frame

lemma charge_capped:
  assumes "quota_wf s" "heap_capped s c"
  shows "charge c n s =
    (if heap_level s c + unat n \<le> heap_cap s c
     then (True, s\<lparr>qs_in_use := (qs_in_use s)[c := qs_in_use s ! c + n]\<rparr>) else (False, s))"
proof -
  from assms(2) obtain l where l: "quota_limit s c = Some l" "l < - 1" "0 < c" "c < MAX_CELLS"
    by (auto simp: heap_capped_def split: option.splits)
  from assms(1) l(4) have "(qs_in_use s)[c := qs_in_use s ! c + n, c := qs_in_use s ! c] = qs_in_use s"
    by simp
  with assms(1) l show ?thesis
    by (simp add: charge_def over_limit_iff quota_wf_def heap_level_def heap_cap_def not_le)
qed

interpretation heap: quota_ledger quota_wf heap_capped heap_level heap_cap charge refund
proof (unfold_locales, goal_cases)
  case (3 s c n)
  then show ?case by (simp add: charge_capped)
next
  case (4 s c n)
  have c: "c < length (qs_in_use s)" using 4 by (simp add: quota_wf_def heap_capped_def)
  show ?case
  proof (cases "heap_level s c + unat n \<le> heap_cap s c")
    case True
    moreover have "heap_cap s c < 2 ^ 64"
      using 4 by (auto simp: heap_capped_def heap_cap_def split: option.splits simp: unat_u64_less [simplified])
    ultimately show ?thesis using 4 c by (simp add: charge_capped heap_level_def unat_word_ariths)
  next
    case False
    then show ?thesis using 4 by (simp add: charge_capped)
  qed
qed (auto simp: quota_wf_def quota_frames fun_eq_iff heap_capped_def heap_cap_def quota_limit_def heap_level_def
       refund_def charge_def Let_def unat_saturating_sub)

interpretation dma: quota_ledger quota_wf dma_capped dma_level dma_cap take_dma record_dma_unmapped
proof (unfold_locales, goal_cases)
  case (3 s c n)
  then show ?case
  proof (cases "checked_add (qs_dma_in_use s ! c) n")
    case None
    with 3 checked_add_None_le [OF None] show ?thesis
      by (auto simp: take_dma_def try_reserve_dma_def dma_capped_def dma_level_def dma_cap_def split: option.split)
  next
    case (Some m)
    with 3 checked_add_SomeD [OF Some] show ?thesis
      by (auto simp: take_dma_def try_reserve_dma_def dma_capped_def dma_level_def dma_cap_def word_le_nat_alt
          split: option.split)
  qed
next
  case (4 s c n)
  then show ?case
    by (auto simp: take_dma_def try_reserve_dma_def dma_capped_def dma_level_def quota_wf_def Let_def
        split: option.split prod.split dest: checked_add_SomeD)
qed (auto simp: quota_wf_def quota_frames fun_eq_iff dma_capped_def dma_cap_def quota_limit_def dma_level_def
       record_dma_unmapped_def take_dma_def try_reserve_dma_def default_quota_bytes_def Let_def unat_saturating_sub
       split: option.split)

section \<open>Every operation keeps every Cell within its limit\<close>

inductive quota_step :: "quota_state \<Rightarrow> quota_state \<Rightarrow> bool" where
  st_default: "set_default_quota_bytes n s = Some s' \<Longrightarrow> quota_step s s'"
| st_register: "quota_step s (register c l s)"
| st_deregister: "quota_step s (deregister c s)"
| st_reserve: "quota_step s (snd (quota_reserve c l s))"
| st_reserve_next: "quota_step s (snd (quota_reserve_next l s))"
| st_drop: "quota_step s (drop_quota r s)"
| st_commit: "quota_step s (commit_quota r s)"
| st_charge: "quota_step s (snd (charge cell n s))"
| st_refund: "quota_step s (refund cell n s)"
| st_reserve_dma: "quota_step s (snd (try_reserve_dma cell n s))"
| st_unmap_dma: "quota_step s (record_dma_unmapped cell n s)"
| st_drop_dma: "quota_step s (drop_dma d s)"
| st_commit_dma: "quota_step s (commit_dma d s)"
| st_alloc: "quota_step s (fst (snd (quota_alloc (\<lambda>_ _. (p, ())) cell n (s, ()))))"
| st_dealloc: "quota_step s (fst (quota_dealloc (\<lambda>_ _ _. ()) cell ptr n (s, ())))"
| st_claim: "quota_step s (snd (claim_charge cell m n s))"
| st_claim_drop: "quota_step s (claim_drop k s)"
| st_transfer: "quota_step s (claim_transfer k s)"

definition quota_inv :: "quota_state \<Rightarrow> bool" where
  "quota_inv s \<longleftrightarrow> quota_wf s \<and> qs_in_use s ! 0 = 0
     \<and> (\<forall>c l. c < MAX_CELLS \<longrightarrow> quota_limit s c = Some l \<longrightarrow> qs_in_use s ! c \<le> l)"

lemma MAX_CELLS_pos [simp]: "0 < MAX_CELLS" "MAX_CELLS \<noteq> 0" "Suc 0 < MAX_CELLS" "\<not> MAX_CELLS \<le> Suc 0"
  by (simp_all add: MAX_CELLS_def)

lemma quota_inv_init: "quota_inv quota_init"
  by (simp add: quota_inv_def quota_wf_def quota_init_def quota_limit_def)

lemma quota_inv_register: "quota_inv s \<Longrightarrow> quota_inv (register c l s)"
  by (auto simp: quota_inv_def quota_wf_def register_def Let_def quota_limit_def nth_list_update split: if_splits)

lemma quota_inv_deregister: "quota_inv s \<Longrightarrow> quota_inv (deregister c s)"
  by (auto simp: quota_inv_def quota_wf_def deregister_def Let_def quota_limit_def nth_list_update split: if_splits)

lemma quota_inv_reserve: "quota_inv s \<Longrightarrow> quota_inv (snd (quota_reserve c l s))"
  by (simp add: quota_reserve_def Let_def quota_inv_register)

lemma quota_inv_reserve_loop: "quota_inv s \<Longrightarrow> quota_inv (snd (reserve_loop raws l s))"
proof (induction raws arbitrary: s)
  case (Cons raw raws)
  then show ?case using quota_inv_reserve [OF Cons.prems, of "of_nat raw" l]
    by (cases "quota_reserve (of_nat raw) l s") (auto split: sum.split)
qed simp

lemma quota_inv_charge:
  assumes "quota_inv s"
  shows "quota_inv (snd (charge c n s))"
proof (cases "heap_capped s c")
  case True
  from assms have wf: "quota_wf s" by (simp add: quota_inv_def)
  have c: "c < length (qs_in_use s)" "c \<noteq> 0" "c < MAX_CELLS" using True wf by (simp_all add: quota_wf_def heap_capped_def)
  have fits: "qs_in_use s ! c + n \<le> l"
    if "heap_level s c + unat n \<le> heap_cap s c" "quota_limit s c = Some l" for l
  proof -
    have "unat l < 2 ^ 64" by (rule unat_u64_less)
    with that show ?thesis by (simp add: heap_level_def heap_cap_def word_le_nat_alt unat_word_ariths)
  qed
  show ?thesis
  proof (cases "heap_level s c + unat n \<le> heap_cap s c")
    case ok: True
    with assms c fits show ?thesis
      by (auto simp: charge_capped [OF wf True] quota_inv_def quota_wf_def quota_limit_def nth_list_update)
  next
    case False
    with assms show ?thesis by (simp add: charge_capped [OF wf True])
  qed
next
  case False
  then have "c = 0 \<or> MAX_CELLS \<le> c \<or> (\<forall>l. quota_limit s c = Some l \<longrightarrow> l = - 1)"
    by (auto simp: heap_capped_def word_order.not_eq_extremum split: option.splits)
  with assms show ?thesis
    by (auto simp: charge_def quota_inv_def quota_wf_def quota_limit_def Let_def nth_list_update)
qed

lemma quota_inv_refund: "quota_inv s \<Longrightarrow> quota_inv (refund c n s)"
  by (auto simp: quota_inv_def quota_wf_def refund_def quota_limit_def nth_list_update
      intro: order_trans [OF saturating_sub_le])

lemma quota_inv_dma:
  "quota_inv s \<Longrightarrow> quota_inv (snd (try_reserve_dma c n s))"
  "quota_inv s \<Longrightarrow> quota_inv (record_dma_unmapped c n s)"
  by (auto simp: quota_inv_def quota_wf_def try_reserve_dma_def record_dma_unmapped_def quota_limit_def Let_def
      split: option.splits)

lemma quota_inv_step: "quota_step s t \<Longrightarrow> quota_inv s \<Longrightarrow> quota_inv t"
proof (induction rule: quota_step.induct)
  case (st_default n s s')
  then show ?case
    by (auto simp: set_default_quota_bytes_def quota_inv_def quota_wf_def quota_limit_def split: if_splits)
next
  case (st_alloc s p cell n)
  then show ?case using quota_inv_charge [of s cell n]
    by (auto simp: quota_alloc_def quota_inv_refund split: prod.split option.split bool.split)
next
  case (st_claim s cell m n)
  then show ?case using quota_inv_charge [of s cell "m + n"]
    by (auto simp: claim_charge_def split: option.split prod.split bool.split dest: checked_add_SomeD)
qed (simp_all add: quota_inv_register quota_inv_deregister quota_inv_reserve quota_inv_reserve_loop
      quota_reserve_next_def drop_quota_def commit_quota_def quota_inv_charge quota_inv_refund
      quota_inv_dma drop_dma_def commit_dma_def quota_dealloc_def claim_drop_def claim_transfer_def)

lemma quota_inv_steps: "quota_step\<^sup>*\<^sup>* s t \<Longrightarrow> quota_inv s \<Longrightarrow> quota_inv t"
  by (induction rule: rtranclp_induct) (blast intro: quota_inv_step)+

section \<open>Concurrent charges of one Cell\<close>

text \<open>
  The atomic steps of tasks of one Cell charging and refunding at the same time, interleaved in any
  order: the deciding \<open>fetch_add\<close>, the \<open>fetch_sub\<close> of a charge that was refused, and the refund, which
  the code makes for any size at any time.  \<open>cr_pending\<close> holds the refused charges whose \<open>fetch_sub\<close> is
  still to come.  The other fields only record the history: \<open>cr_held\<close> the bytes granted and not yet
  refunded, \<open>cr_spurious\<close> the bytes refunded beyond those, \<open>cr_wrapped\<close> that the \<open>fetch_add\<close> of a refused
  charge has wrapped the counter.
\<close>

record charge_race =
  cr_counter :: u64
  cr_pending :: "u64 multiset"
  cr_held :: nat
  cr_spurious :: nat
  cr_wrapped :: bool

inductive race_step :: "u64 \<Rightarrow> charge_race \<Rightarrow> charge_race \<Rightarrow> bool" for limit where
  race_admit: "\<not> over_limit limit (cr_counter r) n \<Longrightarrow>
    race_step limit r (r\<lparr>cr_counter := cr_counter r + n, cr_held := cr_held r + unat n\<rparr>)"
| race_breach: "over_limit limit (cr_counter r) n \<Longrightarrow>
    race_step limit r (r\<lparr>cr_counter := cr_counter r + n, cr_pending := add_mset n (cr_pending r),
      cr_wrapped := (cr_wrapped r \<or> 2 ^ 64 \<le> unat (cr_counter r) + unat n)\<rparr>)"
| race_rollback: "n \<in># cr_pending r \<Longrightarrow>
    race_step limit r (r\<lparr>cr_counter := cr_counter r - n, cr_pending := cr_pending r - {#n#}\<rparr>)"
| race_refund:
    "race_step limit r (r\<lparr>cr_counter := saturating_sub (cr_counter r) n, cr_held := cr_held r - unat n,
      cr_spurious := cr_spurious r + (unat n - cr_held r)\<rparr>)"

definition race_init :: charge_race where
  "race_init = \<lparr>cr_counter = 0, cr_pending = {#}, cr_held = 0, cr_spurious = 0, cr_wrapped = False\<rparr>"

definition in_flight :: "charge_race \<Rightarrow> nat" where
  "in_flight r = sum_mset (image_mset unat (cr_pending r))"

text \<open>
  Until a refused charge wraps the counter, the counter and the spurious bytes together cover what is
  held and in flight, and the counter is exactly that when no refund was spurious.
\<close>

definition race_inv :: "u64 \<Rightarrow> charge_race \<Rightarrow> bool" where
  "race_inv limit r \<longleftrightarrow> cr_wrapped r \<or>
     (cr_held r + in_flight r \<le> unat (cr_counter r) + cr_spurious r
      \<and> cr_held r \<le> unat limit + cr_spurious r
      \<and> (cr_spurious r = 0 \<longrightarrow> unat (cr_counter r) = cr_held r + in_flight r))"

lemma in_flight_remove:
  "n \<in># cr_pending r \<Longrightarrow> in_flight r = sum_mset (image_mset unat (cr_pending r - {#n#})) + unat n"
  by (simp add: in_flight_def sum_mset.remove [of "unat n"] image_mset_Diff)

lemma race_rollback_counter:
  fixes c n :: u64
  shows "unat c \<le> unat (c - n) + unat n" "n \<le> c \<Longrightarrow> unat (c - n) + unat n = unat c"
proof -
  show "unat c \<le> unat (c - n) + unat n"
    using unat_word_ariths(1) [of "c - n" n] by (metis diff_add_cancel mod_less_eq_dividend)
  show "n \<le> c \<Longrightarrow> unat (c - n) + unat n = unat c" by (simp add: unat_sub word_le_nat_alt)
qed

lemma race_inv_step:
  assumes "race_step limit r t" "limit < - 1" "race_inv limit r"
  shows "race_inv limit t"
  using assms
proof (induction rule: race_step.induct)
  case (race_admit r n)
  then have "unat (cr_counter r) + unat n \<le> unat limit" by (simp add: over_limit_iff not_less)
  moreover from this have "unat (cr_counter r + n) = unat (cr_counter r) + unat n"
    using unat_u64_less [of limit] by (simp add: unat_word_ariths)
  ultimately show ?case using race_admit.prems by (auto simp: race_inv_def in_flight_def)
next
  case (race_breach r n)
  have "unat (cr_counter r) + unat n < 2 ^ 64 \<Longrightarrow> unat (cr_counter r + n) = unat (cr_counter r) + unat n"
    by (simp add: unat_word_ariths)
  then show ?case using race_breach.prems by (auto simp: race_inv_def in_flight_def not_le)
next
  case (race_rollback n r)
  let ?t = "r\<lparr>cr_counter := cr_counter r - n, cr_pending := cr_pending r - {#n#}\<rparr>"
  have rest: "in_flight r = in_flight ?t + unat n"
    using in_flight_remove [OF race_rollback.hyps] by (simp add: in_flight_def)
  note counter = race_rollback_counter [where c = "cr_counter r" and n = n]
  have exact: "unat (cr_counter r) = cr_held r + in_flight r \<Longrightarrow> unat (cr_counter r - n) = cr_held r + in_flight ?t"
  proof -
    assume "unat (cr_counter r) = cr_held r + in_flight r"
    then show ?thesis using rest counter(2) [unfolded word_le_nat_alt] by linarith
  qed
  show ?case using race_rollback.prems rest counter(1) exact by (auto simp: race_inv_def)
next
  case (race_refund r n)
  then show ?case by (auto simp: race_inv_def in_flight_def unat_saturating_sub)
qed

lemma race_inv_steps:
  assumes "(race_step limit)\<^sup>*\<^sup>* r t" "limit < - 1" "race_inv limit r"
  shows "race_inv limit t"
  using assms by (induction rule: rtranclp_induct) (blast intro: race_inv_step)+

text \<open>A charge or a refund that runs alone is one of the paths of the interleaving.\<close>

lemma charge_race_alone:
  assumes "quota_wf s" "heap_capped s c" "quota_limit s c = Some limit"
    and "cr_counter r = qs_in_use s ! c"
  shows "\<exists>t. (race_step limit)\<^sup>*\<^sup>* r t \<and> cr_counter t = qs_in_use (snd (charge c n s)) ! c
    \<and> cr_pending t = cr_pending r \<and> cr_held t = cr_held r + (if fst (charge c n s) then unat n else 0)"
proof (cases "over_limit limit (cr_counter r) n")
  case True
  let ?b = "r\<lparr>cr_counter := cr_counter r + n, cr_pending := add_mset n (cr_pending r),
    cr_wrapped := (cr_wrapped r \<or> 2 ^ 64 \<le> unat (cr_counter r) + unat n)\<rparr>"
  have "race_step limit r ?b" using True by (rule race_breach)
  moreover have "race_step limit ?b (?b\<lparr>cr_counter := cr_counter ?b - n, cr_pending := cr_pending ?b - {#n#}\<rparr>)"
    by (rule race_rollback) simp
  ultimately have "(race_step limit)\<^sup>*\<^sup>* r (?b\<lparr>cr_counter := cr_counter ?b - n, cr_pending := cr_pending ?b - {#n#}\<rparr>)"
    by (blast intro: converse_rtranclp_into_rtranclp)
  moreover have "fst (charge c n s) = False" "qs_in_use (snd (charge c n s)) ! c = qs_in_use s ! c"
    using True assms by (auto simp: charge_def heap_capped_def quota_wf_def)
  ultimately show ?thesis using assms(4) by (intro exI conjI) simp_all
next
  case False
  then have "race_step limit r (r\<lparr>cr_counter := cr_counter r + n, cr_held := cr_held r + unat n\<rparr>)"
    by (rule race_admit)
  moreover have "fst (charge c n s)" "qs_in_use (snd (charge c n s)) ! c = qs_in_use s ! c + n"
    using False assms by (auto simp: charge_def heap_capped_def quota_wf_def)
  ultimately show ?thesis using assms(4) by (intro exI conjI) (erule r_into_rtranclp, simp_all)
qed

lemma refund_race_alone:
  assumes "quota_wf s" "0 < c" "c < MAX_CELLS" and "cr_counter r = qs_in_use s ! c"
  shows "\<exists>t. race_step limit r t \<and> cr_counter t = qs_in_use (refund c n s) ! c \<and> cr_pending t = cr_pending r"
proof (intro exI conjI)
  show "race_step limit r (r\<lparr>cr_counter := saturating_sub (cr_counter r) n, cr_held := cr_held r - unat n,
      cr_spurious := cr_spurious r + (unat n - cr_held r)\<rparr>)"
    by (rule race_refund)
qed (use assms in \<open>simp_all add: refund_def quota_wf_def\<close>)

text \<open>
  Once a refused charge has wrapped the counter the limit can be exceeded: two refused charges of
  \<open>isize::MAX\<close> bytes, the largest size a layout can have, wrap the counter by two bytes.
\<close>

lemma race_wrap_exceeds:
  "\<exists>t. (race_step DEFAULT_QUOTA_BYTES)\<^sup>*\<^sup>* race_init t \<and> cr_spurious t = 0 \<and> unat DEFAULT_QUOTA_BYTES < cr_held t"
proof -
  let ?L = DEFAULT_QUOTA_BYTES and ?big = "0x7FFFFFFFFFFFFFFF :: u64"
  let ?r1 = "race_init\<lparr>cr_counter := 3, cr_held := 3\<rparr>"
  let ?r2 = "?r1\<lparr>cr_counter := 0x8000000000000002, cr_pending := {#?big#}\<rparr>"
  let ?r3 = "?r2\<lparr>cr_counter := 1, cr_pending := {#?big, ?big#}, cr_wrapped := True\<rparr>"
  let ?r4 = "?r3\<lparr>cr_counter := ?L, cr_held := 3 + unat (?L - 1)\<rparr>"
  note eval = race_init_def over_limit_def saturating_add_code DEFAULT_QUOTA_BYTES_def
  have wrap: "(18446744073709551617 :: u64) = 1" by simp
  have 1: "race_step ?L race_init ?r1" using race_admit [of ?L race_init 3] by (simp add: eval)
  have 2: "race_step ?L ?r1 ?r2" using race_breach [of ?L ?r1 ?big] by (simp add: eval)
  have 3: "race_step ?L ?r2 ?r3" using race_breach [of ?L ?r2 ?big] by (simp add: eval wrap)
  have 4: "race_step ?L ?r3 ?r4" using race_admit [of ?L ?r3 "?L - 1"] by (simp add: eval)
  have "(race_step ?L)\<^sup>*\<^sup>* race_init ?r1" using 1 by (rule r_into_rtranclp)
  then have "(race_step ?L)\<^sup>*\<^sup>* race_init ?r2" using 2 by (rule rtranclp.rtrancl_into_rtrancl)
  then have "(race_step ?L)\<^sup>*\<^sup>* race_init ?r3" using 3 by (rule rtranclp.rtrancl_into_rtrancl)
  then have "(race_step ?L)\<^sup>*\<^sup>* race_init ?r4" using 4 by (rule rtranclp.rtrancl_into_rtrancl)
  then show ?thesis by (rule exI [where x = ?r4, OF conjI]) (simp add: eval)
qed

text \<open>
  A spurious refund that lands while a refused charge is in flight is taken out of the bytes the refused
  charge is about to take back, and its \<open>fetch_sub\<close> then wraps the counter of an idle Cell to
  \<open>usize::MAX\<close>: from there on every charge of a byte or more is refused.
\<close>

lemma race_spurious_wraps:
  "\<exists>t. (race_step DEFAULT_QUOTA_BYTES)\<^sup>*\<^sup>* race_init t \<and> cr_pending t = {#} \<and> cr_held t = 0 \<and> cr_spurious t = 1
     \<and> cr_counter t = - 1 \<and> \<not> cr_wrapped t \<and> (\<forall>n > 0. over_limit DEFAULT_QUOTA_BYTES (cr_counter t) n)"
proof -
  let ?L = DEFAULT_QUOTA_BYTES
  let ?r1 = "race_init\<lparr>cr_counter := ?L + 1, cr_pending := {#?L + 1#}\<rparr>"
  let ?r2 = "?r1\<lparr>cr_counter := ?L, cr_spurious := 1\<rparr>"
  let ?r3 = "?r2\<lparr>cr_counter := - 1, cr_pending := {#}\<rparr>"
  note eval = race_init_def over_limit_def saturating_add_code saturating_sub_def DEFAULT_QUOTA_BYTES_def
  have 1: "race_step ?L race_init ?r1" using race_breach [of ?L race_init "?L + 1"] by (simp add: eval)
  have 2: "race_step ?L ?r1 ?r2" using race_refund [of ?L ?r1 1] by (simp add: eval)
  have 3: "race_step ?L ?r2 ?r3" using race_rollback [of "?L + 1" ?r2 ?L] by (simp add: eval)
  have "(race_step ?L)\<^sup>*\<^sup>* race_init ?r3"
    using 1 2 3 by (meson r_into_rtranclp rtranclp.rtrancl_into_rtrancl)
  moreover have "over_limit ?L (- 1) n" for n
    by (simp add: over_limit_def word_less_nat_alt unat_saturating_add unat_max_word DEFAULT_QUOTA_BYTES_def)
  ultimately show ?thesis by (intro exI [of _ ?r3]) (simp add: race_init_def)
qed

section \<open>Reservation of identities\<close>

text \<open>A reservation takes the lowest vacant identity.\<close>

lemma quota_reserve_ok:
  "0 < raw \<Longrightarrow> raw < MAX_CELLS \<Longrightarrow>
   quota_reserve (of_nat raw) l s =
     (if bt_contains (qs_limits s) raw then (Err AlreadyExists, s)
      else (Ok \<lparr>qr_cell_id = of_nat raw, qr_committed = False\<rparr>, register (of_nat raw) l s))"
  by (simp add: quota_reserve_def Let_def unat_of_nat MAX_CELLS_def)

lemma reserve_loop_spec:
  "list_all (\<lambda>raw. 0 < raw \<and> raw < MAX_CELLS) raws \<Longrightarrow>
   reserve_loop raws l s =
     (case find (\<lambda>raw. \<not> bt_contains (qs_limits s) raw) raws of
        None \<Rightarrow> (Err OutOfMemory, s)
      | Some raw \<Rightarrow> (Ok \<lparr>qr_cell_id = of_nat raw, qr_committed = False\<rparr>, register (of_nat raw) l s))"
  by (induction raws) (simp_all add: quota_reserve_ok)

text \<open>The first vacant identifier below the table size.\<close>

definition vacant :: "quota_state \<Rightarrow> usize \<Rightarrow> bool" where
  "vacant s raw \<longleftrightarrow> 0 < raw \<and> raw < MAX_CELLS \<and> \<not> bt_contains (qs_limits s) raw"

lemma find_upt: "find P [a..<b] = Some i \<longleftrightarrow> a \<le> i \<and> i < b \<and> P i \<and> (\<forall>j. a \<le> j \<longrightarrow> j < i \<longrightarrow> \<not> P j)"
proof (induction "b - a" arbitrary: a)
  case (Suc n)
  then have "find P [a..<b] = (if P a then Some a else find P [Suc a..<b])" by (simp add: upt_conv_Cons)
  with Suc show ?case by (auto simp: Suc_le_eq dest: le_neq_implies_less)
qed simp

lemma reserve_next_Ok:
  "quota_reserve_next l s = (Ok r, s') \<longleftrightarrow>
     (\<exists>raw. vacant s raw \<and> (\<forall>j. vacant s j \<longrightarrow> raw \<le> j)
        \<and> r = \<lparr>qr_cell_id = of_nat raw, qr_committed = False\<rparr> \<and> s' = register (of_nat raw) l s)"
proof -
  have "list_all (\<lambda>raw. 0 < raw \<and> raw < MAX_CELLS) [1..<MAX_CELLS]" by (simp add: list_all_iff)
  then have "quota_reserve_next l s = (Ok r, s') \<longleftrightarrow>
    (\<exists>raw. find (\<lambda>raw. \<not> bt_contains (qs_limits s) raw) [1..<MAX_CELLS] = Some raw
       \<and> r = \<lparr>qr_cell_id = of_nat raw, qr_committed = False\<rparr> \<and> s' = register (of_nat raw) l s)"
    unfolding quota_reserve_next_def by (subst reserve_loop_spec) (auto split: option.split)
  moreover have "find (\<lambda>raw. \<not> bt_contains (qs_limits s) raw) [1..<MAX_CELLS] = Some raw \<longleftrightarrow>
      vacant s raw \<and> (\<forall>j. vacant s j \<longrightarrow> raw \<le> j)" for raw
    unfolding find_upt vacant_def by (auto simp: Suc_le_eq) (meson not_le order_less_trans)+
  ultimately show ?thesis by simp
qed

lemma reserve_next_Err:
  "quota_reserve_next l s = (Err e, s') \<Longrightarrow> e = OutOfMemory \<and> s' = s \<and> Collect (vacant s) = {}"
proof -
  have "list_all (\<lambda>raw. 0 < raw \<and> raw < MAX_CELLS) [1..<MAX_CELLS]" by (simp add: list_all_iff)
  moreover assume "quota_reserve_next l s = (Err e, s')"
  ultimately have "find (\<lambda>raw. \<not> bt_contains (qs_limits s) raw) [1..<MAX_CELLS] = None \<and> e = OutOfMemory \<and> s' = s"
    unfolding quota_reserve_next_def by (subst (asm) reserve_loop_spec) (auto split: option.splits)
  then show ?thesis by (auto simp: find_None_iff vacant_def)
qed

lemma reservation_rollback:
  assumes "vacant s raw"
  shows "quota_limit (register (of_nat raw) l s) = (quota_limit s)(raw \<mapsto> l)"
    and "quota_limit (deregister (of_nat raw) (register (of_nat raw) l s)) = quota_limit s"
  using assms
  by (auto simp: vacant_def register_def deregister_def quota_limit_def Let_def unat_of_nat MAX_CELLS_def
      bt_contains_def fun_eq_iff)

lemma commit_quota_id [simp]: "commit_quota r s = s"
  by (simp add: commit_quota_def drop_quota_def)

lemma refund_after_charge:
  assumes "quota_wf s" "heap_capped s c" "charge c n s = (True, t)"
  shows "refund c n t = s"
proof -
  have "heap_cap s c < 2 ^ 64"
    using assms(2) unat_u64_less by (auto simp: heap_capped_def heap_cap_def split: option.splits)
  with assms have "unat (qs_in_use s ! c) + unat n < 2 ^ 64"
    "t = s\<lparr>qs_in_use := (qs_in_use s)[c := qs_in_use s ! c + n]\<rparr>"
    by (auto simp: charge_capped heap_level_def split: if_splits)
  moreover have "0 < c" "c < MAX_CELLS" "c < length (qs_in_use s)"
    using assms(1,2) by (simp_all add: heap_capped_def quota_wf_def)
  ultimately show ?thesis by (simp add: refund_def saturating_sub_add)
qed

end
