(* ===== verification/Resource_Props.thy ===== *)
theory Resource_Props
  imports Quota
begin

text \<open>
  Properties of the resource components: the per-Cell quota ledger and the charging allocator.
\<close>

section \<open>Quotas\<close>

definition sample_quota :: quota_state where
  "sample_quota = snd (charge 1 4096 (register 1 DEFAULT_QUOTA_BYTES quota_init))"

lemma sample_quota_eq:
  "sample_quota = quota_init\<lparr>qs_limits := [(1, DEFAULT_QUOTA_BYTES)], qs_in_use := (replicate MAX_CELLS 0)[1 := 4096]\<rparr>"
proof -
  have "(replicate MAX_CELLS (0 :: u64))[1 := 0] = replicate MAX_CELLS 0"
    by (simp add: list_update_same_conv MAX_CELLS_def)
  then show ?thesis
    by (simp add: sample_quota_def register_def charge_def quota_limit_def quota_init_def over_limit_def
        saturating_add_code DEFAULT_QUOTA_BYTES_def Let_def not_le)
qed

lemma sample_quota_reachable: "quota_step\<^sup>*\<^sup>* quota_init sample_quota"
  unfolding sample_quota_def
  by (rule rtranclp.rtrancl_into_rtrancl, rule r_into_rtranclp, rule st_register, rule st_charge)

lemma sample_quota_capped: "quota_wf sample_quota" "heap_capped sample_quota 1"
  by (simp_all add: sample_quota_eq quota_wf_def heap_capped_def quota_limit_def quota_init_def bt_wf_def
      DEFAULT_QUOTA_BYTES_def MAX_CELLS_def)

text \<open>
  C25. No Cell is ever above its heap quota, and the quota is the only reason for a refusal.  From boot,
  after any sequence of registrations, reservations, commits and drops, charges, refunds, DMA
  reservations, allocations, deallocations and publication claims, in any order and for any Cells and
  sizes, the bytes charged to a Cell that has a limit are at most that limit.  For a Cell with a slot and
  a limit below \<open>usize::MAX\<close>, the next charge is granted exactly when the bytes in use and the request,
  added without wrapping, are within the limit: a request whose size would wrap the counter is refused.
  A granted charge adds exactly the request, as natural numbers, and a refused one changes nothing.
\<close>

theorem quota_never_exceeded:
  assumes "quota_step\<^sup>*\<^sup>* quota_init s" and "quota_limit s (unat c) = Some l"
  shows "quota_in_use s c \<le> l
    \<and> (0 < c \<longrightarrow> unat c < MAX_CELLS \<longrightarrow> l < - 1 \<longrightarrow>
        (fst (charge (unat c) n s) \<longleftrightarrow> unat (quota_in_use s c) + unat n \<le> unat l)
        \<and> (fst (charge (unat c) n s) \<longrightarrow>
             unat (quota_in_use (snd (charge (unat c) n s)) c) = unat (quota_in_use s c) + unat n)
        \<and> (\<not> fst (charge (unat c) n s) \<longrightarrow> snd (charge (unat c) n s) = s))"
proof (intro conjI impI)
  have inv: "quota_inv s" using quota_inv_steps [OF assms(1) quota_inv_init] .
  show "quota_in_use s c \<le> l" using inv assms(2) by (auto simp: quota_inv_def quota_in_use_def Let_def)
  assume c: "0 < c" "unat c < MAX_CELLS" "l < - 1"
  have wf: "quota_wf s" using inv by (simp add: quota_inv_def)
  have cap: "heap_capped s (unat c)"
    using c assms(2) by (simp add: heap_capped_def word_less_nat_alt)
  have level: "heap_level s (unat c) = unat (quota_in_use s c)" "heap_cap s (unat c) = unat l"
    using c(2) assms(2) by (simp_all add: heap_level_def heap_cap_def quota_in_use_def Let_def)
  note charged = charge_capped [OF wf cap, of n] heap.take_level [OF wf cap, of n]
  show "fst (charge (unat c) n s) \<longleftrightarrow> unat (quota_in_use s c) + unat n \<le> unat l"
    by (simp add: charged(1) level)
  show "snd (charge (unat c) n s) = s" if "\<not> fst (charge (unat c) n s)"
    using that by (simp add: charged(1) split: if_splits)
  show "unat (quota_in_use (snd (charge (unat c) n s)) c) = unat (quota_in_use s c) + unat n"
    if "fst (charge (unat c) n s)"
    using that charged(2) c(2) by (simp add: heap_level_def quota_in_use_def Let_def)
qed

theorem quota_never_exceeded_witness:
  "quota_in_use sample_quota 1 = 4096 \<and> quota_in_use sample_quota 1 \<le> DEFAULT_QUOTA_BYTES
   \<and> \<not> fst (charge 1 0xFFFFFFFFFFFFFFFF sample_quota) \<and> snd (charge 1 0xFFFFFFFFFFFFFFFF sample_quota) = sample_quota
   \<and> unat (quota_in_use (snd (charge 1 8 sample_quota)) 1) = 4104"
  using quota_never_exceeded [OF sample_quota_reachable, of 1 DEFAULT_QUOTA_BYTES "0xFFFFFFFFFFFFFFFF"]
    quota_never_exceeded [OF sample_quota_reachable, of 1 DEFAULT_QUOTA_BYTES 8]
  by (simp add: sample_quota_eq quota_limit_def quota_in_use_def MAX_CELLS_def DEFAULT_QUOTA_BYTES_def)

text \<open>
  C26. The lock-free charge is bounded under concurrency.  Tasks of one Cell run the atomic steps of
  \<open>charge\<close> (the deciding \<open>fetch_add\<close> and, after a refusal, the \<open>fetch_sub\<close>) and of \<open>refund\<close>, with any
  sizes, interleaved in any order.  As long as no refused charge has wrapped the counter, the bytes
  granted and not refunded exceed the limit by at most the bytes that were refunded without being held;
  and while no refund was spurious, the limit is never exceeded and the counter is always exactly the
  bytes held plus the refused bytes whose \<open>fetch_sub\<close> is still to come.
\<close>

theorem concurrent_charges_bounded:
  assumes "(race_step limit)\<^sup>*\<^sup>* race_init t" and "limit < - 1" and "\<not> cr_wrapped t"
  shows "cr_held t \<le> unat limit + cr_spurious t
    \<and> (cr_spurious t = 0 \<longrightarrow> cr_held t \<le> unat limit \<and> unat (cr_counter t) = cr_held t + in_flight t)"
  using race_inv_steps [OF assms(1,2)] assms(3) by (simp add: race_inv_def race_init_def in_flight_def)

theorem concurrent_charges_bounded_witness:
  "\<exists>t. cr_pending t = {#8#} \<and> cr_spurious t = 0 \<and> cr_held t \<le> 10 \<and> unat (cr_counter t) = cr_held t + in_flight t"
proof -
  let ?a = "race_init\<lparr>cr_counter := 4, cr_held := 4\<rparr>" and ?b = "race_init\<lparr>cr_counter := 12, cr_held := 4, cr_pending := {#8#}\<rparr>"
  have 1: "race_step 10 race_init ?a"
    using race_admit [of 10 race_init 4] by (simp add: race_init_def over_limit_def saturating_add_code)
  have 2: "race_step 10 ?a ?b"
    using race_breach [of 10 ?a 8] by (simp add: race_init_def over_limit_def saturating_add_code)
  have "(race_step 10)\<^sup>*\<^sup>* race_init ?b"
    by (rule rtranclp.rtrancl_into_rtrancl [where b = ?a]) (auto intro: r_into_rtranclp 1 2)
  then have "cr_held ?b \<le> unat (10 :: u64) + cr_spurious ?b
      \<and> (cr_spurious ?b = 0 \<longrightarrow> cr_held ?b \<le> unat (10 :: u64) \<and> unat (cr_counter ?b) = cr_held ?b + in_flight ?b)"
    by (rule concurrent_charges_bounded) (simp_all add: race_init_def)
  then show ?thesis by (intro exI [of _ ?b]) (simp add: race_init_def)
qed

text \<open>
  C27. An allocation that fails costs nothing.  For a Cell with a limit, \<open>alloc\<close> returns no address
  exactly when the request does not fit under the limit or the inner heap has no block, and then every
  account is what it was; when it returns an address the Cell is charged exactly the requested bytes and
  every other account is unchanged.
\<close>

theorem failed_allocation_costs_nothing:
  assumes "quota_wf s" and "heap_capped s cell"
  shows "case quota_alloc inner_alloc cell n (s, h) of
      (None, s', h') \<Rightarrow> s' = s \<and>
        (heap_cap s cell < heap_level s cell + unat n \<or> fst (inner_alloc h n) = None)
    | (Some ptr, s', h') \<Rightarrow> inner_alloc h n = (Some ptr, h') \<and>
        heap_level s cell + unat n \<le> heap_cap s cell \<and>
        s' = s\<lparr>qs_in_use := (qs_in_use s)[cell := qs_in_use s ! cell + n]\<rparr>"
proof (cases "heap_level s cell + unat n \<le> heap_cap s cell")
  case True
  let ?s = "s\<lparr>qs_in_use := (qs_in_use s)[cell := qs_in_use s ! cell + n]\<rparr>"
  have undo: "refund cell n ?s = s"
    using assms True by (intro refund_after_charge) (simp_all add: charge_capped)
  show ?thesis
    using True undo by (auto simp: quota_alloc_def charge_capped [OF assms] split: prod.split option.split)
next
  case False
  then show ?thesis by (auto simp: quota_alloc_def charge_capped [OF assms])
qed

theorem failed_allocation_costs_nothing_witness:
  "quota_alloc (\<lambda>h n. (None, h)) 1 4096 (sample_quota, ()) = (None, sample_quota, ())
   \<and> fst (quota_alloc (\<lambda>h n. (Some 64, h)) 1 4096 (sample_quota, ())) = Some 64"
  using failed_allocation_costs_nothing [OF sample_quota_capped, where inner_alloc = "\<lambda>h n. (None, h)" and h = "()" and n = 4096]
    failed_allocation_costs_nothing [OF sample_quota_capped, where inner_alloc = "\<lambda>h n. (Some 64, h)" and h = "()" and n = 4096]
  by (auto simp: heap_cap_def heap_level_def sample_quota_eq quota_limit_def MAX_CELLS_def
      DEFAULT_QUOTA_BYTES_def split: prod.splits option.splits)

text \<open>
  C28. Identity reservation takes the lowest vacant identity and rolls back exactly.  \<open>reserve_next\<close>
  returns the least identifier between 1 and the table size that has no limit row and gives it the
  limit; dropping the reservation uncommitted removes exactly that row, committing it keeps the table.
  It fails only with \<open>OutOfMemory\<close>, without changing anything, when no identifier is vacant.
\<close>

theorem identity_reservation_exact:
  "case quota_reserve_next l s of
     (Ok r, s') \<Rightarrow> vacant s (Least (vacant s)) \<and> qr_cell_id r = of_nat (Least (vacant s))
       \<and> quota_limit s' = (quota_limit s)(Least (vacant s) \<mapsto> l)
       \<and> quota_limit (drop_quota r s') = quota_limit s \<and> commit_quota r s' = s'
   | (Err e, s') \<Rightarrow> e = OutOfMemory \<and> s' = s \<and> Collect (vacant s) = {}"
proof (cases "quota_reserve_next l s")
  case (Pair res s')
  show ?thesis
  proof (cases res)
    case (Inl e)
    with Pair show ?thesis using reserve_next_Err [of l s e s'] by simp
  next
    case (Inr r)
    with Pair obtain raw where raw: "vacant s raw" "\<forall>j. vacant s j \<longrightarrow> raw \<le> j"
      "r = \<lparr>qr_cell_id = of_nat raw, qr_committed = False\<rparr>" "s' = register (of_nat raw) l s"
      using reserve_next_Ok [of l s r s'] by auto
    from raw(1,2) have "Least (vacant s) = raw" by (auto intro: Least_equality)
    with raw Inr Pair show ?thesis using reservation_rollback [OF raw(1), where l = l] by (simp add: drop_quota_def)
  qed
qed

end
