(* ===== verification/Ready_Queue.thy ===== *)
theory Ready_Queue
  imports Cellos_Prelude "HOL-Library.Multiset"
begin

text \<open>
  The per-hart ready queues of \<open>kernel/src/task/hart_local/ready.rs\<close>: priority buckets of task
  identifiers, the capacity promises made to unpublished children and to selections that may roll
  back, local selection, removal, and work stealing, together with the hart identity fields of
  \<open>hart_local.rs\<close> that decide whether a queued task is owned by another hart.  A \<open>VecDeque\<close> is its
  items and its capacity; a failed assertion or \<open>expect\<close> is \<open>None\<close>.
\<close>

section \<open>State\<close>

definition MAX_HARTS :: usize where "MAX_HARTS = 2"
definition HART_RT :: usize where "HART_RT = 1"
definition RT_PRIO :: u8 where "RT_PRIO = 2"

record vec_deque =
  vd_items :: "usize list"
  vd_capacity :: usize

record bucket_claims =
  bc_publication :: u32
  bc_rollback :: u32
  bc_created :: bool
  bc_rollback_ahead :: usize

definition NO_CLAIMS :: bucket_claims where
  "NO_CLAIMS = \<lparr>bc_publication = 0, bc_rollback = 0, bc_created = False, bc_rollback_ahead = 0\<rparr>"

record hart_local =
  hl_ready :: "(u8, vec_deque) btree"
  hl_current_task_id :: usize
  hl_executing_task_id :: usize
  hl_selected_task_id :: usize
  hl_outgoing_context_save_task_id :: usize

record ready_state =
  rs_harts :: "hart_local list"
  rs_claims :: "usize \<Rightarrow> u8 \<Rightarrow> bucket_claims"
  rs_rt_online :: bool

definition hart_local_new :: hart_local where
  "hart_local_new = \<lparr>hl_ready = [], hl_current_task_id = 0, hl_executing_task_id = 0,
     hl_selected_task_id = 0, hl_outgoing_context_save_task_id = 0\<rparr>"

definition ready_init :: ready_state where
  "ready_init = \<lparr>rs_harts = replicate MAX_HARTS hart_local_new, rs_claims = (\<lambda>_ _. NO_CLAIMS),
     rs_rt_online = False\<rparr>"

section \<open>Double-ended queues\<close>

text \<open>
  The operations of \<open>VecDeque\<close> the source uses.  Growth is the amortised doubling of the standard
  library, at least to four entries.
\<close>

definition vd_default :: vec_deque where
  "vd_default = \<lparr>vd_items = [], vd_capacity = 0\<rparr>"

definition vd_len :: "vec_deque \<Rightarrow> usize" where
  "vd_len q = length (vd_items q)"

definition vd_reserve :: "usize \<Rightarrow> vec_deque \<Rightarrow> vec_deque" where
  "vd_reserve n q =
     (if vd_capacity q < vd_len q + n
      then q\<lparr>vd_capacity := max 4 (max (2 * vd_capacity q) (vd_len q + n))\<rparr> else q)"

definition vd_push_back :: "usize \<Rightarrow> vec_deque \<Rightarrow> vec_deque" where
  "vd_push_back x q = (let q = vd_reserve 1 q in q\<lparr>vd_items := vd_items q @ [x]\<rparr>)"

definition vd_insert :: "usize \<Rightarrow> usize \<Rightarrow> vec_deque \<Rightarrow> vec_deque" where
  "vd_insert i x q =
     (let q = vd_reserve 1 q in q\<lparr>vd_items := take i (vd_items q) @ x # drop i (vd_items q)\<rparr>)"

definition remove_nth :: "nat \<Rightarrow> 'a list \<Rightarrow> 'a list" where
  "remove_nth i xs = take i xs @ drop (Suc i) xs"

definition vd_remove :: "usize \<Rightarrow> vec_deque \<Rightarrow> usize option \<times> vec_deque" where
  "vd_remove i q =
     (if i < vd_len q then (Some (vd_items q ! i), q\<lparr>vd_items := remove_nth i (vd_items q)\<rparr>)
      else (None, q))"

section \<open>Rollback bookkeeping of one bucket\<close>

definition vacate :: "usize \<Rightarrow> vec_deque \<times> bucket_claims \<Rightarrow> usize option \<times> vec_deque \<times> bucket_claims" where
  "vacate i qc =
     (let (q, c) = qc; (r, q') = vd_remove i q
      in (r, q', c\<lparr>bc_rollback := bc_rollback c + 1, bc_rollback_ahead := i\<rparr>))"

definition reinsert :: "usize \<Rightarrow> vec_deque \<times> bucket_claims \<Rightarrow> (vec_deque \<times> bucket_claims) option" where
  "reinsert tid qc =
     (let (q, c) = qc in
      if bc_rollback c \<noteq> 0 \<and> vd_len q < vd_capacity q
      then Some (vd_insert (min (bc_rollback_ahead c) (vd_len q)) tid q, c\<lparr>bc_rollback := bc_rollback c - 1\<rparr>)
      else None)"

definition note_removed :: "usize \<Rightarrow> bucket_claims \<Rightarrow> bucket_claims" where
  "note_removed i c =
     (if bc_rollback c \<noteq> 0 \<and> i < bc_rollback_ahead c
      then c\<lparr>bc_rollback_ahead := bc_rollback_ahead c - 1\<rparr> else c)"

definition remove_tracked :: "usize \<Rightarrow> vec_deque \<times> bucket_claims \<Rightarrow> usize option \<times> vec_deque \<times> bucket_claims" where
  "remove_tracked i qc = (let (q, c) = qc; c = note_removed i c; (r, q') = vd_remove i q in (r, q', c))"

text \<open>The \<open>retain\<close> closure of \<open>forget_tracked\<close>: the kept entries and the count removed ahead.\<close>

fun forget_loop :: "usize \<Rightarrow> usize \<Rightarrow> usize \<Rightarrow> usize list \<Rightarrow> usize list \<times> usize" where
  "forget_loop tid ahead pos [] = ([], 0)"
| "forget_loop tid ahead pos (x # xs) =
     (let (kept, removed) = forget_loop tid ahead (Suc pos) xs in
      if x \<noteq> tid then (x # kept, removed)
      else (kept, if pos < ahead then Suc removed else removed))"

definition forget_tracked :: "usize \<Rightarrow> vec_deque \<times> bucket_claims \<Rightarrow> vec_deque \<times> bucket_claims" where
  "forget_tracked tid qc =
     (let (q, c) = qc;
          ahead = bc_rollback_ahead c;
          (kept, removed_ahead) = forget_loop tid ahead 0 (vd_items q)
      in (q\<lparr>vd_items := kept\<rparr>,
          if bc_rollback c \<noteq> 0 then c\<lparr>bc_rollback_ahead := ahead - removed_ahead\<rparr> else c))"

section \<open>Buckets and promises\<close>

definition bucket :: "ready_state \<Rightarrow> usize \<Rightarrow> u8 \<Rightarrow> vec_deque option" where
  "bucket rs h p = bt_get (hl_ready (rs_harts rs ! h)) p"

definition upd_ready :: "usize \<Rightarrow> ((u8, vec_deque) btree \<Rightarrow> (u8, vec_deque) btree) \<Rightarrow> ready_state \<Rightarrow> ready_state" where
  "upd_ready h f rs =
     rs\<lparr>rs_harts := (rs_harts rs)[h := (rs_harts rs ! h)\<lparr>hl_ready := f (hl_ready (rs_harts rs ! h))\<rparr>]\<rparr>"

definition upd_claims :: "usize \<Rightarrow> u8 \<Rightarrow> bucket_claims \<Rightarrow> ready_state \<Rightarrow> ready_state" where
  "upd_claims h p c rs = rs\<lparr>rs_claims := (rs_claims rs)(h := (rs_claims rs h)(p := c))\<rparr>"

definition promised :: "ready_state \<Rightarrow> usize \<Rightarrow> u8 \<Rightarrow> usize" where
  "promised rs h p = unat (bc_publication (rs_claims rs h p)) + unat (bc_rollback (rs_claims rs h p))"

definition bucket_empty :: "ready_state \<Rightarrow> usize \<Rightarrow> u8 \<Rightarrow> bool" where
  "bucket_empty rs h p = (case bucket rs h p of None \<Rightarrow> False | Some q \<Rightarrow> vd_items q = [])"

definition drop_unused_bucket :: "usize \<Rightarrow> u8 \<Rightarrow> ready_state \<Rightarrow> ready_state" where
  "drop_unused_bucket h p rs =
     (let c = rs_claims rs h p in
      if bc_publication c = 0 \<and> bc_rollback c = 0 \<and> bc_created c \<and> bucket_empty rs h p
      then upd_claims h p (c\<lparr>bc_created := False\<rparr>) (upd_ready h (bt_remove p) rs)
      else rs)"

definition drop_unused_bucket_if_new :: "usize \<Rightarrow> u8 \<Rightarrow> bool \<Rightarrow> ready_state \<Rightarrow> ready_state" where
  "drop_unused_bucket_if_new h p existed rs =
     (if \<not> existed \<and> promised rs h p = 0 \<and> bucket_empty rs h p then upd_ready h (bt_remove p) rs else rs)"

definition destination_hart :: "ready_state \<Rightarrow> usize \<Rightarrow> u8 \<Rightarrow> usize" where
  "destination_hart rs current_hart p = (if RT_PRIO \<le> p \<and> rs_rt_online rs then HART_RT else current_hart)"

record publication_reservation =
  pr_hart :: usize
  pr_priority :: u8
  pr_armed :: bool

definition entry_or_default :: "ready_state \<Rightarrow> usize \<Rightarrow> u8 \<Rightarrow> vec_deque" where
  "entry_or_default rs h p = (case bucket rs h p of None \<Rightarrow> vd_default | Some q \<Rightarrow> q)"

text \<open>
  \<open>can_grow\<close> is the allocator's answer to \<open>try_reserve\<close>; it is asked only when the queue is too small.
\<close>

definition publication_reserve ::
    "usize \<Rightarrow> bool \<Rightarrow> u8 \<Rightarrow> ready_state \<Rightarrow> (vi_error + publication_reservation) \<times> ready_state" where
  "publication_reserve current_hart can_grow priority rs =
     (let hart = destination_hart rs current_hart priority in
      if MAX_HARTS \<le> hart then (Err InvalidInput, rs)
      else
        let c = rs_claims rs hart priority;
            wanted = promised rs hart priority + 1;
            existed = bucket rs hart priority \<noteq> None;
            q = entry_or_default rs hart priority;
            refused = (vd_capacity q < vd_len q + wanted \<and> \<not> can_grow);
            q' = (if refused then q else vd_reserve wanted q);
            rs1 = upd_ready hart (bt_insert priority q') rs
        in if refused \<or> bc_publication c = - 1
           then (Err OutOfMemory, drop_unused_bucket_if_new hart priority existed rs1)
           else (Ok \<lparr>pr_hart = hart, pr_priority = priority, pr_armed = True\<rparr>,
                 upd_claims hart priority
                   (c\<lparr>bc_created := (if existed then bc_created c else True),
                      bc_publication := bc_publication c + 1\<rparr>) rs1))"

definition publication_destination :: "publication_reservation \<Rightarrow> usize \<times> u8" where
  "publication_destination r = (pr_hart r, pr_priority r)"

definition publication_drop :: "publication_reservation \<Rightarrow> ready_state \<Rightarrow> ready_state" where
  "publication_drop r rs =
     (if pr_armed r then
        let c = rs_claims rs (pr_hart r) (pr_priority r)
        in drop_unused_bucket (pr_hart r) (pr_priority r)
             (upd_claims (pr_hart r) (pr_priority r)
                (c\<lparr>bc_publication := saturating_sub (bc_publication c) 1\<rparr>) rs)
      else rs)"

text \<open>\<open>commit\<close> appends the task, disarms the promise and drops it.\<close>

definition publication_commit :: "usize \<Rightarrow> publication_reservation \<Rightarrow> ready_state \<Rightarrow> ready_state option" where
  "publication_commit tid r rs =
     (let h = pr_hart r; p = pr_priority r; c = rs_claims rs h p in
      case bucket rs h p of
        None \<Rightarrow> None
      | Some q \<Rightarrow>
          if bc_publication c \<noteq> 0 \<and> vd_len q < vd_capacity q
          then Some (publication_drop (r\<lparr>pr_armed := False\<rparr>)
                 (upd_ready h (bt_insert p (vd_push_back tid q))
                    (upd_claims h p (c\<lparr>bc_publication := bc_publication c - 1, bc_created := False\<rparr>) rs)))
          else None)"

definition push_on_hart :: "usize \<Rightarrow> usize \<Rightarrow> u8 \<Rightarrow> ready_state \<Rightarrow> ready_state" where
  "push_on_hart hart tid priority rs =
     (if hart < MAX_HARTS then
        let keep = promised rs hart priority + 1;
            q = vd_reserve keep (entry_or_default rs hart priority)
        in upd_ready hart (bt_insert priority (vd_push_back tid q)) rs
      else rs)"

definition push_on_current_hart :: "usize \<Rightarrow> usize \<Rightarrow> u8 \<Rightarrow> ready_state \<Rightarrow> ready_state" where
  "push_on_current_hart current_hart tid priority rs = push_on_hart current_hart tid priority rs"

section \<open>Hart identities\<close>

definition hart_field :: "(hart_local \<Rightarrow> usize) \<Rightarrow> ready_state \<Rightarrow> usize \<Rightarrow> usize" where
  "hart_field f rs hart = (if hart < MAX_HARTS then f (rs_harts rs ! hart) else 0)"

definition current_task_id_for :: "ready_state \<Rightarrow> usize \<Rightarrow> usize" where
  "current_task_id_for = hart_field hl_current_task_id"

definition selected_task_id_for :: "ready_state \<Rightarrow> usize \<Rightarrow> usize" where
  "selected_task_id_for = hart_field hl_selected_task_id"

definition executing_task_id_for :: "ready_state \<Rightarrow> usize \<Rightarrow> usize" where
  "executing_task_id_for = hart_field hl_executing_task_id"

definition outgoing_context_save_task_id_for :: "ready_state \<Rightarrow> usize \<Rightarrow> usize" where
  "outgoing_context_save_task_id_for = hart_field hl_outgoing_context_save_task_id"

definition upd_hart :: "usize \<Rightarrow> (hart_local \<Rightarrow> hart_local) \<Rightarrow> ready_state \<Rightarrow> ready_state" where
  "upd_hart hart f rs =
     (if hart < MAX_HARTS then rs\<lparr>rs_harts := (rs_harts rs)[hart := f (rs_harts rs ! hart)]\<rparr> else rs)"

definition set_current_task_id :: "usize \<Rightarrow> usize \<Rightarrow> ready_state \<Rightarrow> ready_state" where
  "set_current_task_id hart tid = upd_hart hart (\<lambda>l. l\<lparr>hl_current_task_id := tid\<rparr>)"

definition set_selected_task_id :: "usize \<Rightarrow> usize \<Rightarrow> ready_state \<Rightarrow> ready_state" where
  "set_selected_task_id hart tid = upd_hart hart (\<lambda>l. l\<lparr>hl_selected_task_id := tid\<rparr>)"

definition complete_selected_switch :: "usize \<Rightarrow> usize \<Rightarrow> ready_state \<Rightarrow> ready_state" where
  "complete_selected_switch hart tid =
     upd_hart hart (\<lambda>l. l\<lparr>hl_executing_task_id := tid, hl_selected_task_id := 0\<rparr>)"

definition abort_selected_switch :: "usize \<Rightarrow> ready_state \<Rightarrow> ready_state" where
  "abort_selected_switch hart = upd_hart hart (\<lambda>l. l\<lparr>hl_selected_task_id := 0\<rparr>)"

definition set_executing_task_id :: "usize \<Rightarrow> usize \<Rightarrow> ready_state \<Rightarrow> ready_state" where
  "set_executing_task_id hart tid = upd_hart hart (\<lambda>l. l\<lparr>hl_executing_task_id := tid\<rparr>)"

definition begin_outgoing_context_save :: "usize \<Rightarrow> usize \<Rightarrow> ready_state \<Rightarrow> ready_state" where
  "begin_outgoing_context_save hart tid = upd_hart hart (\<lambda>l. l\<lparr>hl_outgoing_context_save_task_id := tid\<rparr>)"

definition complete_outgoing_context_save :: "usize \<Rightarrow> ready_state \<Rightarrow> ready_state" where
  "complete_outgoing_context_save hart = upd_hart hart (\<lambda>l. l\<lparr>hl_outgoing_context_save_task_id := 0\<rparr>)"

definition owned_by_another_hart :: "ready_state \<Rightarrow> usize \<Rightarrow> usize \<Rightarrow> bool" where
  "owned_by_another_hart rs hart tid \<longleftrightarrow> tid \<noteq> 0 \<and>
     list_ex (\<lambda>owner. owner \<noteq> hart \<and>
       (current_task_id_for rs owner = tid \<or> selected_task_id_for rs owner = tid
        \<or> executing_task_id_for rs owner = tid \<or> outgoing_context_save_task_id_for rs owner = tid))
       [0..<MAX_HARTS]"

definition any_hart_running :: "ready_state \<Rightarrow> usize \<Rightarrow> bool" where
  "any_hart_running rs tid \<longleftrightarrow>
     list_ex (\<lambda>hart. selected_task_id_for rs hart = tid \<or> current_task_id_for rs hart = tid
       \<or> executing_task_id_for rs hart = tid \<or> outgoing_context_save_task_id_for rs hart = tid)
       [0..<MAX_HARTS]"

section \<open>Selection\<close>

text \<open>
  The scan of the buckets from the highest priority down: the bucket and the index of the first
  eligible entry.  The default build removes the entry; the CPU-accounting build vacates it, so that
  the selection can be rolled back.
\<close>

fun pick_scan :: "(usize \<Rightarrow> bool) \<Rightarrow> (u8 \<times> vec_deque) list \<Rightarrow> (u8 \<times> usize) option" where
  "pick_scan ok [] = None"
| "pick_scan ok ((p, q) # rest) =
     (case position ok (vd_items q) of Some i \<Rightarrow> Some (p, i) | None \<Rightarrow> pick_scan ok rest)"

definition pick_local_eligible :: "usize \<Rightarrow> ready_state \<Rightarrow> usize option \<times> ready_state" where
  "pick_local_eligible hart rs =
     (if MAX_HARTS \<le> hart then (None, rs)
      else case pick_scan (\<lambda>tid. \<not> owned_by_another_hart rs hart tid) (rev (hl_ready (rs_harts rs ! hart))) of
        None \<Rightarrow> (None, rs)
      | Some (p, i) \<Rightarrow>
          let (r, q) = vd_remove i (entry_or_default rs hart p) in (r, upd_ready hart (bt_insert p q) rs))"

record selection_reservation =
  sr_hart :: usize
  sr_sel_priority :: u8
  sr_tid :: usize
  sr_armed :: bool

definition pick_local_reserved ::
    "(usize \<Rightarrow> bool) \<Rightarrow> usize \<Rightarrow> ready_state \<Rightarrow> usize option \<times> selection_reservation option \<times> ready_state" where
  "pick_local_reserved eligible hart rs =
     (if MAX_HARTS \<le> hart then (None, None, rs)
      else case pick_scan (\<lambda>tid. \<not> owned_by_another_hart rs hart tid \<and> eligible tid)
                  (rev (hl_ready (rs_harts rs ! hart))) of
        None \<Rightarrow> (None, None, rs)
      | Some (p, i) \<Rightarrow>
          let q = entry_or_default rs hart p;
              (removed, q', c) = vacate i (q, rs_claims rs hart p)
          in (removed,
              Some \<lparr>sr_hart = hart, sr_sel_priority = p, sr_tid = vd_items q ! i, sr_armed = True\<rparr>,
              upd_claims hart p c (upd_ready hart (bt_insert p q') rs)))"

definition selection_drop :: "selection_reservation \<Rightarrow> ready_state \<Rightarrow> ready_state" where
  "selection_drop r rs =
     (if sr_armed r then
        let c = rs_claims rs (sr_hart r) (sr_sel_priority r)
        in upd_claims (sr_hart r) (sr_sel_priority r) (c\<lparr>bc_rollback := saturating_sub (bc_rollback c) 1\<rparr>) rs
      else rs)"

definition restore_selection :: "selection_reservation \<Rightarrow> ready_state \<Rightarrow> ready_state option" where
  "restore_selection r rs =
     (let h = sr_hart r; p = sr_sel_priority r in
      case bucket rs h p of
        None \<Rightarrow> None
      | Some q \<Rightarrow>
          (case reinsert (sr_tid r) (q, rs_claims rs h p) of
             None \<Rightarrow> None
           | Some (q', c) \<Rightarrow>
               Some (selection_drop (r\<lparr>sr_armed := False\<rparr>)
                 (upd_claims h p c (upd_ready h (bt_insert p q') rs)))))"

section \<open>Removal and counting\<close>

text \<open>The loop over the buckets of one hart, and over the harts.\<close>

fun forget_buckets :: "usize \<Rightarrow> usize \<Rightarrow> (u8 \<times> vec_deque) list \<Rightarrow> ready_state \<Rightarrow> ready_state" where
  "forget_buckets tid hart [] rs = rs"
| "forget_buckets tid hart ((p, q) # rest) rs =
     (let (q', c) = forget_tracked tid (q, rs_claims rs hart p)
      in forget_buckets tid hart rest (upd_claims hart p c (upd_ready hart (bt_insert p q') rs)))"

definition remove_from_all :: "usize \<Rightarrow> ready_state \<Rightarrow> ready_state" where
  "remove_from_all tid rs =
     fold (\<lambda>hart rs. forget_buckets tid hart (hl_ready (rs_harts rs ! hart)) rs) [0..<MAX_HARTS] rs"

definition total_ready_count :: "ready_state \<Rightarrow> usize" where
  "total_ready_count rs =
     sum_list (map (\<lambda>h. sum_list (map (\<lambda>(p, q). vd_len q) (hl_ready (rs_harts rs ! h)))) [0..<MAX_HARTS])"

section \<open>Work stealing\<close>

text \<open>
  One iteration of the inner loop at priority \<open>p\<close>: no candidate, refused for want of room in the
  destination bucket, or moved.  \<open>can_grow\<close> is the allocator's answer, asked with the number of
  tasks stolen so far.
\<close>

datatype steal_outcome = NoCandidate | Refused ready_state | Moved ready_state

definition steal_one :: "usize \<Rightarrow> (usize \<Rightarrow> bool) \<Rightarrow> bool \<Rightarrow> u8 \<Rightarrow> ready_state \<Rightarrow> steal_outcome" where
  "steal_one thief permits can_grow p rs =
     (let victim = 1 - thief in
      case (case bucket rs victim p of None \<Rightarrow> None | Some vq \<Rightarrow> position permits (vd_items vq)) of
        None \<Rightarrow> NoCandidate
      | Some i \<Rightarrow>
          let existed = bucket rs thief p \<noteq> None;
              keep = promised rs thief p + 1;
              dest = entry_or_default rs thief p
          in if vd_capacity dest < vd_len dest + keep \<and> \<not> can_grow
             then Refused (drop_unused_bucket_if_new thief p existed (upd_ready thief (bt_insert p dest) rs))
             else
               let dest = vd_reserve keep dest;
                   (r, vq, c) = remove_tracked i (entry_or_default rs victim p, rs_claims rs victim p)
               in (case r of
                     None \<Rightarrow> NoCandidate
                   | Some tid \<Rightarrow>
                       Moved (upd_ready thief (bt_insert p (vd_push_back tid dest))
                         (upd_claims victim p c (upd_ready victim (bt_insert p vq) rs)))))"

text \<open>The result says whether the outer loop is left, how many tasks were moved, and the state.\<close>

function steal_while ::
    "usize \<Rightarrow> (usize \<Rightarrow> bool) \<Rightarrow> (usize \<Rightarrow> bool) \<Rightarrow> u8 \<Rightarrow> usize \<Rightarrow> usize \<Rightarrow> ready_state \<Rightarrow> bool \<times> usize \<times> ready_state" where
  "steal_while thief permits can_grow p to_steal stolen rs =
     (if stolen < to_steal then
        (case steal_one thief permits (can_grow stolen) p rs of
           NoCandidate \<Rightarrow> (False, stolen, rs)
         | Refused rs' \<Rightarrow> (True, stolen, rs')
         | Moved rs' \<Rightarrow> steal_while thief permits can_grow p to_steal (Suc stolen) rs')
      else (True, stolen, rs))"
  by pat_completeness auto

termination steal_while
  by (relation "measure (\<lambda>(_, _, _, _, to_steal, stolen, _). to_steal - stolen)") auto

declare steal_while.simps [simp del]

fun steal_priorities ::
    "usize \<Rightarrow> (usize \<Rightarrow> bool) \<Rightarrow> (usize \<Rightarrow> bool) \<Rightarrow> usize \<Rightarrow> u8 list \<Rightarrow> usize \<Rightarrow> ready_state \<Rightarrow> usize \<times> ready_state" where
  "steal_priorities thief permits can_grow to_steal [] stolen rs = (stolen, rs)"
| "steal_priorities thief permits can_grow to_steal (p # ps) stolen rs =
     (case steal_while thief permits can_grow p to_steal stolen rs of
        (True, stolen', rs') \<Rightarrow> (stolen', rs')
      | (False, stolen', rs') \<Rightarrow> steal_priorities thief permits can_grow to_steal ps stolen' rs')"

definition stealable :: "ready_state \<Rightarrow> usize \<Rightarrow> (usize \<Rightarrow> bool) \<Rightarrow> usize" where
  "stealable rs victim permits =
     sum_list (map (\<lambda>(p, q). length (filter permits (vd_items q)))
       (filter (\<lambda>(p, q). p < RT_PRIO) (hl_ready (rs_harts rs ! victim))))"

definition steal_from_busiest ::
    "(usize \<Rightarrow> bool) \<Rightarrow> (usize \<Rightarrow> bool) \<Rightarrow> usize \<Rightarrow> ready_state \<Rightarrow> usize \<times> ready_state" where
  "steal_from_busiest eligible can_grow thief rs =
     (if MAX_HARTS \<le> thief then (0, rs)
      else
        let permits = (\<lambda>tid. \<not> owned_by_another_hart rs thief tid \<and> eligible tid);
            n = stealable rs (1 - thief) permits
        in if n = 0 then (0, rs)
           else steal_priorities thief permits can_grow (max (n div 2) 1) [1, 0] 0 rs)"

end
