(* ===== verification/Ready_Rollback.thy ===== *)
theory Ready_Rollback
  imports Ready_Queue
begin

text \<open>
  Selection rollback and the capacity promises of the ready queues.
\<close>

section \<open>A vacated selection returns to its exact place\<close>

text \<open>
  What can happen to a bucket between \<open>vacate\<close> and \<open>reinsert\<close>: a tracked removal by a steal, a
  tracked removal of every copy of a task, and an append that keeps the promised slots free.
\<close>

datatype bucket_op = RemoveAt usize | Forget usize | PushBack usize

fun bucket_step :: "bucket_op \<Rightarrow> vec_deque \<times> bucket_claims \<Rightarrow> vec_deque \<times> bucket_claims" where
  "bucket_step (RemoveAt i) qc = snd (remove_tracked i qc)"
| "bucket_step (Forget tid) qc = forget_tracked tid qc"
| "bucket_step (PushBack tid) (q, c) =
     (vd_push_back tid (vd_reserve (unat (bc_publication c) + unat (bc_rollback c) + 1) q), c)"

text \<open>The specification: the same operations on the entries before and after the vacated place.\<close>

fun zone_step :: "bucket_op \<Rightarrow> usize list \<times> usize list \<Rightarrow> usize list \<times> usize list" where
  "zone_step (RemoveAt i) (xs, ys) =
     (if i < length xs then (remove_nth i xs, ys) else (xs, remove_nth (i - length xs) ys))"
| "zone_step (Forget tid) (xs, ys) = (filter (\<lambda>x. x \<noteq> tid) xs, filter (\<lambda>x. x \<noteq> tid) ys)"
| "zone_step (PushBack tid) (xs, ys) = (xs, ys @ [tid])"

lemma remove_nth_append:
  "remove_nth i (xs @ ys) = (if i < length xs then remove_nth i xs @ ys else xs @ remove_nth (i - length xs) ys)"
  by (auto simp: remove_nth_def Suc_diff_le not_less)

lemma length_remove_nth: "i < length xs \<Longrightarrow> length (remove_nth i xs) = length xs - 1"
  by (simp add: remove_nth_def)

lemma remove_nth_beyond: "length xs \<le> i \<Longrightarrow> remove_nth i xs = xs"
  by (simp add: remove_nth_def)

lemma forget_loop_eq:
  "forget_loop tid ahead pos xs =
     (filter (\<lambda>x. x \<noteq> tid) xs, length (filter (\<lambda>x. x = tid) (take (ahead - pos) xs)))"
proof (induction xs arbitrary: pos)
  case (Cons x xs)
  then show ?case by (cases "pos < ahead") (auto simp: Let_def Suc_diff_Suc [symmetric] not_less)
qed simp

lemma length_filter_split: "length (filter P xs) + length (filter (\<lambda>x. \<not> P x) xs) = length xs"
  by (rule sum_length_filter_compl)

text \<open>The state of a bucket with one selection vacated between \<open>xs\<close> and \<open>ys\<close>.\<close>

definition vacated :: "usize list \<times> usize list \<Rightarrow> vec_deque \<times> bucket_claims \<Rightarrow> bool" where
  "vacated z qc \<longleftrightarrow> vd_items (fst qc) = fst z @ snd z \<and> bc_rollback_ahead (snd qc) = length (fst z)
     \<and> bc_rollback (snd qc) = 1 \<and> vd_len (fst qc) < vd_capacity (fst qc)"

lemma vd_reserve_sel [simp]: "vd_items (vd_reserve n q) = vd_items q" "vd_len (vd_reserve n q) = vd_len q"
  by (simp_all add: vd_reserve_def vd_len_def)

lemma vd_reserve_capacity: "vd_len q + n \<le> vd_capacity (vd_reserve n q)" "vd_capacity q \<le> vd_capacity (vd_reserve n q)"
  by (auto simp: vd_reserve_def)

lemma vd_push_back_sel [simp]:
  "vd_items (vd_push_back x q) = vd_items q @ [x]" "vd_len (vd_push_back x q) = Suc (vd_len q)"
  "vd_capacity (vd_push_back x q) = vd_capacity (vd_reserve 1 q)"
  by (simp_all add: vd_push_back_def Let_def vd_len_def)

lemma vacated_step: "vacated z qc \<Longrightarrow> vacated (zone_step op z) (bucket_step op qc)"
proof (cases op)
  case (RemoveAt i)
  assume v: "vacated z qc"
  obtain xs ys q c where [simp]: "z = (xs, ys)" "qc = (q, c)" by (cases z; cases qc) auto
  from v have q: "vd_items q = xs @ ys" "bc_rollback_ahead c = length xs" "bc_rollback c = 1"
      "length xs + length ys < vd_capacity q"
    by (auto simp: vacated_def vd_len_def)
  show ?thesis using q(4)
    by (auto simp: RemoveAt vacated_def remove_tracked_def vd_remove_def note_removed_def q(1-3) vd_len_def
        remove_nth_append length_remove_nth remove_nth_beyond)
next
  case (Forget tid)
  assume v: "vacated z qc"
  obtain xs ys q c where [simp]: "z = (xs, ys)" "qc = (q, c)" by (cases z; cases qc) auto
  from v have q: "vd_items q = xs @ ys" "bc_rollback_ahead c = length xs" "bc_rollback c = 1"
      "length xs + length ys < vd_capacity q"
    by (auto simp: vacated_def vd_len_def)
  have "length xs - length (filter (\<lambda>x. x = tid) xs) = length (filter (\<lambda>x. x \<noteq> tid) xs)"
    using length_filter_split [of "\<lambda>x. x = tid" xs] by simp
  moreover have "length (filter (\<lambda>x. x \<noteq> tid) xs) + length (filter (\<lambda>x. x \<noteq> tid) ys) < vd_capacity q"
    using q(4) length_filter_le [of "\<lambda>x. x \<noteq> tid" xs] length_filter_le [of "\<lambda>x. x \<noteq> tid" ys] by linarith
  ultimately show ?thesis
    by (simp add: Forget vacated_def forget_tracked_def forget_loop_eq q vd_len_def)
next
  case (PushBack tid)
  assume v: "vacated z qc"
  obtain xs ys q c where [simp]: "z = (xs, ys)" "qc = (q, c)" by (cases z; cases qc) auto
  let ?q = "vd_reserve (unat (bc_publication c) + unat (bc_rollback c) + 1) q"
  from v have "vd_len q + 2 \<le> vd_capacity ?q"
    using vd_reserve_capacity(1) [of q "unat (bc_publication c) + unat (bc_rollback c) + 1"]
    by (simp add: vacated_def)
  with v show ?thesis
    using vd_reserve_capacity(2) [of ?q 1] by (simp add: PushBack vacated_def)
qed

lemma vacated_steps: "vacated z qc \<Longrightarrow> vacated (fold zone_step ops z) (fold bucket_step ops qc)"
  by (induction ops arbitrary: z qc) (simp_all add: vacated_step)

lemma vacate_vacated:
  assumes "vd_items q = xs @ t # ys" "vd_len q \<le> vd_capacity q" "bc_rollback c = 0"
  shows "vacated (xs, ys) (snd (vacate (length xs) (q, c)))" "fst (vacate (length xs) (q, c)) = Some t"
  using assms by (simp_all add: vacated_def vacate_def vd_remove_def vd_len_def remove_nth_def nth_append)

lemma reinsert_vacated:
  assumes "vacated z (q, c)"
  obtains q' c' where "reinsert t (q, c) = Some (q', c')" "vd_items q' = fst z @ t # snd z"
    "bc_rollback c' = 0" "bc_publication c' = bc_publication c" "vd_capacity q' = vd_capacity q"
  using assms by (force simp: vacated_def reinsert_def vd_insert_def vd_len_def vd_reserve_def Let_def)

end
