(* ===== verification/Ready_Promises.thy ===== *)
theory Ready_Promises
  imports Ready_Rollback
begin

text \<open>
  The capacity promises of the ready queues: every bucket always has room for the entries it holds and
  for every slot promised to an unpublished child or to a selection that may roll back.  Hence the
  publication of a reserved child and the rollback of a selection never fail.
\<close>

section \<open>Buckets after an update\<close>

definition rs_wf :: "ready_state \<Rightarrow> bool" where
  "rs_wf rs \<longleftrightarrow> length (rs_harts rs) = MAX_HARTS \<and> list_all (\<lambda>l. bt_wf (hl_ready l)) (rs_harts rs)"

definition cap_ok :: "ready_state \<Rightarrow> usize \<Rightarrow> u8 \<Rightarrow> bool" where
  "cap_ok rs h p = (case bucket rs h p of None \<Rightarrow> promised rs h p = 0
     | Some q \<Rightarrow> vd_len q + promised rs h p \<le> vd_capacity q)"

lemma claims_upd [simp]:
  "rs_claims (upd_ready h f rs) = rs_claims rs"
  "rs_claims (upd_claims h p c rs) h' p' = (if h' = h \<and> p' = p then c else rs_claims rs h' p')"
  "rs_harts (upd_claims h p c rs) = rs_harts rs"
  "length (rs_harts (upd_ready h f rs)) = length (rs_harts rs)"
  by (auto simp: upd_ready_def upd_claims_def)

lemma bucket_upd_claims [simp]: "bucket (upd_claims h p c rs) = bucket rs"
  by (simp add: bucket_def fun_eq_iff)

lemma bucket_upd_ready:
  "h < length (rs_harts rs) \<Longrightarrow>
   bucket (upd_ready h f rs) h' p = (if h' = h then bt_get (f (hl_ready (rs_harts rs ! h))) p else bucket rs h' p)"
  by (simp add: bucket_def upd_ready_def)

lemma rs_wf_len: "rs_wf rs \<Longrightarrow> length (rs_harts rs) = MAX_HARTS"
  by (simp add: rs_wf_def)

lemma bucket_insert [simp]:
  "rs_wf rs \<Longrightarrow> h < MAX_HARTS \<Longrightarrow>
   bucket (upd_ready h (bt_insert p q) rs) h' p' = (if h' = h \<and> p' = p then Some q else bucket rs h' p')"
  by (simp add: bucket_upd_ready rs_wf_len) (simp add: bucket_def)

lemma bucket_remove [simp]:
  "rs_wf rs \<Longrightarrow> h < MAX_HARTS \<Longrightarrow>
   bucket (upd_ready h (bt_remove p) rs) h' p' = (if h' = h \<and> p' = p then None else bucket rs h' p')"
  by (simp add: bucket_upd_ready rs_wf_len) (simp add: bucket_def)

lemma rs_wf_claims [simp]: "rs_wf (upd_claims h p c rs) = rs_wf rs"
  by (simp add: rs_wf_def)

lemma rs_wf_ready:
  assumes "rs_wf rs" "h < MAX_HARTS" "bt_wf (f (hl_ready (rs_harts rs ! h)))"
  shows "rs_wf (upd_ready h f rs)"
  using assms unfolding rs_wf_def upd_ready_def by (simp add: list_all_length nth_list_update)

lemma rs_wf_bucket [simp]:
  assumes "rs_wf rs" "h < MAX_HARTS"
  shows "rs_wf (upd_ready h (bt_insert p q) rs)" "rs_wf (upd_ready h (bt_remove p) rs)"
proof -
  have "bt_wf (hl_ready (rs_harts rs ! h))" using assms by (simp add: rs_wf_def list_all_length)
  then show "rs_wf (upd_ready h (bt_insert p q) rs)" "rs_wf (upd_ready h (bt_remove p) rs)"
    using assms by (auto intro: rs_wf_ready)
qed

lemma promised_upd [simp]:
  "promised (upd_ready h f rs) = promised rs"
  "promised (upd_claims h p c rs) h' p' =
     (if h' = h \<and> p' = p then unat (bc_publication c) + unat (bc_rollback c) else promised rs h' p')"
  by (auto simp: promised_def fun_eq_iff)

lemma cap_okD: "cap_ok rs h p \<Longrightarrow> bucket rs h p = Some q \<Longrightarrow> vd_len q + promised rs h p \<le> vd_capacity q"
  by (simp add: cap_ok_def)

lemma cap_ok_entry: "cap_ok rs h p \<Longrightarrow> vd_len (entry_or_default rs h p) + promised rs h p \<le> vd_capacity (entry_or_default rs h p)"
  by (auto simp: cap_ok_def entry_or_default_def vd_default_def vd_len_def split: option.splits)

lemma cap_ok_cong: "bucket rs' h p = bucket rs h p \<Longrightarrow> promised rs' h p = promised rs h p \<Longrightarrow> cap_ok rs' h p = cap_ok rs h p"
  by (simp add: cap_ok_def split: option.split)

lemma cap_ok_insert:
  assumes "rs_wf rs" "h < MAX_HARTS"
  shows "cap_ok (upd_ready h (bt_insert p q) rs) h' p' =
      (if h' = h \<and> p' = p then vd_len q + promised rs h p \<le> vd_capacity q else cap_ok rs h' p')"
proof (cases "h' = h \<and> p' = p")
  case True
  then show ?thesis using assms by (simp add: cap_ok_def)
next
  case False
  then have "cap_ok (upd_ready h (bt_insert p q) rs) h' p' = cap_ok rs h' p'"
    using assms by (intro cap_ok_cong) auto
  with False show ?thesis by auto
qed

lemma cap_ok_remove:
  assumes "rs_wf rs" "h < MAX_HARTS"
  shows "cap_ok (upd_ready h (bt_remove p) rs) h' p' =
      (if h' = h \<and> p' = p then promised rs h p = 0 else cap_ok rs h' p')"
proof (cases "h' = h \<and> p' = p")
  case True
  then show ?thesis using assms by (simp add: cap_ok_def)
next
  case False
  then have "cap_ok (upd_ready h (bt_remove p) rs) h' p' = cap_ok rs h' p'"
    using assms by (intro cap_ok_cong) auto
  with False show ?thesis by auto
qed

lemma cap_ok_claims:
  "\<not> (h' = h \<and> p' = p) \<Longrightarrow> cap_ok (upd_claims h p c rs) h' p' = cap_ok rs h' p'"
  "unat (bc_publication c) + unat (bc_rollback c) = promised rs h p \<Longrightarrow>
   cap_ok (upd_claims h p c rs) h p = cap_ok rs h p"
  by (intro cap_ok_cong; auto)+

section \<open>Operations that keep every promise\<close>

text \<open>
  \<open>keeps rs rs'\<close>: the step from \<open>rs\<close> to \<open>rs'\<close> changes no promise and leaves every promise covered.
\<close>

definition keeps :: "ready_state \<Rightarrow> ready_state \<Rightarrow> bool" where
  "keeps rs rs' \<longleftrightarrow> (rs_wf rs \<longrightarrow> rs_wf rs')
     \<and> (\<forall>h p. bc_publication (rs_claims rs' h p) = bc_publication (rs_claims rs h p)
            \<and> bc_rollback (rs_claims rs' h p) = bc_rollback (rs_claims rs h p))
     \<and> (rs_wf rs \<longrightarrow> (\<forall>h < MAX_HARTS. \<forall>p. cap_ok rs h p) \<longrightarrow> (\<forall>h < MAX_HARTS. \<forall>p. cap_ok rs' h p))"

lemma keeps_refl [simp]: "keeps rs rs"
  by (simp add: keeps_def)

lemma keeps_trans: "keeps a b \<Longrightarrow> keeps b c \<Longrightarrow> keeps a c"
  by (auto simp: keeps_def)

text \<open>Rewriting one bucket keeps every promise when the bucket still covers its own.\<close>

lemma keepsI:
  assumes "rs_wf rs \<Longrightarrow> rs_wf rs'"
    and "\<And>h p. bc_publication (rs_claims rs' h p) = bc_publication (rs_claims rs h p)"
    and "\<And>h p. bc_rollback (rs_claims rs' h p) = bc_rollback (rs_claims rs h p)"
    and "\<And>h p. rs_wf rs \<Longrightarrow> (\<And>h p. h < MAX_HARTS \<Longrightarrow> cap_ok rs h p) \<Longrightarrow> h < MAX_HARTS \<Longrightarrow> cap_ok rs' h p"
  shows "keeps rs rs'"
  unfolding keeps_def using assms by blast

lemma keeps_insert:
  assumes "h < MAX_HARTS" "rs_wf rs \<Longrightarrow> cap_ok rs h p \<Longrightarrow> vd_len q + promised rs h p \<le> vd_capacity q"
  shows "keeps rs (upd_ready h (bt_insert p q) rs)"
  using assms by (intro keepsI) (simp_all add: cap_ok_insert)

lemma keeps_remove:
  assumes "h < MAX_HARTS" "promised rs h p = 0"
  shows "keeps rs (upd_ready h (bt_remove p) rs)"
  using assms by (intro keepsI) (simp_all add: cap_ok_remove)

lemma keeps_claims:
  assumes "bc_publication c = bc_publication (rs_claims rs h p)" "bc_rollback c = bc_rollback (rs_claims rs h p)"
  shows "keeps rs (upd_claims h p c rs)"
proof (rule keepsI)
  fix h' p' assume "\<And>h p. h < MAX_HARTS \<Longrightarrow> cap_ok rs h p" "h' < MAX_HARTS"
  then show "cap_ok (upd_claims h p c rs) h' p'"
    using assms by (cases "h' = h \<and> p' = p") (simp_all add: cap_ok_claims promised_def)
qed (use assms in simp_all)

lemma keeps_bucket:
  assumes "h < MAX_HARTS" "bc_publication c = bc_publication (rs_claims rs h p)"
    "bc_rollback c = bc_rollback (rs_claims rs h p)"
    and "rs_wf rs \<Longrightarrow> cap_ok rs h p \<Longrightarrow> vd_len q + promised rs h p \<le> vd_capacity q"
  shows "keeps rs (upd_claims h p c (upd_ready h (bt_insert p q) rs))"
  using keeps_trans [OF keeps_insert keeps_claims] assms by simp

lemma keeps_drop_if_new: "h < MAX_HARTS \<Longrightarrow> keeps rs (drop_unused_bucket_if_new h p existed rs)"
  by (simp add: drop_unused_bucket_if_new_def keeps_remove)

lemma keeps_push: "keeps rs (push_on_hart h tid p rs)"
proof (cases "h < MAX_HARTS")
  case True
  let ?q = "vd_reserve (promised rs h p + 1) (entry_or_default rs h p)"
  have "vd_len (vd_push_back tid ?q) + promised rs h p \<le> vd_capacity (vd_push_back tid ?q)"
    using vd_reserve_capacity(1) [of "entry_or_default rs h p" "promised rs h p + 1"] vd_reserve_capacity(2) [of ?q 1]
    by simp
  then show ?thesis using True by (simp add: push_on_hart_def keeps_insert)
qed (simp add: push_on_hart_def)

lemma vd_remove_sel:
  "vd_len (snd (vd_remove i q)) \<le> vd_len q" "vd_capacity (snd (vd_remove i q)) = vd_capacity q"
  by (auto simp: vd_remove_def vd_len_def remove_nth_def)

lemma keeps_pick: "keeps rs (snd (pick_local_eligible h rs))"
proof (cases "h < MAX_HARTS")
  case True
  have "keeps rs (upd_ready h (bt_insert p (snd (vd_remove i (entry_or_default rs h p)))) rs)" for p i
    using True cap_ok_entry [of rs h p] vd_remove_sel [of i "entry_or_default rs h p"]
    by (intro keeps_insert) auto
  then show ?thesis using True
    by (auto simp: pick_local_eligible_def case_prod_unfold Let_def split: option.split)
qed (simp add: pick_local_eligible_def)

lemma keeps_hart:
  assumes "\<And>l. hl_ready (f l) = hl_ready l"
  shows "keeps rs (upd_hart h f rs)"
proof -
  have "bucket (upd_hart h f rs) h' p = bucket rs h' p" for h' p
    using assms by (cases "h < length (rs_harts rs)"; cases "h' = h") (auto simp: upd_hart_def bucket_def list_update_beyond)
  then have "cap_ok (upd_hart h f rs) h' p = cap_ok rs h' p" for h' p
    by (intro cap_ok_cong) (simp_all add: promised_def upd_hart_def)
  moreover have "rs_wf rs \<Longrightarrow> rs_wf (upd_hart h f rs)"
    using assms by (auto simp: rs_wf_def upd_hart_def list_all_length nth_list_update)
  ultimately show ?thesis by (simp add: keeps_def) (simp add: upd_hart_def)
qed

lemma forget_tracked_sel:
  assumes "forget_tracked tid (q, c) = (q', c')"
  shows "vd_items q' = filter (\<lambda>x. x \<noteq> tid) (vd_items q)" "vd_capacity q' = vd_capacity q" "vd_len q' \<le> vd_len q"
    "bc_publication c' = bc_publication c" "bc_rollback c' = bc_rollback c"
  using assms by (auto simp: forget_tracked_def forget_loop_eq vd_len_def Let_def split: if_splits)

lemma keeps_forget_buckets:
  assumes "h < MAX_HARTS" "rs_wf rs" "distinct (map fst qs)" "\<And>p q. (p, q) \<in> set qs \<Longrightarrow> bucket rs h p = Some q"
  shows "keeps rs (forget_buckets tid h qs rs)"
  using assms
proof (induction qs arbitrary: rs)
  case (Cons pq qs)
  obtain p q where [simp]: "pq = (p, q)" by (cases pq)
  obtain q' c where f: "forget_tracked tid (q, rs_claims rs h p) = (q', c)" by (cases "forget_tracked tid (q, rs_claims rs h p)")
  let ?rs = "upd_claims h p c (upd_ready h (bt_insert p q') rs)"
  have "keeps rs ?rs"
  proof (rule keeps_bucket)
    assume "cap_ok rs h p"
    moreover have "bucket rs h p = Some q" using Cons.prems(4) by simp
    ultimately show "vd_len q' + promised rs h p \<le> vd_capacity q'"
      using forget_tracked_sel(2,3) [OF f] by (auto dest: cap_okD)
  qed (use Cons.prems forget_tracked_sel [OF f] in simp_all)
  moreover have "keeps ?rs (forget_buckets tid h qs ?rs)"
    using Cons.prems by (intro Cons.IH) (auto simp: rev_image_eqI)
  ultimately show ?case by (auto simp: f intro: keeps_trans)
qed simp

lemma keeps_wf: "keeps rs rs' \<Longrightarrow> rs_wf rs \<Longrightarrow> rs_wf rs'"
  by (simp add: keeps_def)

lemma hart_buckets:
  assumes "rs_wf rs" "h < MAX_HARTS"
  shows "distinct (map fst (hl_ready (rs_harts rs ! h)))"
    and "(p, q) \<in> set (hl_ready (rs_harts rs ! h)) \<longleftrightarrow> bucket rs h p = Some q"
proof -
  have "bt_wf (hl_ready (rs_harts rs ! h))" using assms by (simp add: rs_wf_def list_all_length)
  then show "distinct (map fst (hl_ready (rs_harts rs ! h)))"
    "(p, q) \<in> set (hl_ready (rs_harts rs ! h)) \<longleftrightarrow> bucket rs h p = Some q"
    by (rule bt_wf_distinct, unfold bucket_def) (rule bt_mem_get)
qed

lemma keeps_forget_hart:
  "rs_wf rs \<Longrightarrow> h < MAX_HARTS \<Longrightarrow> keeps rs (forget_buckets tid h (hl_ready (rs_harts rs ! h)) rs)"
  by (rule keeps_forget_buckets) (simp_all add: hart_buckets)

lemma keeps_remove_all: "rs_wf rs \<Longrightarrow> keeps rs (remove_from_all tid rs)"
proof -
  assume wf: "rs_wf rs"
  let ?f = "\<lambda>hart rs. forget_buckets tid hart (hl_ready (rs_harts rs ! hart)) rs"
  have 0: "keeps rs (?f 0 rs)" using wf by (simp add: keeps_forget_hart MAX_HARTS_def)
  then have "rs_wf (?f 0 rs)" using wf by (rule keeps_wf)
  then have "keeps (?f 0 rs) (?f 1 (?f 0 rs))" by (rule keeps_forget_hart) (simp add: MAX_HARTS_def)
  then have "keeps rs (?f 1 (?f 0 rs))" by (rule keeps_trans [OF 0])
  moreover have "remove_from_all tid rs = ?f 1 (?f 0 rs)"
    by (simp add: remove_from_all_def MAX_HARTS_def numeral_2_eq_2)
  ultimately show ?thesis by simp
qed

section \<open>Stealing keeps every promise\<close>

lemma remove_tracked_sel:
  assumes "remove_tracked i (q, c) = (r, q', c')"
  shows "vd_len q' \<le> vd_len q" "vd_capacity q' = vd_capacity q"
    "bc_publication c' = bc_publication c" "bc_rollback c' = bc_rollback c"
  using assms vd_remove_sel [of i q]
  by (auto simp: remove_tracked_def note_removed_def Let_def split: prod.splits if_splits)

lemma keeps_steal_one:
  assumes "thief < MAX_HARTS"
  shows "case steal_one thief permits g p rs of NoCandidate \<Rightarrow> True | Refused rs' \<Rightarrow> keeps rs rs' | Moved rs' \<Rightarrow> keeps rs rs'"
proof -
  let ?v = "1 - thief" and ?d = "entry_or_default rs thief p"
  have v: "?v < MAX_HARTS" "?v \<noteq> thief" using assms unfolding MAX_HARTS_def by arith+
  have refused: "keeps rs (drop_unused_bucket_if_new thief p e (upd_ready thief (bt_insert p ?d) rs))" for e
    using assms by (blast intro: keeps_trans [OF keeps_insert keeps_drop_if_new] cap_ok_entry)
  have moved: "keeps rs (upd_ready thief (bt_insert p (vd_push_back tid (vd_reserve (promised rs thief p + 1) ?d)))
      (upd_claims ?v p c (upd_ready ?v (bt_insert p vq) rs)))"
    if r: "remove_tracked i (entry_or_default rs ?v p, rs_claims rs ?v p) = (r, vq, c)" for i r tid vq c
  proof -
    let ?rs = "upd_claims ?v p c (upd_ready ?v (bt_insert p vq) rs)"
    let ?q = "vd_reserve (promised rs thief p + 1) ?d"
    have "keeps rs ?rs"
    proof (rule keeps_bucket)
      assume "cap_ok rs ?v p"
      then show "vd_len vq + promised rs ?v p \<le> vd_capacity vq"
        using remove_tracked_sel [OF r] cap_ok_entry [of rs ?v p] by simp
    qed (use v remove_tracked_sel [OF r] in simp_all)
    moreover have "keeps ?rs (upd_ready thief (bt_insert p (vd_push_back tid ?q)) ?rs)"
    proof (rule keeps_insert)
      show "vd_len (vd_push_back tid ?q) + promised ?rs thief p \<le> vd_capacity (vd_push_back tid ?q)"
        using v vd_reserve_capacity(1) [of ?d "promised rs thief p + 1"] vd_reserve_capacity(2) [of ?q 1] by simp
    qed (rule assms)
    ultimately show ?thesis by (rule keeps_trans)
  qed
  show ?thesis
    unfolding steal_one_def Let_def
    by (auto simp: refused split: option.split prod.split intro: moved [simplified])
qed

lemma keeps_steal_while:
  "thief < MAX_HARTS \<Longrightarrow> keeps rs (snd (snd (steal_while thief permits g p m n rs)))"
proof (induction thief permits g p m n rs rule: steal_while.induct)
  case (1 thief permits g p m n rs)
  show ?case
  proof (cases "n < m")
    case True
    then show ?thesis
      using keeps_steal_one [OF 1(2), where permits = permits and g = "g n" and p = p and rs = rs] 1(1) [OF True _ 1(2)]
      by (subst steal_while.simps) (auto split: steal_outcome.splits intro: keeps_trans)
  next
    case False
    then show ?thesis by (subst steal_while.simps) simp
  qed
qed

lemma keeps_steal_priorities:
  "thief < MAX_HARTS \<Longrightarrow> keeps rs (snd (steal_priorities thief permits g m ps n rs))"
proof (induction ps arbitrary: n rs)
  case (Cons p ps)
  obtain b k t where w: "steal_while thief permits g p m n rs = (b, k, t)" by (metis prod_cases3)
  then have "keeps rs t" using keeps_steal_while [OF Cons.prems, of rs permits g p m n] by simp
  moreover have "keeps t (snd (steal_priorities thief permits g m ps k t))" using Cons by blast
  ultimately show ?case by (cases b) (auto simp: w intro: keeps_trans)
qed simp

lemma keeps_steal: "keeps rs (snd (steal_from_busiest eligible g thief rs))"
  by (simp add: steal_from_busiest_def Let_def keeps_steal_priorities not_le del: steal_priorities.simps)

section \<open>Reservations and selections in flight\<close>

text \<open>
  The scheduler's use of the queues: the queues with the publication reservations and the selection
  reservations that are alive.  Rust's ownership makes each of them usable once; a selection is made
  while the scheduler lock is held and is resolved before the next selection on that hart, which is
  what the assertion in \<open>vacate\<close> checks.
\<close>

record ready_world =
  rw_ready :: ready_state
  rw_pubs :: "publication_reservation multiset"
  rw_sels :: "selection_reservation multiset"

definition world_init :: ready_world where
  "world_init = \<lparr>rw_ready = ready_init, rw_pubs = {#}, rw_sels = {#}\<rparr>"

inductive world_step :: "ready_world \<Rightarrow> ready_world \<Rightarrow> bool" where
  ws_reserve: "publication_reserve cur g p (rw_ready w) = (Ok r, rs) \<Longrightarrow>
    world_step w (w\<lparr>rw_ready := rs, rw_pubs := add_mset r (rw_pubs w)\<rparr>)"
| ws_refuse: "publication_reserve cur g p (rw_ready w) = (Err e, rs) \<Longrightarrow> world_step w (w\<lparr>rw_ready := rs\<rparr>)"
| ws_commit: "r \<in># rw_pubs w \<Longrightarrow> publication_commit tid r (rw_ready w) = Some rs \<Longrightarrow>
    world_step w (w\<lparr>rw_ready := rs, rw_pubs := rw_pubs w - {#r#}\<rparr>)"
| ws_drop: "r \<in># rw_pubs w \<Longrightarrow>
    world_step w (w\<lparr>rw_ready := publication_drop r (rw_ready w), rw_pubs := rw_pubs w - {#r#}\<rparr>)"
| ws_push: "world_step w (w\<lparr>rw_ready := push_on_hart h tid p (rw_ready w)\<rparr>)"
| ws_pick: "world_step w (w\<lparr>rw_ready := snd (pick_local_eligible h (rw_ready w))\<rparr>)"
| ws_select: "pick_local_reserved eligible h (rw_ready w) = (Some tid, Some s, rs) \<Longrightarrow>
    (\<forall>s' \<in># rw_sels w. sr_hart s' \<noteq> h) \<Longrightarrow>
    world_step w (w\<lparr>rw_ready := rs, rw_sels := add_mset s (rw_sels w)\<rparr>)"
| ws_restore: "s \<in># rw_sels w \<Longrightarrow> restore_selection s (rw_ready w) = Some rs \<Longrightarrow>
    world_step w (w\<lparr>rw_ready := rs, rw_sels := rw_sels w - {#s#}\<rparr>)"
| ws_consume: "s \<in># rw_sels w \<Longrightarrow>
    world_step w (w\<lparr>rw_ready := selection_drop s (rw_ready w), rw_sels := rw_sels w - {#s#}\<rparr>)"
| ws_forget: "world_step w (w\<lparr>rw_ready := remove_from_all tid (rw_ready w)\<rparr>)"
| ws_steal: "world_step w (w\<lparr>rw_ready := snd (steal_from_busiest eligible g h (rw_ready w))\<rparr>)"
| ws_current: "world_step w (w\<lparr>rw_ready := set_current_task_id h tid (rw_ready w)\<rparr>)"
| ws_selected: "world_step w (w\<lparr>rw_ready := set_selected_task_id h tid (rw_ready w)\<rparr>)"
| ws_switch: "world_step w (w\<lparr>rw_ready := complete_selected_switch h tid (rw_ready w)\<rparr>)"
| ws_abort: "world_step w (w\<lparr>rw_ready := abort_selected_switch h (rw_ready w)\<rparr>)"
| ws_executing: "world_step w (w\<lparr>rw_ready := set_executing_task_id h tid (rw_ready w)\<rparr>)"
| ws_begin_save: "world_step w (w\<lparr>rw_ready := begin_outgoing_context_save h tid (rw_ready w)\<rparr>)"
| ws_end_save: "world_step w (w\<lparr>rw_ready := complete_outgoing_context_save h (rw_ready w)\<rparr>)"
| ws_online: "world_step w (w\<lparr>rw_ready := (rw_ready w)\<lparr>rs_rt_online := b\<rparr>\<rparr>)"

definition pub_count :: "publication_reservation multiset \<Rightarrow> usize \<Rightarrow> u8 \<Rightarrow> nat" where
  "pub_count P h p = size {#r \<in># P. pr_hart r = h \<and> pr_priority r = p#}"

definition sel_count :: "selection_reservation multiset \<Rightarrow> usize \<Rightarrow> u8 \<Rightarrow> nat" where
  "sel_count S h p = size {#s \<in># S. sr_hart s = h \<and> sr_sel_priority s = p#}"

definition world_inv :: "ready_world \<Rightarrow> bool" where
  "world_inv w \<longleftrightarrow> rs_wf (rw_ready w)
     \<and> (\<forall>h < MAX_HARTS. \<forall>p. cap_ok (rw_ready w) h p)
     \<and> (\<forall>h p. unat (bc_publication (rs_claims (rw_ready w) h p)) = pub_count (rw_pubs w) h p)
     \<and> (\<forall>h p. unat (bc_rollback (rs_claims (rw_ready w) h p)) = sel_count (rw_sels w) h p)
     \<and> (\<forall>r \<in># rw_pubs w. pr_hart r < MAX_HARTS \<and> pr_armed r)
     \<and> (\<forall>s \<in># rw_sels w. sr_hart s < MAX_HARTS \<and> sr_armed s)"

lemma world_inv_init: "world_inv world_init"
  by (auto simp: world_inv_def world_init_def ready_init_def rs_wf_def cap_ok_def bucket_def promised_def
      NO_CLAIMS_def hart_local_new_def pub_count_def sel_count_def MAX_HARTS_def list_all_length nth_Cons')

text \<open>A promise that is alive is covered by a free slot of its bucket.\<close>

lemma promise_covered:
  assumes "world_inv w" "h < MAX_HARTS" "0 < promised (rw_ready w) h p"
  obtains q where "bucket (rw_ready w) h p = Some q" "vd_len q + promised (rw_ready w) h p \<le> vd_capacity q"
proof -
  have "cap_ok (rw_ready w) h p" using assms(1,2) by (simp add: world_inv_def)
  then show ?thesis using that assms(3) by (auto simp: cap_ok_def split: option.splits)
qed

lemma size_filter_pos: "x \<in># M \<Longrightarrow> P x \<Longrightarrow> 0 < size {#y \<in># M. P y#}"
  by (auto dest: multi_member_split)

lemma pub_promise:
  assumes "world_inv w" "r \<in># rw_pubs w"
  shows "0 < unat (bc_publication (rs_claims (rw_ready w) (pr_hart r) (pr_priority r)))" "pr_hart r < MAX_HARTS" "pr_armed r"
proof -
  have "0 < pub_count (rw_pubs w) (pr_hart r) (pr_priority r)" unfolding pub_count_def by (rule size_filter_pos [OF assms(2)]) simp
  then show "0 < unat (bc_publication (rs_claims (rw_ready w) (pr_hart r) (pr_priority r)))"
    using assms(1) by (simp add: world_inv_def)
qed (use assms in \<open>simp_all add: world_inv_def\<close>)

lemma sel_promise:
  assumes "world_inv w" "s \<in># rw_sels w"
  shows "0 < unat (bc_rollback (rs_claims (rw_ready w) (sr_hart s) (sr_sel_priority s)))" "sr_hart s < MAX_HARTS" "sr_armed s"
proof -
  have "0 < sel_count (rw_sels w) (sr_hart s) (sr_sel_priority s)" unfolding sel_count_def by (rule size_filter_pos [OF assms(2)]) simp
  then show "0 < unat (bc_rollback (rs_claims (rw_ready w) (sr_hart s) (sr_sel_priority s)))"
    using assms(1) by (simp add: world_inv_def)
qed (use assms in \<open>simp_all add: world_inv_def\<close>)

lemma commit_succeeds:
  assumes "world_inv w" "r \<in># rw_pubs w"
  shows "\<exists>rs. publication_commit tid r (rw_ready w) = Some rs"
proof -
  note r = pub_promise [OF assms]
  then have p: "0 < promised (rw_ready w) (pr_hart r) (pr_priority r)" by (simp add: promised_def)
  obtain q where "bucket (rw_ready w) (pr_hart r) (pr_priority r) = Some q"
    "vd_len q + promised (rw_ready w) (pr_hart r) (pr_priority r) \<le> vd_capacity q"
    by (rule promise_covered [OF assms(1) r(2) p])
  moreover have "bc_publication (rs_claims (rw_ready w) (pr_hart r) (pr_priority r)) \<noteq> 0" using r(1) by auto
  ultimately show ?thesis using p by (simp add: publication_commit_def Let_def)
qed

lemma restore_succeeds:
  assumes "world_inv w" "s \<in># rw_sels w"
  shows "\<exists>rs. restore_selection s (rw_ready w) = Some rs"
proof -
  note s = sel_promise [OF assms]
  then have p: "0 < promised (rw_ready w) (sr_hart s) (sr_sel_priority s)" by (simp add: promised_def)
  obtain q where "bucket (rw_ready w) (sr_hart s) (sr_sel_priority s) = Some q"
    "vd_len q + promised (rw_ready w) (sr_hart s) (sr_sel_priority s) \<le> vd_capacity q"
    by (rule promise_covered [OF assms(1) s(2) p])
  moreover have "bc_rollback (rs_claims (rw_ready w) (sr_hart s) (sr_sel_priority s)) \<noteq> 0" using s(1) by auto
  ultimately show ?thesis using p by (simp add: restore_selection_def reinsert_def Let_def)
qed

section \<open>The invariant is kept\<close>

lemma world_inv_keeps:
  assumes "world_inv w" "keeps (rw_ready w) rs"
  shows "world_inv (w\<lparr>rw_ready := rs\<rparr>)"
  using assms by (simp add: world_inv_def keeps_def pub_count_def sel_count_def)

lemma world_inv_at:
  assumes inv: "world_inv w" and h: "h < MAX_HARTS"
    and cap: "vd_len q + (unat (bc_publication c) + unat (bc_rollback c)) \<le> vd_capacity q"
    and counts: "unat (bc_publication c) = pub_count P h p" "unat (bc_rollback c) = sel_count S h p"
    and others: "\<And>h' p'. \<not> (h' = h \<and> p' = p) \<Longrightarrow>
      pub_count P h' p' = pub_count (rw_pubs w) h' p' \<and> sel_count S h' p' = sel_count (rw_sels w) h' p'"
    and ok: "\<And>r. r \<in># P \<Longrightarrow> pr_hart r < MAX_HARTS \<and> pr_armed r" "\<And>s. s \<in># S \<Longrightarrow> sr_hart s < MAX_HARTS \<and> sr_armed s"
  shows "world_inv \<lparr>rw_ready = upd_claims h p c (upd_ready h (bt_insert p q) (rw_ready w)), rw_pubs = P, rw_sels = S\<rparr>"
proof -
  let ?rs = "upd_claims h p c (upd_ready h (bt_insert p q) (rw_ready w))"
  have wf: "rs_wf (rw_ready w)" using inv by (simp add: world_inv_def)
  have "cap_ok ?rs h' p'" if "h' < MAX_HARTS" for h' p'
  proof (cases "h' = h \<and> p' = p")
    case True
    then show ?thesis using wf h cap by (simp add: cap_ok_def)
  next
    case False
    moreover have "cap_ok (rw_ready w) h' p'" using inv that by (simp add: world_inv_def)
    ultimately show ?thesis using wf h by (simp only: cap_ok_claims(1) [OF False] cap_ok_insert if_False)
  qed
  moreover have "unat (bc_publication (rs_claims ?rs h' p')) = pub_count P h' p'"
    "unat (bc_rollback (rs_claims ?rs h' p')) = sel_count S h' p'" for h' p'
    using counts others [of h' p'] inv by (cases "h' = h \<and> p' = p"; auto simp: world_inv_def)+
  ultimately show ?thesis using wf h ok by (simp add: world_inv_def)
qed

lemma upd_commute: "upd_ready h f (upd_claims h' p c rs) = upd_claims h' p c (upd_ready h f rs)"
  by (simp add: upd_ready_def upd_claims_def)

lemma bt_insert_same: "bt_wf m \<Longrightarrow> bt_get m k = Some v \<Longrightarrow> bt_insert k v m = m"
proof (induction k v m rule: bt_insert.induct)
  case (2 k v a b m)
  then have "k < a \<Longrightarrow> bt_get m k = None" by (auto simp: bt_wf_def map_of_eq_None_iff)
  with 2 show ?case by (auto simp: bt_wf_def split: if_splits)
qed simp

lemma upd_ready_same:
  assumes "rs_wf rs" "h < MAX_HARTS" "bucket rs h p = Some q"
  shows "upd_ready h (bt_insert p q) rs = rs"
proof -
  have "bt_wf (hl_ready (rs_harts rs ! h))" using assms(1,2) by (simp add: rs_wf_def list_all_length)
  then have "bt_insert p q (hl_ready (rs_harts rs ! h)) = hl_ready (rs_harts rs ! h)"
    by (rule bt_insert_same) (use assms(3) in \<open>simp add: bucket_def\<close>)
  then show ?thesis using assms(1,2) by (simp add: upd_ready_def)
qed

lemma keeps_drop_unused: "h < MAX_HARTS \<Longrightarrow> keeps rs (drop_unused_bucket h p rs)"
  by (auto simp: drop_unused_bucket_def Let_def promised_def intro!: keeps_trans [OF keeps_remove keeps_claims])

lemma count_add [simp]:
  "pub_count (add_mset r P) h p = pub_count P h p + (if pr_hart r = h \<and> pr_priority r = p then 1 else 0)"
  "sel_count (add_mset s S) h p = sel_count S h p + (if sr_hart s = h \<and> sr_sel_priority s = p then 1 else 0)"
  by (simp_all add: pub_count_def sel_count_def)

lemma count_remove:
  "r \<in># P \<Longrightarrow> pub_count P h p = pub_count (P - {#r#}) h p + (if pr_hart r = h \<and> pr_priority r = p then 1 else 0)"
  "s \<in># S \<Longrightarrow> sel_count S h p = sel_count (S - {#s#}) h p + (if sr_hart s = h \<and> sr_sel_priority s = p then 1 else 0)"
  by (auto dest!: multi_member_split)

lemma world_invD:
  assumes "world_inv w"
  shows "rs_wf (rw_ready w)" "h < MAX_HARTS \<Longrightarrow> cap_ok (rw_ready w) h p"
    "unat (bc_publication (rs_claims (rw_ready w) h p)) = pub_count (rw_pubs w) h p"
    "unat (bc_rollback (rs_claims (rw_ready w) h p)) = sel_count (rw_sels w) h p"
    "\<forall>r \<in># rw_pubs w. pr_hart r < MAX_HARTS \<and> pr_armed r" "\<forall>s \<in># rw_sels w. sr_hart s < MAX_HARTS \<and> sr_armed s"
  using assms by (simp_all add: world_inv_def)

end
