(* ===== verification/Ready_World.thy ===== *)
theory Ready_World
  imports Ready_Promises
begin

text \<open>
  The promise invariant holds in every reachable state of the ready queues, so neither the
  publication of a reserved child nor the rollback of a selection can fail.
\<close>

lemma unat_plus_1:
  fixes w :: "'a::len word"
  assumes "w \<noteq> - 1"
  shows "unat (w + 1) = Suc (unat w)"
proof -
  have "unat w \<noteq> unat (- 1 :: 'a word)" using assms by (simp only: word_unat_eq_iff) simp
  moreover have "unat w < 2 ^ LENGTH('a)" by (rule unsigned_less)
  ultimately have "unat w + 1 < 2 ^ LENGTH('a)" unfolding unat_max_word by linarith
  then show ?thesis by (simp add: unat_word_ariths)
qed

lemma world_upd_eq:
  "w\<lparr>rw_ready := rs, rw_pubs := P\<rparr> = \<lparr>rw_ready = rs, rw_pubs = P, rw_sels = rw_sels w\<rparr>"
  "w\<lparr>rw_ready := rs, rw_sels := S\<rparr> = \<lparr>rw_ready = rs, rw_pubs = rw_pubs w, rw_sels = S\<rparr>"
  for w :: ready_world
  by (cases w; simp)+

lemma keeps_refused:
  assumes "publication_reserve cur g p rs = (Err e, rs')"
  shows "keeps rs rs'"
proof -
  let ?h = "destination_hart rs cur p" and ?q = "entry_or_default rs (destination_hart rs cur p) p"
  let ?w = "promised rs ?h p + 1"
  show ?thesis
  proof (cases "?h < MAX_HARTS")
    case True
    have same: "keeps rs (upd_ready ?h (bt_insert p ?q) rs)" using True by (intro keeps_insert) (auto intro: cap_ok_entry)
    have grown: "keeps rs (upd_ready ?h (bt_insert p (vd_reserve ?w ?q)) rs)"
      using True vd_reserve_capacity(1) [of ?q ?w] by (intro keeps_insert) auto
    from assms True same grown show ?thesis
      by (auto simp: publication_reserve_def Let_def intro: keeps_trans keeps_drop_if_new split: if_splits)
  next
    case False
    with assms show ?thesis by (simp add: publication_reserve_def Let_def)
  qed
qed

lemma world_inv_reserve:
  assumes inv: "world_inv w" and res: "publication_reserve cur g p (rw_ready w) = (Ok r, rs)"
  shows "world_inv (w\<lparr>rw_ready := rs, rw_pubs := add_mset r (rw_pubs w)\<rparr>)"
proof -
  let ?rs = "rw_ready w" let ?h = "destination_hart ?rs cur p"
  let ?c = "rs_claims ?rs ?h p" and ?q = "vd_reserve (promised ?rs ?h p + 1) (entry_or_default ?rs ?h p)"
  let ?c' = "?c\<lparr>bc_created := (if bucket ?rs ?h p \<noteq> None then bc_created ?c else True), bc_publication := bc_publication ?c + 1\<rparr>"
  from res have h: "?h < MAX_HARTS" and pub: "bc_publication ?c \<noteq> - 1"
    and rs: "rs = upd_claims ?h p ?c' (upd_ready ?h (bt_insert p ?q) ?rs)"
    and r: "r = \<lparr>pr_hart = ?h, pr_priority = p, pr_armed = True\<rparr>"
    by (auto simp: publication_reserve_def Let_def split: if_splits)
  have "world_inv \<lparr>rw_ready = upd_claims ?h p ?c' (upd_ready ?h (bt_insert p ?q) ?rs),
      rw_pubs = add_mset r (rw_pubs w), rw_sels = rw_sels w\<rparr>"
  proof (rule world_inv_at [OF inv h])
    show "vd_len ?q + (unat (bc_publication ?c') + unat (bc_rollback ?c')) \<le> vd_capacity ?q"
      using vd_reserve_capacity(1) [of "entry_or_default ?rs ?h p" "promised ?rs ?h p + 1"]
      by (simp add: unat_plus_1 [OF pub] promised_def)
  qed (use world_invD [OF inv] h in \<open>auto simp: r unat_plus_1 [OF pub]\<close>)
  then show ?thesis by (simp add: rs world_upd_eq)
qed

lemma world_inv_commit:
  assumes inv: "world_inv w" and r: "r \<in># rw_pubs w" and res: "publication_commit tid r (rw_ready w) = Some rs"
  shows "world_inv (w\<lparr>rw_ready := rs, rw_pubs := rw_pubs w - {#r#}\<rparr>)"
proof -
  let ?rs = "rw_ready w" let ?h = "pr_hart r" and ?p = "pr_priority r"
  let ?c = "rs_claims ?rs ?h ?p" let ?c' = "?c\<lparr>bc_publication := bc_publication ?c - 1, bc_created := False\<rparr>"
  note live = pub_promise [OF inv r]
  from res obtain q where q: "bucket ?rs ?h ?p = Some q"
    and rs: "rs = upd_claims ?h ?p ?c' (upd_ready ?h (bt_insert ?p (vd_push_back tid q)) ?rs)"
    by (auto simp: publication_commit_def publication_drop_def upd_commute Let_def split: option.splits if_splits)
  have minus: "unat (bc_publication ?c') = unat (bc_publication ?c) - 1"
    using live(1) by (simp add: unat_sub word_le_nat_alt)
  have cap: "vd_len q + promised ?rs ?h ?p \<le> vd_capacity q" using world_invD(2) [OF inv live(2)] q by (rule cap_okD)
  have "world_inv \<lparr>rw_ready = upd_claims ?h ?p ?c' (upd_ready ?h (bt_insert ?p (vd_push_back tid q)) ?rs),
      rw_pubs = rw_pubs w - {#r#}, rw_sels = rw_sels w\<rparr>"
  proof (rule world_inv_at [OF inv live(2)])
    show "vd_len (vd_push_back tid q) + (unat (bc_publication ?c') + unat (bc_rollback ?c')) \<le> vd_capacity (vd_push_back tid q)"
      using cap minus live(1) vd_reserve_capacity(2) [of q 1] by (simp add: promised_def)
    show "unat (bc_publication ?c') = pub_count (rw_pubs w - {#r#}) ?h ?p"
      using minus world_invD(3) [OF inv, of ?h ?p] count_remove(1) [OF r, of ?h ?p] by simp
  qed (use world_invD [OF inv] count_remove(1) [OF r] in \<open>auto dest: in_diffD\<close>)
  then show ?thesis by (simp add: rs world_upd_eq)
qed

lemma world_inv_drop:
  assumes inv: "world_inv w" and r: "r \<in># rw_pubs w"
  shows "world_inv (w\<lparr>rw_ready := publication_drop r (rw_ready w), rw_pubs := rw_pubs w - {#r#}\<rparr>)"
proof -
  let ?rs = "rw_ready w" let ?h = "pr_hart r" and ?p = "pr_priority r"
  let ?c = "rs_claims ?rs ?h ?p" let ?c' = "?c\<lparr>bc_publication := saturating_sub (bc_publication ?c) 1\<rparr>"
  note live = pub_promise [OF inv r]
  then have pr: "0 < promised ?rs ?h ?p" by (simp add: promised_def)
  obtain q where q: "bucket ?rs ?h ?p = Some q" and cap: "vd_len q + promised ?rs ?h ?p \<le> vd_capacity q"
    by (rule promise_covered [OF inv live(2) pr])
  have minus: "unat (bc_publication ?c') = unat (bc_publication ?c) - 1" by (simp add: unat_saturating_sub)
  have "world_inv \<lparr>rw_ready = upd_claims ?h ?p ?c' (upd_ready ?h (bt_insert ?p q) ?rs),
      rw_pubs = rw_pubs w - {#r#}, rw_sels = rw_sels w\<rparr>" (is "world_inv ?w")
  proof (rule world_inv_at [OF inv live(2)])
    show "vd_len q + (unat (bc_publication ?c') + unat (bc_rollback ?c')) \<le> vd_capacity q"
      using cap minus by (simp add: promised_def)
    show "unat (bc_publication ?c') = pub_count (rw_pubs w - {#r#}) ?h ?p"
      using minus world_invD(3) [OF inv, of ?h ?p] count_remove(1) [OF r, of ?h ?p] by simp
  qed (use world_invD [OF inv] count_remove(1) [OF r] in \<open>auto dest: in_diffD\<close>)
  from world_inv_keeps [OF this keeps_drop_unused [OF live(2)]]
  show ?thesis using live(3) upd_ready_same [OF world_invD(1) [OF inv] live(2) q]
    by (simp add: publication_drop_def Let_def world_upd_eq)
qed

lemma pick_scan_Some:
  "pick_scan ok qs = Some (p, i) \<Longrightarrow> \<exists>q. (p, q) \<in> set qs \<and> position ok (vd_items q) = Some i"
  by (induction ok qs rule: pick_scan.induct) (auto split: option.splits)

lemma world_inv_select:
  assumes inv: "world_inv w" and res: "pick_local_reserved eligible h (rw_ready w) = (Some tid, Some s, rs)"
    and free: "\<forall>s' \<in># rw_sels w. sr_hart s' \<noteq> h"
  shows "world_inv (w\<lparr>rw_ready := rs, rw_sels := add_mset s (rw_sels w)\<rparr>)"
proof -
  let ?rs = "rw_ready w"
  from res obtain p i where h: "h < MAX_HARTS"
    and scan: "pick_scan (\<lambda>tid. \<not> owned_by_another_hart ?rs h tid \<and> eligible tid) (rev (hl_ready (rs_harts ?rs ! h))) = Some (p, i)"
    by (auto simp: pick_local_reserved_def split: if_splits option.splits)
  from pick_scan_Some [OF scan] obtain q where q: "bucket ?rs h p = Some q" "i < vd_len q"
    using hart_buckets(2) [OF world_invD(1) [OF inv] h] by (auto simp: vd_len_def dest: position_SomeD)
  let ?c = "rs_claims ?rs h p" let ?c' = "?c\<lparr>bc_rollback := bc_rollback ?c + 1, bc_rollback_ahead := i\<rparr>"
  let ?q = "q\<lparr>vd_items := remove_nth i (vd_items q)\<rparr>"
  have none: "sel_count (rw_sels w) h p = 0" using free by (auto simp: sel_count_def filter_mset_eq_conv)
  then have zero: "bc_rollback ?c = 0" using world_invD(4) [OF inv, of h p] by (simp add: word_unat_eq_iff)
  have s: "rs = upd_claims h p ?c' (upd_ready h (bt_insert p ?q) ?rs)"
    "s = \<lparr>sr_hart = h, sr_sel_priority = p, sr_tid = vd_items q ! i, sr_armed = True\<rparr>"
    using res h q
    by (auto simp: pick_local_reserved_def scan entry_or_default_def vacate_def vd_remove_def Let_def)
  have cap: "vd_len q + promised ?rs h p \<le> vd_capacity q" using world_invD(2) [OF inv h] q(1) by (rule cap_okD)
  have "world_inv \<lparr>rw_ready = upd_claims h p ?c' (upd_ready h (bt_insert p ?q) ?rs),
      rw_pubs = rw_pubs w, rw_sels = add_mset s (rw_sels w)\<rparr>"
  proof (rule world_inv_at [OF inv h])
    show "vd_len ?q + (unat (bc_publication ?c') + unat (bc_rollback ?c')) \<le> vd_capacity ?q"
      using cap q(2) by (simp add: promised_def zero vd_len_def length_remove_nth)
  qed (use world_invD [OF inv] h zero none in \<open>auto simp: s(2)\<close>)
  then show ?thesis by (simp add: s(1) world_upd_eq)
qed

lemma world_inv_restore:
  assumes inv: "world_inv w" and s: "s \<in># rw_sels w" and res: "restore_selection s (rw_ready w) = Some rs"
  shows "world_inv (w\<lparr>rw_ready := rs, rw_sels := rw_sels w - {#s#}\<rparr>)"
proof -
  let ?rs = "rw_ready w" let ?h = "sr_hart s" and ?p = "sr_sel_priority s"
  let ?c = "rs_claims ?rs ?h ?p" let ?c' = "?c\<lparr>bc_rollback := bc_rollback ?c - 1\<rparr>"
  note live = sel_promise [OF inv s]
  from res obtain q where q: "bucket ?rs ?h ?p = Some q" and len: "vd_len q < vd_capacity q"
    and rs: "rs = upd_claims ?h ?p ?c' (upd_ready ?h (bt_insert ?p (vd_insert (min (bc_rollback_ahead ?c) (vd_len q)) (sr_tid s) q)) ?rs)"
    by (auto simp: restore_selection_def selection_drop_def reinsert_def Let_def split: option.splits if_splits)
  let ?q = "vd_insert (min (bc_rollback_ahead ?c) (vd_len q)) (sr_tid s) q"
  have qs: "vd_len ?q = Suc (vd_len q)" "vd_capacity ?q = vd_capacity q"
    using len by (simp_all add: vd_insert_def vd_len_def vd_reserve_def Let_def)
  have minus: "unat (bc_rollback ?c') = unat (bc_rollback ?c) - 1"
    using live(1) by (simp add: unat_sub word_le_nat_alt)
  have cap: "vd_len q + promised ?rs ?h ?p \<le> vd_capacity q" using world_invD(2) [OF inv live(2)] q by (rule cap_okD)
  have "world_inv \<lparr>rw_ready = upd_claims ?h ?p ?c' (upd_ready ?h (bt_insert ?p ?q) ?rs),
      rw_pubs = rw_pubs w, rw_sels = rw_sels w - {#s#}\<rparr>"
  proof (rule world_inv_at [OF inv live(2)])
    show "vd_len ?q + (unat (bc_publication ?c') + unat (bc_rollback ?c')) \<le> vd_capacity ?q"
      using cap minus live(1) by (simp add: promised_def qs)
    show "unat (bc_rollback ?c') = sel_count (rw_sels w - {#s#}) ?h ?p"
      using minus world_invD(4) [OF inv, of ?h ?p] count_remove(2) [OF s, of ?h ?p] by simp
  qed (use world_invD [OF inv] count_remove(2) [OF s] in \<open>auto dest: in_diffD\<close>)
  then show ?thesis by (simp add: rs world_upd_eq)
qed

lemma world_inv_consume:
  assumes inv: "world_inv w" and s: "s \<in># rw_sels w"
  shows "world_inv (w\<lparr>rw_ready := selection_drop s (rw_ready w), rw_sels := rw_sels w - {#s#}\<rparr>)"
proof -
  let ?rs = "rw_ready w" let ?h = "sr_hart s" and ?p = "sr_sel_priority s"
  let ?c = "rs_claims ?rs ?h ?p" let ?c' = "?c\<lparr>bc_rollback := saturating_sub (bc_rollback ?c) 1\<rparr>"
  note live = sel_promise [OF inv s]
  then have pr: "0 < promised ?rs ?h ?p" by (simp add: promised_def)
  obtain q where q: "bucket ?rs ?h ?p = Some q" and cap: "vd_len q + promised ?rs ?h ?p \<le> vd_capacity q"
    by (rule promise_covered [OF inv live(2) pr])
  have minus: "unat (bc_rollback ?c') = unat (bc_rollback ?c) - 1" by (simp add: unat_saturating_sub)
  have "world_inv \<lparr>rw_ready = upd_claims ?h ?p ?c' (upd_ready ?h (bt_insert ?p q) ?rs),
      rw_pubs = rw_pubs w, rw_sels = rw_sels w - {#s#}\<rparr>"
  proof (rule world_inv_at [OF inv live(2)])
    show "vd_len q + (unat (bc_publication ?c') + unat (bc_rollback ?c')) \<le> vd_capacity q"
      using cap minus by (simp add: promised_def)
    show "unat (bc_rollback ?c') = sel_count (rw_sels w - {#s#}) ?h ?p"
      using minus world_invD(4) [OF inv, of ?h ?p] count_remove(2) [OF s, of ?h ?p] by simp
  qed (use world_invD [OF inv] count_remove(2) [OF s] in \<open>auto dest: in_diffD\<close>)
  then show ?thesis using live(3) upd_ready_same [OF world_invD(1) [OF inv] live(2) q]
    by (simp add: selection_drop_def Let_def world_upd_eq)
qed

lemma keeps_online: "keeps rs (rs\<lparr>rs_rt_online := b\<rparr>)"
proof (rule keepsI)
  show "cap_ok (rs\<lparr>rs_rt_online := b\<rparr>) h p" if "\<And>h p. h < MAX_HARTS \<Longrightarrow> cap_ok rs h p" "h < MAX_HARTS" for h p
    using that(1) [OF that(2), of p] cap_ok_cong [of "rs\<lparr>rs_rt_online := b\<rparr>" h p rs]
    by (simp add: bucket_def promised_def)
qed (simp_all add: rs_wf_def)

lemma world_inv_step: "world_step w w' \<Longrightarrow> world_inv w \<Longrightarrow> world_inv w'"
proof (induction rule: world_step.induct)
  case (ws_forget w tid)
  then show ?case using world_inv_keeps [OF _ keeps_remove_all] world_invD(1) by blast
qed (blast intro: world_inv_reserve world_inv_commit world_inv_drop world_inv_select world_inv_restore
      world_inv_consume world_inv_keeps keeps_refused keeps_push keeps_pick keeps_steal keeps_online
    | simp add: world_inv_keeps keeps_hart set_current_task_id_def set_selected_task_id_def
      complete_selected_switch_def abort_selected_switch_def set_executing_task_id_def
      begin_outgoing_context_save_def complete_outgoing_context_save_def)+

lemma world_inv_steps: "world_step\<^sup>*\<^sup>* w w' \<Longrightarrow> world_inv w \<Longrightarrow> world_inv w'"
  by (induction rule: rtranclp_induct) (blast intro: world_inv_step)+

end
