(* ===== verification/Ready_Steal.thy ===== *)
theory Ready_Steal
  imports Ready_Promises
begin

text \<open>
  Selection takes the first eligible entry of the highest non-empty priority, and stealing moves
  tasks without losing, duplicating or reordering any.
\<close>

definition items :: "ready_state \<Rightarrow> usize \<Rightarrow> u8 \<Rightarrow> usize list" where
  "items rs h p = vd_items (entry_or_default rs h p)"

lemma items_bucket: "bucket rs h p = Some q \<Longrightarrow> items rs h p = vd_items q" "bucket rs h p = None \<Longrightarrow> items rs h p = []"
  by (simp_all add: items_def entry_or_default_def vd_default_def)

lemma items_upd:
  "items (upd_claims h p c rs) = items rs"
  "rs_wf rs \<Longrightarrow> h < MAX_HARTS \<Longrightarrow>
   items (upd_ready h (bt_insert p q) rs) h' p' = (if h' = h \<and> p' = p then vd_items q else items rs h' p')"
  "rs_wf rs \<Longrightarrow> h < MAX_HARTS \<Longrightarrow>
   items (upd_ready h (bt_remove p) rs) h' p' = (if h' = h \<and> p' = p then [] else items rs h' p')"
  by (auto simp: items_def entry_or_default_def vd_default_def fun_eq_iff)

section \<open>Selection\<close>

lemma pick_scan_first:
  assumes "pick_scan ok qs = Some (p, i)"
  shows "\<exists>xs q ys. qs = xs @ (p, q) # ys \<and> position ok (vd_items q) = Some i
    \<and> (\<forall>(p', q') \<in> set xs. \<forall>t \<in> set (vd_items q'). \<not> ok t)"
  using assms
proof (induction ok qs rule: pick_scan.induct)
  case (2 ok p' q' rest)
  show ?case
  proof (cases "position ok (vd_items q')")
    case None
    with 2 obtain xs q ys where "rest = xs @ (p, q) # ys" "position ok (vd_items q) = Some i"
      "\<forall>(p', q') \<in> set xs. \<forall>t \<in> set (vd_items q'). \<not> ok t" by auto
    with None show ?thesis
      by (intro exI [of _ "(p', q') # xs"] exI [of _ q] exI [of _ ys]) (auto simp: position_None_iff)
  next
    case (Some j)
    with 2(2) show ?thesis by (intro exI [of _ "[]"]) auto
  qed
qed simp

lemma pick_scan_none:
  "pick_scan ok qs = None \<Longrightarrow> (p, q) \<in> set qs \<Longrightarrow> t \<in> set (vd_items q) \<Longrightarrow> \<not> ok t"
  by (induction ok qs rule: pick_scan.induct) (auto simp: position_None_iff split: option.splits)

text \<open>What a selection does, in terms of the buckets.\<close>

lemma sorted_rev_after:
  assumes "bt_wf m" "rev m = xs @ (p, q) # ys" "p < p'" "bt_get m p' = Some q'"
  shows "(p', q') \<in> set xs"
proof -
  have m: "m = rev ys @ (p, q) # rev xs" using assms(2) by (metis append.assoc append_Cons append_Nil rev.simps(2) rev_append rev_swap)
  have "(p', q') \<in> set m" using assms(4) by (rule map_of_SomeD)
  then have "(p', q') \<in> set ys \<or> (p', q') = (p, q) \<or> (p', q') \<in> set xs" by (auto simp: m)
  moreover have "(p', q') \<in> set ys \<Longrightarrow> p' < p" using assms(1) by (force simp: bt_wf_def m sorted_wrt_append)
  ultimately show ?thesis using assms(3) by auto
qed

lemma pick_exact:
  assumes wf: "rs_wf rs" and h: "h < MAX_HARTS"
  shows "case pick_local_eligible h rs of
      (None, rs') \<Rightarrow> rs' = rs \<and> (\<forall>p. \<forall>t \<in> set (items rs h p). owned_by_another_hart rs h t)
    | (Some t, rs') \<Rightarrow> (\<exists>p xs ys. items rs h p = xs @ t # ys \<and> \<not> owned_by_another_hart rs h t
        \<and> (\<forall>x \<in> set xs. owned_by_another_hart rs h x)
        \<and> (\<forall>p' > p. \<forall>x \<in> set (items rs h p'). owned_by_another_hart rs h x)
        \<and> items rs' = (items rs)(h := (items rs h)(p := xs @ ys)))"
proof (cases "pick_scan (\<lambda>tid. \<not> owned_by_another_hart rs h tid) (rev (hl_ready (rs_harts rs ! h)))")
  case None
  have "owned_by_another_hart rs h t" if "t \<in> set (items rs h p)" for p t
  proof (cases "bucket rs h p")
    case (Some q)
    then have "(p, q) \<in> set (rev (hl_ready (rs_harts rs ! h)))" using hart_buckets(2) [OF wf h] by simp
    from pick_scan_none [OF None this] show ?thesis using that Some by (auto simp: items_bucket)
  qed (use that in \<open>simp add: items_bucket\<close>)
  then show ?thesis using h by (simp add: pick_local_eligible_def None)
next
  case (Some pi)
  obtain p i where [simp]: "pi = (p, i)" by (cases pi)
  from pick_scan_first [OF Some [simplified]] obtain before q after where
    split: "rev (hl_ready (rs_harts rs ! h)) = before @ (p, q) # after"
    and pos: "position (\<lambda>tid. \<not> owned_by_another_hart rs h tid) (vd_items q) = Some i"
    and higher: "\<forall>(p', q') \<in> set before. \<forall>t \<in> set (vd_items q'). owned_by_another_hart rs h t"
    by auto
  have "(p, q) \<in> set (hl_ready (rs_harts rs ! h))" by (subst set_rev [symmetric]) (simp add: split)
  then have q: "bucket rs h p = Some q" using hart_buckets(2) [OF wf h] by simp
  note i = position_SomeD [OF pos]
  have above: "owned_by_another_hart rs h x" if "p < p'" "x \<in> set (items rs h p')" for p' x
  proof (cases "bucket rs h p'")
    case (Some q')
    have "bt_wf (hl_ready (rs_harts rs ! h))" using wf h by (simp add: rs_wf_def list_all_length)
    from sorted_rev_after [OF this split that(1)] Some have "(p', q') \<in> set before" by (simp add: bucket_def)
    with higher that(2) Some show ?thesis by (auto simp: items_bucket)
  qed (use that in \<open>simp add: items_bucket\<close>)
  have pick: "pick_local_eligible h rs =
      (Some (vd_items q ! i), upd_ready h (bt_insert p (q\<lparr>vd_items := remove_nth i (vd_items q)\<rparr>)) rs)"
    using h i Some q by (simp add: pick_local_eligible_def entry_or_default_def vd_remove_def vd_len_def)
  have at: "items rs h p = take i (vd_items q) @ vd_items q ! i # drop (Suc i) (vd_items q)"
    using i q by (simp add: items_bucket id_take_nth_drop)
  have before: "\<forall>x \<in> set (take i (vd_items q)). owned_by_another_hart rs h x"
    using i by (auto simp: in_set_conv_nth)
  have gone: "items (upd_ready h (bt_insert p (q\<lparr>vd_items := remove_nth i (vd_items q)\<rparr>)) rs) =
      (items rs)(h := (items rs h)(p := take i (vd_items q) @ drop (Suc i) (vd_items q)))"
    by (rule ext, rule ext) (simp add: items_upd(2) [OF wf h] remove_nth_def)
  have free: "\<not> owned_by_another_hart rs h (vd_items q ! i)" using i by blast
  show ?thesis
    unfolding pick prod.case option.case
    by (rule exI [of _ p], rule exI [of _ "take i (vd_items q)"], rule exI [of _ "drop (Suc i) (vd_items q)"])
      (intro conjI at free before gone allI impI ballI above)
qed

section \<open>Stealing\<close>

text \<open>The list without its first \<open>k\<close> entries that satisfy \<open>ok\<close>.\<close>

fun drop_first :: "('a \<Rightarrow> bool) \<Rightarrow> nat \<Rightarrow> 'a list \<Rightarrow> 'a list" where
  "drop_first ok k [] = []"
| "drop_first ok k (x # xs) =
     (if ok x then (case k of 0 \<Rightarrow> x # xs | Suc j \<Rightarrow> drop_first ok j xs) else x # drop_first ok k xs)"

lemma drop_first_0 [simp]: "drop_first ok 0 xs = xs"
  by (induction xs) auto

lemma drop_first_next:
  "position ok (drop_first ok k xs) = Some i \<Longrightarrow>
   k < length (filter ok xs) \<and> drop_first ok k xs ! i = filter ok xs ! k
   \<and> remove_nth i (drop_first ok k xs) = drop_first ok (Suc k) xs"
proof (induction xs arbitrary: k i)
  case (Cons x xs)
  show ?case
  proof (cases "ok x")
    case True
    with Cons show ?thesis by (cases k) (auto simp: remove_nth_def split: if_splits)
  next
    case False
    with Cons.prems obtain j where j: "position ok (drop_first ok k xs) = Some j" "i = Suc j" by auto
    from Cons.IH [OF j(1)] False show ?thesis by (simp add: j(2) remove_nth_def)
  qed
qed simp

lemma drop_first_none:
  "position ok (drop_first ok k xs) = None \<Longrightarrow> length (filter ok xs) \<le> k"
proof (induction xs arbitrary: k)
  case (Cons x xs)
  then show ?case using Cons.IH [of 0] by (cases "ok x"; cases k) auto
qed simp

lemma mset_drop_first: "mset (drop_first ok k xs) + mset (take k (filter ok xs)) = mset xs"
proof (induction xs arbitrary: k)
  case (Cons x xs)
  show ?case
  proof (cases "ok x")
    case True
    then show ?thesis using Cons.IH by (cases k) simp_all
  next
    case False
    then show ?thesis using Cons.IH [of k] by simp
  qed
qed simp

lemma filter_drop_first:
  "filter (\<lambda>x. \<not> ok x) (drop_first ok k xs) = filter (\<lambda>x. \<not> ok x) xs"
  "filter ok (drop_first ok k xs) = drop k (filter ok xs)"
  by (induction xs arbitrary: k) (auto split: nat.split)

definition stolen_rel ::
    "usize \<Rightarrow> usize \<Rightarrow> (usize \<Rightarrow> bool) \<Rightarrow> ready_state \<Rightarrow> (u8 \<Rightarrow> nat) \<Rightarrow> ready_state \<Rightarrow> bool" where
  "stolen_rel victim thief permits rs0 k rs \<longleftrightarrow> rs_wf rs \<and>
     (\<forall>p. items rs victim p = drop_first permits (k p) (items rs0 victim p)
        \<and> items rs thief p = items rs0 thief p @ take (k p) (filter permits (items rs0 victim p))
        \<and> k p \<le> length (filter permits (items rs0 victim p)))"

lemma steal_one_cases:
  assumes wf: "rs_wf rs" and h: "thief < MAX_HARTS"
  shows "case steal_one thief permits g p rs of
      NoCandidate \<Rightarrow> position permits (items rs (1 - thief) p) = None
    | Refused rs' \<Rightarrow> \<not> g \<and> rs_wf rs' \<and> items rs' = items rs
    | Moved rs' \<Rightarrow> (\<exists>i. position permits (items rs (1 - thief) p) = Some i \<and> rs_wf rs' \<and>
        items rs' = (items rs)
          (1 - thief := (items rs (1 - thief))(p := remove_nth i (items rs (1 - thief) p)),
           thief := (items rs thief)(p := items rs thief p @ [items rs (1 - thief) p ! i])))"
proof -
  define v where "v = 1 - thief"
  let ?d = "entry_or_default rs thief p"
  have v: "v < MAX_HARTS" "v \<noteq> thief" using h unfolding MAX_HARTS_def v_def by arith+
  have cand: "(case bucket rs v p of None \<Rightarrow> None | Some vq \<Rightarrow> position permits (vd_items vq)) = position permits (items rs v p)"
    by (simp add: items_bucket split: option.split)
  show ?thesis
  proof (cases "position permits (items rs v p)")
    case None
    then show ?thesis by (simp add: steal_one_def v_def [symmetric, simplified] Let_def cand)
  next
    case (Some i)
    then have i: "i < vd_len (entry_or_default rs v p)" using position_SomeD [OF Some] by (simp add: items_def vd_len_def)
    let ?vq = "(entry_or_default rs v p)\<lparr>vd_items := remove_nth i (items rs v p)\<rparr>"
    let ?c = "note_removed i (rs_claims rs v p)"
    have rem: "remove_tracked i (entry_or_default rs v p, rs_claims rs v p) = (Some (items rs v p ! i), ?vq, ?c)"
      using i by (simp add: remove_tracked_def vd_remove_def items_def)
    let ?keep = "promised rs thief p + 1" let ?rs1 = "upd_claims v p ?c (upd_ready v (bt_insert p ?vq) rs)"
    let ?rs2 = "upd_ready thief (bt_insert p (vd_push_back (items rs v p ! i) (vd_reserve ?keep ?d))) ?rs1"
    show ?thesis
    proof (cases "vd_capacity ?d < vd_len ?d + ?keep \<and> \<not> g")
      case True
      let ?r = "upd_ready thief (bt_insert p ?d) rs"
      have same: "items ?r = items rs" by (rule ext, rule ext) (simp add: items_upd(2) [OF wf h], simp add: items_def)
      have "items (drop_unused_bucket_if_new thief p e ?r) = items ?r" for e
        using wf h by (auto simp: drop_unused_bucket_if_new_def fun_eq_iff items_upd(3) bucket_empty_def items_bucket split: option.splits)
      moreover have "rs_wf (drop_unused_bucket_if_new thief p e ?r)" for e
        using wf h by (simp add: drop_unused_bucket_if_new_def)
      ultimately show ?thesis using True by (simp add: steal_one_def v_def [symmetric, simplified] Let_def cand Some same)
    next
      case False
      have "items ?rs2 = (items rs) (v := (items rs v)(p := remove_nth i (items rs v p)),
          thief := (items rs thief)(p := items rs thief p @ [items rs v p ! i]))"
        using wf h v by (auto simp: fun_eq_iff items_upd items_def [symmetric])
      moreover have "rs_wf ?rs2" using wf h v by simp
      ultimately show ?thesis using False by (auto simp: steal_one_def v_def [symmetric, simplified] Let_def cand Some rem)
    qed
  qed
qed

lemma stolen_rel_move:
  assumes rel: "stolen_rel (1 - thief) thief permits rs0 k rs" and h: "thief < MAX_HARTS"
    and step: "steal_one thief permits g p rs = Moved rs'"
  shows "stolen_rel (1 - thief) thief permits rs0 (k(p := Suc (k p))) rs'"
proof -
  have v: "1 - thief \<noteq> thief" using h unfolding MAX_HARTS_def by arith
  have wf: "rs_wf rs" using rel by (simp add: stolen_rel_def)
  from steal_one_cases [OF wf h, where permits = permits and g = g and p = p] step obtain i where
    pos: "position permits (items rs (1 - thief) p) = Some i" and wf': "rs_wf rs'" and
    upd: "items rs' = (items rs)
          (1 - thief := (items rs (1 - thief))(p := remove_nth i (items rs (1 - thief) p)),
           thief := (items rs thief)(p := items rs thief p @ [items rs (1 - thief) p ! i]))"
    by auto
  have old: "items rs (1 - thief) p' = drop_first permits (k p') (items rs0 (1 - thief) p')"
    "items rs thief p' = items rs0 thief p' @ take (k p') (filter permits (items rs0 (1 - thief) p'))"
    "k p' \<le> length (filter permits (items rs0 (1 - thief) p'))" for p'
    using rel by (simp_all add: stolen_rel_def)
  from drop_first_next [OF pos [unfolded old(1)]]
  have new: "k p < length (filter permits (items rs0 (1 - thief) p))"
    "items rs (1 - thief) p ! i = filter permits (items rs0 (1 - thief) p) ! k p"
    "remove_nth i (items rs (1 - thief) p) = drop_first permits (Suc (k p)) (items rs0 (1 - thief) p)"
    unfolding old(1) by simp_all
  show ?thesis
    unfolding stolen_rel_def
  proof (intro conjI allI wf')
    fix p'
    show "items rs' (1 - thief) p' = drop_first permits ((k(p := Suc (k p))) p') (items rs0 (1 - thief) p')"
      using v new(3) old(1) by (simp add: upd)
    show "items rs' thief p' = items rs0 thief p' @ take ((k(p := Suc (k p))) p') (filter permits (items rs0 (1 - thief) p'))"
      using v new(1,2) old(2) by (simp add: upd take_Suc_conv_app_nth)
    show "(k(p := Suc (k p))) p' \<le> length (filter permits (items rs0 (1 - thief) p'))"
      using new(1) old(3) by (simp add: Suc_le_eq)
  qed
qed

text \<open>
  The inner loop moves the next \<open>j\<close> permitted tasks of the priority.  It leaves the outer loop when
  the quota is reached or the destination is refused, and otherwise has moved all of them.
\<close>

lemma steal_while_rel:
  assumes "stolen_rel (1 - thief) thief permits rs0 k rs" "thief < MAX_HARTS"
    "steal_while thief permits g p m n rs = (b, n', rs')" "n \<le> m"
  shows "\<exists>j. stolen_rel (1 - thief) thief permits rs0 (k(p := k p + j)) rs' \<and> n' = n + j \<and> n' \<le> m
    \<and> (\<not> b \<longrightarrow> k p + j = length (filter permits (items rs0 (1 - thief) p)))
    \<and> ((\<forall>i. g i) \<longrightarrow> b \<longrightarrow> n' = m)"
  using assms
proof (induction thief permits g p m n rs arbitrary: k rule: steal_while.induct)
  case (1 thief permits g p m n rs)
  have wf: "rs_wf rs" using 1(2) by (simp add: stolen_rel_def)
  show ?case
  proof (cases "n < m")
    case False
    with 1 show ?thesis by (intro exI [of _ 0]) (simp add: steal_while.simps)
  next
    case True
    note cases = steal_one_cases [OF wf 1(3), where permits = permits and g = "g n" and p = p]
    show ?thesis
    proof (cases "steal_one thief permits (g n) p rs")
      case NoCandidate
      have "items rs (1 - thief) p = drop_first permits (k p) (items rs0 (1 - thief) p)"
        "k p \<le> length (filter permits (items rs0 (1 - thief) p))" using 1(2) by (simp_all add: stolen_rel_def)
      with cases NoCandidate have "k p = length (filter permits (items rs0 (1 - thief) p))"
        by (auto dest: drop_first_none)
      moreover have "k(p := k p + 0) = k" by simp
      ultimately show ?thesis using 1 True NoCandidate
        by (intro exI [of _ 0]) (simp add: steal_while.simps del: fun_upd_apply)
    next
      case (Refused r)
      with cases have "items r = items rs" "rs_wf r" "\<not> g n" by simp_all
      with 1 True Refused show ?thesis
        by (intro exI [of _ 0]) (auto simp: steal_while.simps stolen_rel_def)
    next
      case (Moved r)
      let ?k = "k(p := Suc (k p))"
      have "steal_while thief permits g p m (Suc n) r = (b, n', rs')"
        using 1(4) True Moved by (simp add: steal_while.simps)
      moreover have "Suc n \<le> m" using True by simp
      ultimately obtain j where "stolen_rel (1 - thief) thief permits rs0 (?k(p := ?k p + j)) rs'" "n' = Suc n + j" "n' \<le> m"
        "\<not> b \<longrightarrow> ?k p + j = length (filter permits (items rs0 (1 - thief) p))"
        "(\<forall>i. g i) \<longrightarrow> b \<longrightarrow> n' = m"
        using 1(1) [OF True Moved stolen_rel_move [OF 1(2,3) Moved] 1(3)] by blast
      then show ?thesis by (intro exI [of _ "Suc j"]) (simp add: fun_upd_same del: fun_upd_apply)
    qed
  qed
qed

lemma u8_below_2: "p < RT_PRIO \<longleftrightarrow> p = 0 \<or> p = 1"
proof -
  have "unat p < 2 \<longleftrightarrow> unat p = 0 \<or> unat p = 1" by arith
  then show ?thesis by (simp add: RT_PRIO_def word_less_nat_alt word_unat_eq_iff)
qed

lemma sum_two_buckets:
  fixes f :: "'a \<Rightarrow> nat"
  assumes "distinct (map fst m)"
  shows "sum_list (map (\<lambda>(p, q). f q) (filter (\<lambda>(p, q). p < RT_PRIO) m)) =
    (case bt_get m 0 of None \<Rightarrow> 0 | Some q \<Rightarrow> f q) + (case bt_get m 1 of None \<Rightarrow> 0 | Some q \<Rightarrow> f q)"
  using assms
proof (induction m)
  case (Cons x m)
  obtain p q where x: "x = (p, q)" by force
  with Cons.prems have "bt_get m p = None" by (simp add: map_of_eq_None_iff)
  with Cons x show ?case by (auto simp: u8_below_2)
qed simp

lemma stealable_items:
  assumes "rs_wf rs" "v < MAX_HARTS"
  shows "stealable rs v permits = length (filter permits (items rs v 0)) + length (filter permits (items rs v 1))"
proof -
  have b: "(case bt_get (hl_ready (rs_harts rs ! v)) p of None \<Rightarrow> 0 | Some q \<Rightarrow> length (filter permits (vd_items q)))
      = length (filter permits (items rs v p))" for p
    by (simp add: items_def entry_or_default_def bucket_def vd_default_def split: option.split)
  show ?thesis
    unfolding stealable_def sum_two_buckets [OF hart_buckets(1) [OF assms], of "\<lambda>q. length (filter permits (vd_items q))"] b ..
qed

lemma stolen_rel_refl: "rs_wf rs \<Longrightarrow> stolen_rel v thief permits rs (\<lambda>_. 0) rs"
  by (simp add: stolen_rel_def)

lemma steal_exact:
  assumes wf: "rs_wf rs" and h: "thief < MAX_HARTS"
    and res: "steal_from_busiest eligible g thief rs = (n, rs')"
  defines "permits \<equiv> \<lambda>tid. \<not> owned_by_another_hart rs thief tid \<and> eligible tid"
  defines "avail \<equiv> stealable rs (1 - thief) permits"
  shows "\<exists>k. stolen_rel (1 - thief) thief permits rs k rs' \<and> (\<forall>p. RT_PRIO \<le> p \<longrightarrow> k p = 0) \<and> n = k 1 + k 0
    \<and> n \<le> max (avail div 2) 1 \<and> ((\<forall>i. g i) \<longrightarrow> 0 < avail \<longrightarrow> n = max (avail div 2) 1)"
proof (cases "avail = 0")
  case True
  with res h have "n = 0" "rs' = rs"
    by (auto simp: steal_from_busiest_def Let_def permits_def avail_def not_le)
  then show ?thesis using stolen_rel_refl [OF wf] True by (intro exI [of _ "\<lambda>_. 0"]) simp
next
  case False
  have low: "\<not> RT_PRIO \<le> 1" "\<not> RT_PRIO \<le> 0" by (simp_all add: not_le word_less_nat_alt RT_PRIO_def)
  let ?m = "max (avail div 2) 1" let ?f = "\<lambda>p. length (filter permits (items rs (1 - thief) p))"
  have v: "1 - thief < MAX_HARTS" using h unfolding MAX_HARTS_def by arith
  have avail: "avail = ?f 0 + ?f 1" unfolding avail_def by (rule stealable_items [OF wf v])
  from res False h have run: "steal_priorities thief permits g ?m [1, 0] 0 rs = (n, rs')"
    by (simp add: steal_from_busiest_def Let_def permits_def avail_def not_le del: steal_priorities.simps)
  obtain b n1 rs1 where w1: "steal_while thief permits g 1 ?m 0 rs = (b, n1, rs1)" by (metis prod_cases3)
  from steal_while_rel [OF stolen_rel_refl [OF wf] h w1] obtain j where
    one: "stolen_rel (1 - thief) thief permits rs ((\<lambda>_. 0)(1 := j)) rs1" "n1 = j" "n1 \<le> ?m"
      "\<not> b \<longrightarrow> j = ?f 1" "(\<forall>i. g i) \<longrightarrow> b \<longrightarrow> n1 = ?m" by auto
  show ?thesis
  proof (cases b)
    case True
    with run w1 have "n = n1" "rs' = rs1" by simp_all
    with one True show ?thesis
      by (intro exI [of _ "(\<lambda>_. 0)(1 := j)"]) (use low in auto)
  next
    case b: False
    obtain b2 n2 rs2 where w2: "steal_while thief permits g 0 ?m n1 rs1 = (b2, n2, rs2)" by (metis prod_cases3)
    with run w1 b have n: "n = n2" "rs' = rs2" by (cases b2; simp)+
    from steal_while_rel [OF one(1) h w2 one(3)] obtain i where
      two: "stolen_rel (1 - thief) thief permits rs ((\<lambda>_. 0)(1 := j, 0 := i)) rs2" "n2 = n1 + i" "n2 \<le> ?m"
        "\<not> b2 \<longrightarrow> i = ?f 0" "(\<forall>i. g i) \<longrightarrow> b2 \<longrightarrow> n2 = ?m" by auto
    have "n2 = ?m" if "\<forall>i. g i"
    proof (cases b2)
      case True
      then show ?thesis using two(5) that by simp
    next
      case False
      then have "n2 = avail" using two(2,4) one(2,4) b avail by simp
      then show ?thesis using two(3) False avail \<open>avail \<noteq> 0\<close> by linarith
    qed
    with two one n show ?thesis
      by (intro exI [of _ "(\<lambda>_. 0)(1 := j, 0 := i)"]) (use low in auto)
  qed
qed

end
