(* ===== verification/Sched_Props.thy ===== *)
theory Sched_Props
  imports Ready_World Ready_Rollback Ready_Steal
begin

text \<open>
  The properties of the ready queues: which task a hart selects, that a selection can be undone
  exactly, that reserved queue room is always there when it is used, and what stealing moves.
\<close>

section \<open>Sample states\<close>

definition sample_ready :: ready_state where
  "sample_ready = push_on_hart 1 7 1 (push_on_hart 1 6 1 (push_on_hart 1 5 0 ready_init))"

lemma ready_init_wf: "rs_wf ready_init"
  using world_inv_init by (simp add: world_inv_def world_init_def)

lemma sample_ready_wf: "rs_wf sample_ready"
  unfolding sample_ready_def by (intro keeps_wf [OF keeps_push] ready_init_wf)

lemma sample_ready_eq:
  "sample_ready = \<lparr>rs_harts = [hart_local_new,
     hart_local_new\<lparr>hl_ready := [(0, \<lparr>vd_items = [5], vd_capacity = 4\<rparr>), (1, \<lparr>vd_items = [6, 7], vd_capacity = 4\<rparr>)]\<rparr>],
     rs_claims = (\<lambda>_ _. NO_CLAIMS), rs_rt_online = False\<rparr>"
  by (simp add: sample_ready_def push_on_hart_def ready_init_def MAX_HARTS_def upd_ready_def entry_or_default_def
      bucket_def promised_def NO_CLAIMS_def vd_default_def vd_reserve_def vd_len_def vd_push_back_def
      hart_local_new_def Let_def numeral_2_eq_2 word_less_nat_alt)

lemma sample_ready_items:
  "items sample_ready 1 1 = [6, 7]" "items sample_ready 1 0 = [5]" "items sample_ready 0 p = []"
  by (simp_all add: items_def entry_or_default_def bucket_def sample_ready_eq vd_default_def hart_local_new_def)

lemma sample_ready_unowned: "\<not> owned_by_another_hart sample_ready h t"
  by (auto simp: owned_by_another_hart_def sample_ready_eq hart_local_new_def current_task_id_for_def
      selected_task_id_for_def executing_task_id_for_def outgoing_context_save_task_id_for_def hart_field_def
      MAX_HARTS_def list_ex_iff numeral_2_eq_2 less_Suc_eq)

section \<open>Properties\<close>

text \<open>
  C29. A hart runs the first eligible task of its highest occupied priority.  \<open>pick_local_eligible\<close>
  returns a task only from the hart's own queues; every entry before it in its bucket and every entry
  of a higher priority is current, selected, executing or still being saved on the other hart, it is
  not, and exactly that one entry leaves the queues.  It returns none only when every entry
  of the hart is owned by the other one.
\<close>

theorem selection_is_first_eligible:
  assumes "rs_wf rs" "h < MAX_HARTS"
  shows "case pick_local_eligible h rs of
      (None, rs') \<Rightarrow> rs' = rs \<and> (\<forall>p. \<forall>t \<in> set (items rs h p). owned_by_another_hart rs h t)
    | (Some t, rs') \<Rightarrow> (\<exists>p xs ys. items rs h p = xs @ t # ys \<and> \<not> owned_by_another_hart rs h t
        \<and> (\<forall>x \<in> set xs. owned_by_another_hart rs h x)
        \<and> (\<forall>p' > p. \<forall>x \<in> set (items rs h p'). owned_by_another_hart rs h x)
        \<and> items rs' = (items rs)(h := (items rs h)(p := xs @ ys)))"
  by (rule pick_exact [OF assms])

theorem selection_is_first_eligible_witness:
  "case pick_local_eligible 1 sample_ready of
     (None, rs') \<Rightarrow> False
   | (Some t, rs') \<Rightarrow> (\<exists>p ys. items sample_ready 1 p = t # ys \<and> items rs' = (items sample_ready)(1 := (items sample_ready 1)(p := ys)))"
proof -
  have h: "1 < MAX_HARTS" by (simp add: MAX_HARTS_def)
  note sel = selection_is_first_eligible [OF sample_ready_wf h, simplified sample_ready_unowned]
  show ?thesis
  proof (cases "pick_local_eligible 1 sample_ready")
    case (Pair r rs')
    show ?thesis
    proof (cases r)
      case None
      with sel Pair have "set (items sample_ready 1 1) = {}" by auto
      then show ?thesis by (simp add: sample_ready_items [simplified])
    next
      case (Some t)
      with sel Pair show ?thesis by auto
    qed
  qed
qed

text \<open>
  C30. A rolled-back selection returns to its exact place.  Vacating the entry \<open>t\<close> of a bucket,
  then any sequence of steals, removals of a task and appends, and then reinserting \<open>t\<close> succeeds and
  gives the queue that the same operations would have given on the entries before and after \<open>t\<close>,
  with \<open>t\<close> between them: nothing that stayed overtakes it and it overtakes nothing.
\<close>

theorem rollback_restores_position:
  assumes "vd_items q = xs @ t # ys" "vd_len q \<le> vd_capacity q" "bc_rollback c = 0"
  shows "case vacate (length xs) (q, c) of (r, qc) \<Rightarrow> r = Some t
    \<and> (\<exists>q' c'. reinsert t (fold bucket_step ops qc) = Some (q', c') \<and> bc_rollback c' = 0
        \<and> vd_items q' = (case fold zone_step ops (xs, ys) of (xs', ys') \<Rightarrow> xs' @ t # ys'))"
proof -
  obtain r qc where vac: "vacate (length xs) (q, c) = (r, qc)" by (rule prod.exhaust)
  obtain q1 c1 where run: "fold bucket_step ops qc = (q1, c1)" by (rule prod.exhaust)
  have "vacated (fold zone_step ops (xs, ys)) (q1, c1)"
    using vacated_steps [OF vacate_vacated(1) [OF assms], of ops] by (simp add: vac run)
  then obtain q' c' where "reinsert t (q1, c1) = Some (q', c')" "bc_rollback c' = 0"
    "vd_items q' = fst (fold zone_step ops (xs, ys)) @ t # snd (fold zone_step ops (xs, ys))"
    by (rule reinsert_vacated)
  with vac run vacate_vacated(2) [OF assms] show ?thesis by (simp add: split_beta)
qed

theorem rollback_restores_position_witness:
  "\<exists>q' c'. reinsert 6 (fold bucket_step [RemoveAt 0, PushBack 9, Forget 8]
      (snd (vacate 2 (\<lparr>vd_items = [5, 8, 6, 7], vd_capacity = 4\<rparr>, NO_CLAIMS)))) = Some (q', c')
    \<and> vd_items q' = [6, 7, 9]"
  using rollback_restores_position [of "\<lparr>vd_items = [5, 8, 6, 7], vd_capacity = 4\<rparr>" "[5, 8]" 6 "[7]" NO_CLAIMS
      "[RemoveAt 0, PushBack 9, Forget 8]"]
  by (simp add: NO_CLAIMS_def vd_len_def remove_nth_def numeral_2_eq_2 split_beta) metis

text \<open>
  C31. A promise of queue room is always honoured.  In every state the scheduler can reach by
  reservations, publications, pushes, selections, rollbacks, removals and steals on either hart, the
  commit of any outstanding publication reservation and the rollback of any outstanding selection
  succeed: neither finds its bucket gone, its claim missing or the queue full.
\<close>

theorem promises_are_honoured:
  assumes "world_step\<^sup>*\<^sup>* world_init w"
  shows "(\<forall>r tid. r \<in># rw_pubs w \<longrightarrow> (\<exists>rs. publication_commit tid r (rw_ready w) = Some rs))
    \<and> (\<forall>s. s \<in># rw_sels w \<longrightarrow> (\<exists>rs. restore_selection s (rw_ready w) = Some rs))"
  using world_inv_steps [OF assms world_inv_init] commit_succeeds restore_succeeds by blast

theorem promises_are_honoured_witness:
  "\<exists>r rs rs'. publication_reserve 0 True 1 ready_init = (Ok r, rs)
     \<and> publication_commit 9 r (push_on_hart 0 5 1 rs) = Some rs'"
proof -
  obtain r rs where res: "publication_reserve 0 True 1 ready_init = (Ok r, rs)"
    by (simp add: publication_reserve_def destination_hart_def ready_init_def MAX_HARTS_def NO_CLAIMS_def Let_def)
  let ?w1 = "world_init\<lparr>rw_ready := rs, rw_pubs := add_mset r (rw_pubs world_init)\<rparr>"
  have "world_step world_init ?w1" by (rule ws_reserve) (simp only: world_init_def ready_world.simps, rule res)
  moreover have "world_step ?w1 (?w1\<lparr>rw_ready := push_on_hart 0 5 1 (rw_ready ?w1)\<rparr>)" by (rule ws_push)
  ultimately have "world_step\<^sup>*\<^sup>* world_init (?w1\<lparr>rw_ready := push_on_hart 0 5 1 (rw_ready ?w1)\<rparr>)" by simp
  from promises_are_honoured [OF this] have "\<exists>rs'. publication_commit 9 r (push_on_hart 0 5 1 rs) = Some rs'"
    by simp
  with res show ?thesis by blast
qed

text \<open>
  C32. Stealing moves tasks and nothing else.  The thief gains, at the end of each of its buckets and in
  queue order, exactly the first \<open>k p\<close> permitted tasks of the victim's bucket, which loses exactly
  those; no task is lost, duplicated or reordered, no task of a real-time priority moves, and no task
  the eligibility test or the other hart's identity fields exclude.  The number moved is at most half
  of the stealable tasks rounded down (one if that is zero), and exactly that when memory never runs
  out.
\<close>

theorem steal_moves_exactly:
  assumes "rs_wf rs" "thief < MAX_HARTS" "steal_from_busiest eligible g thief rs = (n, rs')"
    and "permits = (\<lambda>tid. \<not> owned_by_another_hart rs thief tid \<and> eligible tid)"
    and "avail = stealable rs (1 - thief) permits"
  shows "\<exists>k. (\<forall>p. items rs' (1 - thief) p = drop_first permits (k p) (items rs (1 - thief) p)
        \<and> items rs' thief p = items rs thief p @ take (k p) (filter permits (items rs (1 - thief) p))
        \<and> k p \<le> length (filter permits (items rs (1 - thief) p)))
    \<and> (\<forall>p. RT_PRIO \<le> p \<longrightarrow> k p = 0) \<and> n = k 1 + k 0
    \<and> n \<le> max (avail div 2) 1 \<and> ((\<forall>i. g i) \<longrightarrow> 0 < avail \<longrightarrow> n = max (avail div 2) 1)"
proof -
  obtain k where "stolen_rel (1 - thief) thief permits rs k rs'" "\<forall>p. RT_PRIO \<le> p \<longrightarrow> k p = 0" "n = k 1 + k 0"
    "n \<le> max (avail div 2) 1" "(\<forall>i. g i) \<longrightarrow> 0 < avail \<longrightarrow> n = max (avail div 2) 1"
    using steal_exact [OF assms(1-3)] unfolding assms(4,5) by (elim exE conjE)
  then show ?thesis unfolding stolen_rel_def by - (intro exI [of _ k] conjI; (elim conjE)?; assumption)
qed

theorem steal_moves_exactly_witness:
  "fst (steal_from_busiest (\<lambda>t. t \<noteq> 6) (\<lambda>_. True) 0 sample_ready) = 1
   \<and> items (snd (steal_from_busiest (\<lambda>t. t \<noteq> 6) (\<lambda>_. True) 0 sample_ready)) 1 2 = []"
proof -
  have h: "0 < MAX_HARTS" by (simp add: MAX_HARTS_def)
  have avail: "stealable sample_ready (1 - 0) (\<lambda>t. \<not> owned_by_another_hart sample_ready 0 t \<and> t \<noteq> 6) = 2"
    by (simp only: sample_ready_unowned not_False_eq_True simp_thms) (simp add: stealable_def sample_ready_eq RT_PRIO_def word_less_nat_alt)
  let ?res = "steal_from_busiest (\<lambda>t. t \<noteq> 6) (\<lambda>_. True) 0 sample_ready" let ?rs = "snd ?res"
  let ?ok = "\<lambda>t. \<not> owned_by_another_hart sample_ready 0 t \<and> t \<noteq> 6"
  obtain k where "\<forall>p. items ?rs (1 - 0) p = drop_first ?ok (k p) (items sample_ready (1 - 0) p)
        \<and> items ?rs 0 p = items sample_ready 0 p @ take (k p) (filter ?ok (items sample_ready (1 - 0) p))
        \<and> k p \<le> length (filter ?ok (items sample_ready (1 - 0) p))"
      "(\<forall>i :: usize. True) \<longrightarrow> 0 < (2 :: nat) \<longrightarrow> fst ?res = max (2 div 2) 1"
    using steal_moves_exactly [OF sample_ready_wf h prod.collapse [symmetric] refl refl,
        where eligible = "\<lambda>t. t \<noteq> 6" and g = "\<lambda>_. True", unfolded avail] by (elim exE conjE)
  then have k: "items ?rs 1 2 = drop_first ?ok (k 2) (items sample_ready 1 2)" "fst ?res = 1" by simp_all
  have "items sample_ready 1 2 = []"
    by (simp add: items_def entry_or_default_def bucket_def sample_ready_eq vd_default_def hart_local_new_def)
  with k show ?thesis by simp
qed

end
