(* ===== verification/VA_Alloc.thy ===== *)
theory VA_Alloc
  imports Cellos_Prelude "HOL-Library.Multiset"
begin

unbundle bit_operations_syntax

text \<open>
  The virtual-address slots of position-independent Cells, \<open>kernel/src/loader/va_alloc.rs\<close>: a bump
  index of never-used slots and a bitmap of slots to reuse, both changed by single atomic
  operations.  The functions are given twice: run alone, and as the atomic steps that calls on
  several harts interleave.
\<close>

section \<open>Slots and the two functions\<close>

definition CELL_VA_START :: usize where "CELL_VA_START = 0x100000000"
definition CELL_VA_STRIDE :: usize where "CELL_VA_STRIDE = 33554432"
definition MAX_SLOTS :: usize where "MAX_SLOTS = 512"
definition BITMAP_WORDS :: usize where "BITMAP_WORDS = 8"

record va_state =
  va_bump :: usize
  va_free :: "u64 list"

definition va_init :: va_state where
  "va_init = \<lparr>va_bump = 0, va_free = replicate BITMAP_WORDS 0\<rparr>"

definition slot_base :: "usize \<Rightarrow> usize" where
  "slot_base slot = CELL_VA_START + slot * CELL_VA_STRIDE"

definition slot_end :: "usize \<Rightarrow> usize option" where
  "slot_end base =
     (if base < CELL_VA_START then None
      else let offset = base - CELL_VA_START in
      if offset mod CELL_VA_STRIDE \<noteq> 0 \<or> MAX_SLOTS \<le> offset div CELL_VA_STRIDE then None
      else if base + CELL_VA_STRIDE < 2 ^ 64 then Some (base + CELL_VA_STRIDE) else None)"

definition trailing_zeros :: "u64 \<Rightarrow> usize" where
  "trailing_zeros w = length (takeWhile (\<lambda>i. \<not> bit w i) [0..<64])"

definition bit_mask :: "usize \<Rightarrow> u64" where
  "bit_mask i = push_bit i 1"

text \<open>The scan of the bitmap: the first word with a slot to reuse.\<close>

fun free_scan :: "u64 list \<Rightarrow> usize \<Rightarrow> (usize \<times> usize) option" where
  "free_scan [] word_idx = None"
| "free_scan (val # rest) word_idx =
     (if val \<noteq> 0 \<and> word_idx * 64 + trailing_zeros val < MAX_SLOTS
      then Some (word_idx, trailing_zeros val)
      else free_scan rest (Suc word_idx))"

definition take_free :: "usize \<Rightarrow> usize \<Rightarrow> va_state \<Rightarrow> va_state" where
  "take_free w b s = s\<lparr>va_free := (va_free s)[w := va_free s ! w AND NOT (bit_mask b)]\<rparr>"

definition alloc_cell_va :: "va_state \<Rightarrow> usize option \<times> va_state" where
  "alloc_cell_va s =
     (case free_scan (va_free s) 0 of
        Some (w, b) \<Rightarrow> (Some (slot_base (w * 64 + b)), take_free w b s)
      | None \<Rightarrow>
          let idx = va_bump s; s1 = s\<lparr>va_bump := idx + 1\<rparr> in
          if MAX_SLOTS \<le> idx then (None, s1\<lparr>va_bump := va_bump s1 - 1\<rparr>)
          else (Some (slot_base idx), s1))"

definition publish_free :: "usize \<Rightarrow> va_state \<Rightarrow> va_state" where
  "publish_free slot s =
     s\<lparr>va_free := (va_free s)[slot div 64 := va_free s ! (slot div 64) OR bit_mask (slot mod 64)]\<rparr>"

definition free_cell_va :: "usize \<Rightarrow> va_state \<Rightarrow> va_state" where
  "free_cell_va base s =
     (if slot_end base = None then s
      else let slot = (base - CELL_VA_START) div CELL_VA_STRIDE in
      if va_bump s = slot + 1 then s\<lparr>va_bump := slot\<rparr> else publish_free slot s)"

section \<open>Atomic steps\<close>

text \<open>
  The allocator with its calls in progress: the slots handed out, the slots whose release has failed
  its compare-and-swap and is about to set its bitmap bit, and the number of allocations that have
  overrun the bump index and are about to step it back.
\<close>

record va_world =
  vw_va :: va_state
  vw_live :: "usize multiset"
  vw_freeing :: "usize multiset"
  vw_overrun :: nat

definition va_world_init :: va_world where
  "va_world_init = \<lparr>vw_va = va_init, vw_live = {#}, vw_freeing = {#}, vw_overrun = 0\<rparr>"

inductive va_step :: "va_world \<Rightarrow> va_world \<Rightarrow> bool" where
  va_reuse: "w < BITMAP_WORDS \<Longrightarrow> va_free (vw_va s) ! w \<noteq> 0 \<Longrightarrow> b = trailing_zeros (va_free (vw_va s) ! w) \<Longrightarrow>
    w * 64 + b < MAX_SLOTS \<Longrightarrow>
    va_step s (s\<lparr>vw_va := take_free w b (vw_va s), vw_live := add_mset (w * 64 + b) (vw_live s)\<rparr>)"
| va_fresh: "va_bump (vw_va s) < MAX_SLOTS \<Longrightarrow>
    va_step s (s\<lparr>vw_va := (vw_va s)\<lparr>va_bump := va_bump (vw_va s) + 1\<rparr>,
                 vw_live := add_mset (va_bump (vw_va s)) (vw_live s)\<rparr>)"
| va_overrun: "MAX_SLOTS \<le> va_bump (vw_va s) \<Longrightarrow>
    va_step s (s\<lparr>vw_va := (vw_va s)\<lparr>va_bump := va_bump (vw_va s) + 1\<rparr>, vw_overrun := vw_overrun s + 1\<rparr>)"
| va_step_back: "0 < vw_overrun s \<Longrightarrow>
    va_step s (s\<lparr>vw_va := (vw_va s)\<lparr>va_bump := va_bump (vw_va s) - 1\<rparr>, vw_overrun := vw_overrun s - 1\<rparr>)"
| va_unbump: "slot \<in># vw_live s \<Longrightarrow> va_bump (vw_va s) = slot + 1 \<Longrightarrow>
    va_step s (s\<lparr>vw_va := (vw_va s)\<lparr>va_bump := slot\<rparr>, vw_live := vw_live s - {#slot#}\<rparr>)"
| va_cas_failed: "slot \<in># vw_live s \<Longrightarrow> va_bump (vw_va s) \<noteq> slot + 1 \<Longrightarrow>
    va_step s (s\<lparr>vw_live := vw_live s - {#slot#}, vw_freeing := add_mset slot (vw_freeing s)\<rparr>)"
| va_publish: "slot \<in># vw_freeing s \<Longrightarrow>
    va_step s (s\<lparr>vw_va := publish_free slot (vw_va s), vw_freeing := vw_freeing s - {#slot#}\<rparr>)"

definition free_set :: "va_state \<Rightarrow> usize set" where
  "free_set s = {i. i < MAX_SLOTS \<and> bit (va_free s ! (i div 64)) (i mod 64)}"

text \<open>Every slot below the bump index is in exactly one of three places, exactly once.\<close>

definition va_inv :: "va_world \<Rightarrow> bool" where
  "va_inv s \<longleftrightarrow> length (va_free (vw_va s)) = BITMAP_WORDS
     \<and> (\<exists>top. va_bump (vw_va s) = top + vw_overrun s \<and> top \<le> MAX_SLOTS \<and> (0 < vw_overrun s \<longrightarrow> top = MAX_SLOTS)
        \<and> vw_live s + vw_freeing s + mset_set (free_set (vw_va s)) = mset_set {0..<top})"

section \<open>Bitmap lemmas\<close>

lemma bit_mask_bit: "bit (bit_mask i) j \<longleftrightarrow> i = j \<and> j < 64"
  by (auto simp: bit_mask_def bit_exp_iff)

lemma trailing_zeros_bit:
  assumes "w \<noteq> 0"
  shows "trailing_zeros w < 64" "bit w (trailing_zeros w)"
proof -
  obtain j where j: "bit w j" "j < 64" using assms by (auto simp: bit_eq_iff dest: bit_imp_le_length)
  let ?t = "takeWhile (\<lambda>i. \<not> bit w i) [0..<64]"
  have le: "length ?t \<le> 64" using length_takeWhile_le [of _ "[0..<64]"] by simp
  have "?t \<noteq> [0..<64]" using j by (auto simp: takeWhile_eq_all_conv)
  then have lt: "length ?t < 64" using le by (metis le_neq_implies_less length_upt minus_nat.diff_0 takeWhile_eq_take take_all order_refl)
  then show "trailing_zeros w < 64" by (simp add: trailing_zeros_def)
  show "bit w (trailing_zeros w)"
    using nth_length_takeWhile [of "\<lambda>i. \<not> bit w i" "[0..<64]"] lt by (simp add: trailing_zeros_def)
qed

lemma free_set_finite [simp]: "finite (free_set s)"
  by (rule finite_subset [of _ "{0..<MAX_SLOTS}"]) (auto simp: free_set_def)

lemma slot_word: "i < MAX_SLOTS \<Longrightarrow> i div 64 < BITMAP_WORDS"
  unfolding MAX_SLOTS_def BITMAP_WORDS_def by simp

lemma free_set_publish:
  assumes "length (va_free s) = BITMAP_WORDS" "slot < MAX_SLOTS"
  shows "free_set (publish_free slot s) = insert slot (free_set s)"
proof -
  have "i = slot" if "slot div 64 = i div 64" "slot mod 64 = i mod 64" for i
    using that by (metis div_mult_mod_eq)
  then show ?thesis using assms slot_word
    by (auto simp: free_set_def publish_free_def nth_list_update bit_or_iff bit_mask_bit)
qed

lemma free_set_take:
  assumes "length (va_free s) = BITMAP_WORDS" "w < BITMAP_WORDS" "b < 64"
  shows "free_set (take_free w b s) = free_set s - {w * 64 + b}"
proof -
  have "i div 64 = w \<and> i mod 64 = b \<longleftrightarrow> i = w * 64 + b" for i
    using assms(3) by auto
  then show ?thesis using assms
    by (auto simp: free_set_def take_free_def nth_list_update bit_and_iff bit_not_iff bit_mask_bit)
qed

lemma free_set_bump [simp]: "free_set (s\<lparr>va_bump := n\<rparr>) = free_set s"
  by (simp add: free_set_def)

lemma free_length [simp]:
  "length (va_free (take_free w b s)) = length (va_free s)" "length (va_free (publish_free slot s)) = length (va_free s)"
  "va_bump (take_free w b s) = va_bump s" "va_bump (publish_free slot s) = va_bump s"
  by (simp_all add: take_free_def publish_free_def)

section \<open>The slots are partitioned\<close>

lemma va_inv_init: "va_inv va_world_init"
proof -
  have "free_set va_init = {}" using slot_word by (auto simp: free_set_def va_init_def)
  then show ?thesis by (simp add: va_inv_def va_world_init_def) (simp add: va_init_def)
qed

lemma va_inv_step: "va_step s s' \<Longrightarrow> va_inv s \<Longrightarrow> va_inv s'"
proof (induction rule: va_step.induct)
  case (va_reuse w s b)
  have b: "b < 64" "bit (va_free (vw_va s) ! w) b" using trailing_zeros_bit [OF va_reuse(2)] va_reuse(3) by auto
  then have "w * 64 + b \<in> free_set (vw_va s)" using va_reuse(4) by (simp add: free_set_def)
  then have "mset_set (free_set (vw_va s)) = add_mset (w * 64 + b) (mset_set (free_set (vw_va s) - {w * 64 + b}))"
    by (simp add: mset_set.remove)
  with va_reuse b(1) show ?case by (auto simp: va_inv_def free_set_take)
next
  case (va_fresh s)
  then obtain "vw_overrun s = 0" by (auto simp: va_inv_def)
  with va_fresh show ?case by (auto simp: va_inv_def atLeast0_lessThan_Suc)
next
  case (va_overrun s)
  then show ?case by (force simp: va_inv_def)
next
  case (va_step_back s)
  then show ?case by (auto simp: va_inv_def)
next
  case (va_unbump slot s)
  from va_unbump(3) obtain top where t: "va_bump (vw_va s) = top + vw_overrun s" "top \<le> MAX_SLOTS"
    "0 < vw_overrun s \<longrightarrow> top = MAX_SLOTS"
    "vw_live s + vw_freeing s + mset_set (free_set (vw_va s)) = mset_set {0..<top}" by (auto simp: va_inv_def)
  obtain L where L: "vw_live s = add_mset slot L" using va_unbump(1) by (auto dest: multi_member_split)
  have "slot \<in># mset_set {0..<top}" using t(4) L by (metis union_iff union_single_eq_member union_commute add_mset_add_single)
  then have "slot < top" by simp
  then have z: "vw_overrun s = 0" "top = Suc slot" using t(1,3) va_unbump(2) by auto
  have "L + vw_freeing s + mset_set (free_set (vw_va s)) = mset_set {0..<slot}"
    using t(4) L by (simp add: z atLeast0_lessThan_Suc)
  with va_unbump(3) z L t(2) show ?case by (auto simp: va_inv_def)
next
  case (va_cas_failed slot s)
  then show ?case by (auto simp: va_inv_def dest!: multi_member_split)
next
  case (va_publish slot s)
  from va_publish(2) obtain top where t: "va_bump (vw_va s) = top + vw_overrun s" "top \<le> MAX_SLOTS"
    "0 < vw_overrun s \<longrightarrow> top = MAX_SLOTS" "length (va_free (vw_va s)) = BITMAP_WORDS"
    "vw_live s + vw_freeing s + mset_set (free_set (vw_va s)) = mset_set {0..<top}" by (auto simp: va_inv_def)
  obtain F where F: "vw_freeing s = add_mset slot F" using va_publish(1) by (auto dest: multi_member_split)
  have c: "count (vw_live s + add_mset slot F + mset_set (free_set (vw_va s))) slot \<le> 1"
    using t(5) unfolding F by (simp add: count_mset_set')
  then have new: "slot \<notin> free_set (vw_va s)" by (auto simp: count_mset_set')
  have "slot \<in># mset_set {0..<top}" using t(5) F by (metis union_iff union_single_eq_member add_mset_add_single)
  then have "slot < MAX_SLOTS" using t(2) by simp
  with va_publish t F new show ?case by (auto simp: va_inv_def free_set_publish)
qed

lemma va_inv_steps: "va_step\<^sup>*\<^sup>* s s' \<Longrightarrow> va_inv s \<Longrightarrow> va_inv s'"
  by (induction rule: rtranclp_induct) (blast intro: va_inv_step)+

section \<open>The functions run alone\<close>

text \<open>The slots in use when no call is in progress, and the states in which they make sense.\<close>

definition live_slots :: "va_state \<Rightarrow> usize set" where
  "live_slots s = {0..<va_bump s} - free_set s"

definition va_ok :: "va_state \<Rightarrow> bool" where
  "va_ok s \<longleftrightarrow> length (va_free s) = BITMAP_WORDS \<and> va_bump s \<le> MAX_SLOTS \<and> free_set s \<subseteq> {0..<va_bump s}"

lemma free_scan_None:
  "free_scan ws k = None \<Longrightarrow> j < length ws \<Longrightarrow> (k + length ws) * 64 \<le> MAX_SLOTS \<Longrightarrow> ws ! j = 0"
proof (induction ws k arbitrary: j rule: free_scan.induct)
  case (2 val rest k)
  have "val = 0"
  proof (rule ccontr)
    assume nz: "val \<noteq> 0"
    then have "k * 64 + trailing_zeros val < (k + length (val # rest)) * 64"
      using trailing_zeros_bit(1) [OF nz] by simp
    then show False using 2(2,4) nz by simp
  qed
  with 2 show ?case by (cases j) auto
qed simp

lemma free_scan_Some:
  "free_scan ws k = Some (w, b) \<Longrightarrow>
   \<exists>j < length ws. w = k + j \<and> ws ! j \<noteq> 0 \<and> b = trailing_zeros (ws ! j) \<and> w * 64 + b < MAX_SLOTS"
proof (induction ws k rule: free_scan.induct)
  case (2 val rest k)
  show ?case
  proof (cases "val \<noteq> 0 \<and> k * 64 + trailing_zeros val < MAX_SLOTS")
    case True
    with 2(2) show ?thesis by (intro exI [of _ 0]) auto
  next
    case False
    with 2 obtain j where "j < length rest" "w = Suc k + j" "rest ! j \<noteq> 0" "b = trailing_zeros (rest ! j)" "w * 64 + b < MAX_SLOTS"
      by (auto split: if_splits)
    then show ?thesis by (intro exI [of _ "Suc j"]) auto
  qed
qed simp

lemma alloc_refines:
  assumes ok: "va_ok s"
  shows "case alloc_cell_va s of
      (None, s') \<Rightarrow> s' = s \<and> live_slots s = {0..<MAX_SLOTS}
    | (Some base, s') \<Rightarrow> va_ok s' \<and> (\<exists>slot < MAX_SLOTS. base = slot_base slot \<and> slot \<notin> live_slots s
        \<and> live_slots s' = insert slot (live_slots s))"
proof (cases "free_scan (va_free s) 0")
  case None
  have "va_free s ! j = 0" if "j < BITMAP_WORDS" for j
    using free_scan_None [OF None, of j] ok that by (simp add: va_ok_def BITMAP_WORDS_def MAX_SLOTS_def)
  then have "free_set s = {}" using slot_word by (auto simp: free_set_def)
  then show ?thesis using None ok
    by (auto simp: alloc_cell_va_def Let_def live_slots_def va_ok_def atLeast0_lessThan_Suc
        intro!: exI [of _ "va_bump s"])
next
  case (Some wb)
  obtain w b where wb: "wb = (w, b)" by (cases wb)
  with Some free_scan_Some [of "va_free s" 0 w b] have
    w: "w < length (va_free s)" "va_free s ! w \<noteq> 0" "b = trailing_zeros (va_free s ! w)" "w * 64 + b < MAX_SLOTS" by auto
  have b: "b < 64" "bit (va_free s ! w) b" using trailing_zeros_bit [OF w(2)] w(3) by auto
  then have m: "w * 64 + b \<in> free_set s" using w(4) by (simp add: free_set_def)
  have "free_set (take_free w b s) = free_set s - {w * 64 + b}"
    using free_set_take ok w(1) b(1) by (simp add: va_ok_def)
  then show ?thesis using Some wb ok w(4) m
    by (auto simp: alloc_cell_va_def live_slots_def va_ok_def intro!: exI [of _ "w * 64 + b"])
qed

lemma slot_end_base: "slot < MAX_SLOTS \<Longrightarrow> slot_end (slot_base slot) = Some (slot_base slot + CELL_VA_STRIDE)"
  by (simp add: slot_end_def slot_base_def CELL_VA_START_def CELL_VA_STRIDE_def MAX_SLOTS_def)

lemma free_refines:
  assumes ok: "va_ok s" and slot: "slot \<in> live_slots s"
  shows "va_ok (free_cell_va (slot_base slot) s) \<and> live_slots (free_cell_va (slot_base slot) s) = live_slots s - {slot}"
proof -
  have s: "slot < va_bump s" "slot < MAX_SLOTS" "slot \<notin> free_set s" using ok slot by (auto simp: live_slots_def va_ok_def)
  have [simp]: "(slot_base slot - CELL_VA_START) div CELL_VA_STRIDE = slot" by (simp add: slot_base_def CELL_VA_STRIDE_def)
  show ?thesis
  proof (cases "va_bump s = slot + 1")
    case True
    then show ?thesis using ok s by (auto simp: free_cell_va_def slot_end_base live_slots_def va_ok_def less_Suc_eq)
  next
    case False
    then show ?thesis using ok s
      by (auto simp: free_cell_va_def slot_end_base live_slots_def va_ok_def free_set_publish)
  qed
qed

lemma slot_ranges:
  assumes "i < MAX_SLOTS" "j < MAX_SLOTS" "i \<noteq> j"
  shows "{slot_base i..<slot_base i + CELL_VA_STRIDE} \<inter> {slot_base j..<slot_base j + CELL_VA_STRIDE} = {}"
proof -
  have "slot_base a + CELL_VA_STRIDE \<le> slot_base b" if "a < b" for a b
    using that mult_le_mono1 [of "Suc a" b CELL_VA_STRIDE] by (simp add: slot_base_def)
  then show ?thesis using assms(3) by (cases i j rule: linorder_cases) fastforce+
qed

end
