(* ===== verification/Loader_Props.thy ===== *)
theory Loader_Props
  imports VA_Alloc
begin

text \<open>The properties of the loader's virtual-address allocator.\<close>

text \<open>
  C33. Two live Cells never share address space, under any interleaving.  Whatever order the atomic
  operations of concurrent \<open>alloc_cell_va\<close> and \<open>free_cell_va\<close> calls take, every slot below the bump
  index is handed out, being released or in the reuse bitmap, and only once: no slot is handed out
  twice, none is lost, and the ranges of two handed-out slots do not overlap and end within the
  user half of the address space.
\<close>

theorem cell_ranges_disjoint:
  assumes "va_step\<^sup>*\<^sup>* va_world_init w"
  shows "vw_live w + vw_freeing w + mset_set (free_set (vw_va w)) = mset_set {0..<va_bump (vw_va w) - vw_overrun w}
    \<and> (\<forall>i j. i \<in># vw_live w \<longrightarrow> j \<in># vw_live w \<longrightarrow> count (vw_live w) i = 1
        \<and> slot_base i + CELL_VA_STRIDE \<le> 0x4000000000
        \<and> (i \<noteq> j \<longrightarrow> {slot_base i..<slot_base i + CELL_VA_STRIDE} \<inter> {slot_base j..<slot_base j + CELL_VA_STRIDE} = {}))"
proof -
  from va_inv_steps [OF assms va_inv_init] obtain top where t: "va_bump (vw_va w) = top + vw_overrun w" "top \<le> MAX_SLOTS"
    "vw_live w + vw_freeing w + mset_set (free_set (vw_va w)) = mset_set {0..<top}" by (auto simp: va_inv_def)
  have live: "i < MAX_SLOTS" "count (vw_live w) i = 1" if "i \<in># vw_live w" for i
  proof -
    have "i \<in># mset_set {0..<top}" using that t(3) by (metis union_iff)
    then show "i < MAX_SLOTS" using t(2) by simp
    have "count (vw_live w) i \<le> count (mset_set {0..<top}) i" unfolding t(3) [symmetric] by simp
    also have "\<dots> \<le> 1" by (simp add: count_mset_set')
    finally show "count (vw_live w) i = 1" using that by (simp add: Suc_le_eq le_antisym)
  qed
  have "slot_base i + CELL_VA_STRIDE \<le> 0x4000000000" if "i < MAX_SLOTS" for i
    using that by (simp add: slot_base_def CELL_VA_START_def CELL_VA_STRIDE_def MAX_SLOTS_def)
  with live slot_ranges t show ?thesis by simp
qed

theorem cell_ranges_disjoint_witness:
  "\<exists>w. va_step\<^sup>*\<^sup>* va_world_init w \<and> 0 \<in># vw_live w \<and> count (vw_live w) 0 = 1"
proof -
  have "va_step va_world_init (va_world_init\<lparr>vw_va := (vw_va va_world_init)\<lparr>va_bump := va_bump (vw_va va_world_init) + 1\<rparr>,
      vw_live := add_mset (va_bump (vw_va va_world_init)) (vw_live va_world_init)\<rparr>)" (is "va_step _ ?w")
    by (rule va_fresh) (simp add: va_world_init_def va_init_def MAX_SLOTS_def)
  then have r: "va_step\<^sup>*\<^sup>* va_world_init ?w" by simp
  moreover have m: "0 \<in># vw_live ?w" by (simp add: va_world_init_def va_init_def)
  ultimately show ?thesis using cell_ranges_disjoint [OF r] by blast
qed

text \<open>
  C34. Run alone, the allocator implements a set of slots.  Allocation adds a slot that was not in
  use, and fails only when all 512 are; releasing a slot in use removes exactly that one, whether
  it steps the bump index back or sets a bit of the reuse bitmap.
\<close>

theorem va_allocator_refines_set:
  assumes "va_ok s"
  shows "(case alloc_cell_va s of
      (None, s') \<Rightarrow> s' = s \<and> live_slots s = {0..<MAX_SLOTS}
    | (Some base, s') \<Rightarrow> va_ok s' \<and> (\<exists>slot < MAX_SLOTS. base = slot_base slot \<and> slot \<notin> live_slots s
        \<and> live_slots s' = insert slot (live_slots s)))
    \<and> (\<forall>slot \<in> live_slots s. va_ok (free_cell_va (slot_base slot) s)
        \<and> live_slots (free_cell_va (slot_base slot) s) = live_slots s - {slot})"
  using alloc_refines [OF assms] free_refines [OF assms] by simp

theorem va_allocator_refines_set_witness:
  "case alloc_cell_va va_init of
      (None, s') \<Rightarrow> False
    | (Some base, s') \<Rightarrow> (\<exists>slot. base = slot_base slot \<and> live_slots s' = {slot})"
proof -
  have f: "free_set va_init = {}" using slot_word by (auto simp: free_set_def va_init_def)
  then have "va_ok va_init" by (simp add: va_ok_def) (simp add: va_init_def)
  from va_allocator_refines_set [OF this] show ?thesis
    by (auto simp: live_slots_def f va_init_def MAX_SLOTS_def split: prod.splits option.splits)
qed

end
