(* ===== verification/Kernel_Tasks.thy ===== *)
theory Kernel_Tasks
  imports Ready_Queue
begin

text \<open>
  Task states and waking: \<open>TaskState\<close> of \<open>kernel/src/task/tcb.rs\<close> with every variant, the fields of
  the task control block that blocking and waking use, \<open>Scheduler::push_ready\<close> and \<open>wake_task\<close>.
\<close>

section \<open>Task states\<close>

datatype pipe_end = ReadEnd | WriteEnd

datatype pipe_handle = PipeHandle (ph_pipe: usize) (ph_end: pipe_end)

datatype futex_key = FutexKey (fk_space: u64) (fk_generation: u64) (fk_addr: usize)

datatype task_state =
    TReady
  | TRunning
  | TSleeping (sleep_until: usize)
  | TSending (sending_target: usize) (sending_delivery_id: u64)
  | TRecv (recv_mask: usize) (recv_buf_ptr: usize) (recv_buf_len: usize) (recv_deadline: "u64 option")
  | TTerminated
  | TRetiring
  | TPipeRead (read_handle: pipe_handle) (read_deadline: "u64 option")
  | TPipeWrite (write_handle: pipe_handle) (write_deadline: "u64 option")
  | TFutexWait (futex_wait_key: futex_key) (futex_deadline: "u64 option")
  | TWaiting (waiting_target: usize)
  | TPolling
  | TWaitEvent (event_mask: u32) (event_deadline: "u64 option")
  | TWaitCompletion (completion_source: u32) (completion_deadline: "u64 option")
  | TWaitIpc (ipc_deadline: "u64 option")
  | TFrozen (frozen_swap_id: u64)
  | TWaitIrq (wait_irq: u8)

fun task_state_name :: "task_state \<Rightarrow> string" where
  "task_state_name TReady = ''ready''"
| "task_state_name TRunning = ''running''"
| "task_state_name (TSleeping _) = ''sleeping''"
| "task_state_name (TSending _ _) = ''sending''"
| "task_state_name (TRecv _ _ _ _) = ''recv''"
| "task_state_name TTerminated = ''terminated''"
| "task_state_name TRetiring = ''retiring''"
| "task_state_name (TPipeRead _ _) = ''pipe-read''"
| "task_state_name (TPipeWrite _ _) = ''pipe-write''"
| "task_state_name (TFutexWait _ _) = ''futex-wait''"
| "task_state_name (TWaiting _) = ''waiting''"
| "task_state_name TPolling = ''polling''"
| "task_state_name (TWaitEvent _ _) = ''wait-event''"
| "task_state_name (TWaitCompletion _ _) = ''wait-completion''"
| "task_state_name (TWaitIpc _) = ''wait-ipc''"
| "task_state_name (TFrozen _) = ''frozen''"
| "task_state_name (TWaitIrq _) = ''wait-irq''"

text \<open>The order of \<open>PipeHandle\<close> derived in the source: the pipe, then the read end before the write end.\<close>

fun end_rank :: "pipe_end \<Rightarrow> nat" where
  "end_rank ReadEnd = 0"
| "end_rank WriteEnd = 1"

lemma end_rank_eq [simp]: "end_rank a = end_rank b \<longleftrightarrow> a = b"
  by (cases a; cases b) auto

instantiation pipe_handle :: linorder
begin

definition less_eq_pipe_handle :: "pipe_handle \<Rightarrow> pipe_handle \<Rightarrow> bool" where
  "a \<le> b \<longleftrightarrow> ph_pipe a < ph_pipe b \<or> ph_pipe a = ph_pipe b \<and> end_rank (ph_end a) \<le> end_rank (ph_end b)"

definition less_pipe_handle :: "pipe_handle \<Rightarrow> pipe_handle \<Rightarrow> bool" where
  "a < b \<longleftrightarrow> ph_pipe a < ph_pipe b \<or> ph_pipe a = ph_pipe b \<and> end_rank (ph_end a) < end_rank (ph_end b)"

instance
proof
  fix a b c :: pipe_handle
  show "a < b \<longleftrightarrow> a \<le> b \<and> \<not> b \<le> a" by (auto simp: less_eq_pipe_handle_def less_pipe_handle_def)
  show "a \<le> a" by (simp add: less_eq_pipe_handle_def)
  show "a \<le> b \<Longrightarrow> b \<le> c \<Longrightarrow> a \<le> c" by (auto simp: less_eq_pipe_handle_def)
  show "a \<le> b \<Longrightarrow> b \<le> a \<Longrightarrow> a = b" by (cases a; cases b) (auto simp: less_eq_pipe_handle_def)
  show "a \<le> b \<or> b \<le> a" by (auto simp: less_eq_pipe_handle_def)
qed

end

text \<open>The order of \<open>FutexKey\<close> derived in the source: the space, then the generation, then the address.\<close>

instantiation futex_key :: linorder
begin

definition less_eq_futex_key :: "futex_key \<Rightarrow> futex_key \<Rightarrow> bool" where
  "a \<le> b \<longleftrightarrow> fk_space a < fk_space b \<or> fk_space a = fk_space b
     \<and> (fk_generation a < fk_generation b \<or> fk_generation a = fk_generation b \<and> fk_addr a \<le> fk_addr b)"

definition less_futex_key :: "futex_key \<Rightarrow> futex_key \<Rightarrow> bool" where
  "a < b \<longleftrightarrow> fk_space a < fk_space b \<or> fk_space a = fk_space b
     \<and> (fk_generation a < fk_generation b \<or> fk_generation a = fk_generation b \<and> fk_addr a < fk_addr b)"

instance
proof
  fix a b c :: futex_key
  show "a < b \<longleftrightarrow> a \<le> b \<and> \<not> b \<le> a" by (auto simp: less_eq_futex_key_def less_futex_key_def)
  show "a \<le> a" by (simp add: less_eq_futex_key_def)
  show "a \<le> b \<Longrightarrow> b \<le> c \<Longrightarrow> a \<le> c" by (auto simp: less_eq_futex_key_def)
  show "a \<le> b \<Longrightarrow> b \<le> a \<Longrightarrow> a = b" by (cases a; cases b) (auto simp: less_eq_futex_key_def)
  show "a \<le> b \<or> b \<le> a" by (auto simp: less_eq_futex_key_def)
qed

end

section \<open>Tasks and the scheduler\<close>

text \<open>\<open>t_result\<close> is register 10 of the saved trap frame; \<open>t_pipe_handles\<close> is the \<open>BTreeSet\<close>.\<close>

record tcb =
  t_state :: task_state
  t_cell_id :: usize
  t_priority :: u8
  t_pipe_handles :: "pipe_handle list"
  t_result :: usize

record sched =
  sc_tasks :: "(usize, tcb) btree"
  sc_ready :: ready_state
  sc_hart :: usize

definition PRIO_NORMAL :: u8 where "PRIO_NORMAL = 1"

definition push_ready :: "usize \<Rightarrow> sched \<Rightarrow> sched" where
  "push_ready tid s =
     (let priority = (case bt_get (sc_tasks s) tid of None \<Rightarrow> PRIO_NORMAL | Some t \<Rightarrow> t_priority t);
          target_hart = (if RT_PRIO \<le> priority \<and> rs_rt_online (sc_ready s) then HART_RT else sc_hart s)
      in s\<lparr>sc_ready := push_on_hart target_hart tid priority (sc_ready s)\<rparr>)"

definition put_task :: "usize \<Rightarrow> tcb \<Rightarrow> sched \<Rightarrow> sched" where
  "put_task tid t s = s\<lparr>sc_tasks := bt_insert tid t (sc_tasks s)\<rparr>"

definition wake_task :: "usize \<Rightarrow> usize \<Rightarrow> sched \<Rightarrow> sched" where
  "wake_task tid result s =
     (case bt_get (sc_tasks s) tid of
        None \<Rightarrow> s
      | Some t \<Rightarrow>
          if t_state t = TReady then s
          else push_ready tid (put_task tid (t\<lparr>t_state := TReady, t_result := result\<rparr>) s))"

text \<open>The elements of a \<open>BTreeSet\<close>, kept sorted.\<close>

definition bs_insert :: "'a::linorder \<Rightarrow> 'a list \<Rightarrow> 'a list" where
  "bs_insert x xs = (if x \<in> set xs then xs else insort x xs)"

lemma set_bs_insert [simp]: "set (bs_insert x xs) = insert x (set xs)"
  by (auto simp: bs_insert_def set_insort_key)

lemma distinct_bs_insert [simp]: "distinct xs \<Longrightarrow> distinct (bs_insert x xs)"
  by (simp add: bs_insert_def distinct_insort)

lemma push_ready_tasks [simp]: "sc_tasks (push_ready tid s) = sc_tasks s" "sc_hart (push_ready tid s) = sc_hart s"
  by (simp_all add: push_ready_def Let_def)

lemma put_task_get [simp]: "bt_get (sc_tasks (put_task tid t s)) = (bt_get (sc_tasks s))(tid \<mapsto> t)"
  by (simp add: put_task_def)

lemma wake_task_get:
  "bt_get (sc_tasks (wake_task tid r s)) i =
     (case bt_get (sc_tasks s) i of None \<Rightarrow> None
      | Some t \<Rightarrow> Some (if i = tid \<and> t_state t \<noteq> TReady then t\<lparr>t_state := TReady, t_result := r\<rparr> else t))"
  by (auto simp: wake_task_def split: option.splits)

end
