(* ===== verification/Pipe.thy ===== *)
theory Pipe
  imports Kernel_Tasks Quota File_Syscalls
begin

text \<open>
  Kernel pipes, \<open>kernel/src/task/pipe.rs\<close>, and the pipe system calls of \<open>kernel/src/task/syscall.rs\<close>.
  A pipe is its ring buffer with the counts of its ends and the queues of parked tasks; the pipe
  table, the identity counter, the quota ledger and the scheduler are the state.  An operation that
  wakes tasks after it has released the pipe lock is given as the part under the lock, which returns
  the tasks to wake, and as the whole.
\<close>

section \<open>Rings\<close>

definition DEFAULT_CAPACITY :: usize where "DEFAULT_CAPACITY = 4096"
definition MIN_CAPACITY :: usize where "MIN_CAPACITY = 64"
definition MAX_CAPACITY :: usize where "MAX_CAPACITY = 65536"
definition USIZE_MAX :: usize where "USIZE_MAX = 2 ^ 64 - 1"

record pipe =
  pi_buffer :: bytes
  pi_head :: usize
  pi_len :: usize
  pi_readers :: usize
  pi_writers :: usize
  pi_read_waiters :: "usize list"
  pi_write_waiters :: "usize list"
  pi_owner_cell :: usize

definition pipe_capacity :: "pipe \<Rightarrow> usize" where
  "pipe_capacity p = length (pi_buffer p)"

definition pipe_is_empty :: "pipe \<Rightarrow> bool" where
  "pipe_is_empty p \<longleftrightarrow> pi_len p = 0"

definition pipe_is_full :: "pipe \<Rightarrow> bool" where
  "pipe_is_full p \<longleftrightarrow> pi_len p = length (pi_buffer p)"

text \<open>The copy loop of \<open>Pipe::write\<close>, from position \<open>at\<close> on.\<close>

fun ring_store :: "bytes \<Rightarrow> usize \<Rightarrow> bytes \<Rightarrow> bytes" where
  "ring_store buf at [] = buf"
| "ring_store buf at (b # bs) = ring_store (buf[at mod length buf := b]) (Suc at) bs"

definition pipe_write :: "bytes \<Rightarrow> pipe \<Rightarrow> usize \<times> pipe" where
  "pipe_write src p =
     (let space = pipe_capacity p - pi_len p;
          count = min space (length src)
      in (count, p\<lparr>pi_buffer := ring_store (pi_buffer p) (pi_head p + pi_len p) (take count src),
                   pi_len := pi_len p + count\<rparr>))"

definition pipe_read :: "usize \<Rightarrow> pipe \<Rightarrow> bytes \<times> pipe" where
  "pipe_read dst_len p =
     (let capacity = pipe_capacity p;
          count = min (pi_len p) dst_len
      in (map (\<lambda>offset. pi_buffer p ! ((pi_head p + offset) mod capacity)) [0..<count],
          p\<lparr>pi_head := (pi_head p + count) mod capacity, pi_len := pi_len p - count\<rparr>))"

section \<open>Handles\<close>

definition to_raw :: "pipe_handle \<Rightarrow> usize" where
  "to_raw h = (ph_pipe h * 2) mod 2 ^ 64 + (if ph_end h = WriteEnd then 1 else 0)"

definition from_raw :: "usize \<Rightarrow> pipe_handle option" where
  "from_raw raw =
     (let pipe = raw div 2 in
      if pipe = 0 then None else Some (PipeHandle pipe (if raw mod 2 = 1 then WriteEnd else ReadEnd)))"

section \<open>The pipe table\<close>

record pipe_sys =
  ps_pipes :: "(usize, pipe) btree"
  ps_next :: usize
  ps_quota :: quota_state
  ps_sched :: sched

definition pipe_of :: "pipe_sys \<Rightarrow> pipe_handle \<Rightarrow> pipe option" where
  "pipe_of s h = bt_get (ps_pipes s) (ph_pipe h)"

definition put_pipe :: "pipe_handle \<Rightarrow> pipe \<Rightarrow> pipe_sys \<Rightarrow> pipe_sys" where
  "put_pipe h p s = s\<lparr>ps_pipes := bt_insert (ph_pipe h) p (ps_pipes s)\<rparr>"

definition release_pipe :: "pipe \<Rightarrow> pipe_sys \<Rightarrow> pipe_sys" where
  "release_pipe p s = s\<lparr>ps_quota := refund (pi_owner_cell p) (of_nat (pipe_capacity p)) (ps_quota s)\<rparr>"

definition next_pipe_id :: "pipe_sys \<Rightarrow> usize \<times> pipe_sys" where
  "next_pipe_id s = (ps_next s, s\<lparr>ps_next := min (ps_next s + 1) USIZE_MAX\<rparr>)"

definition ring_capacity :: "usize \<Rightarrow> usize" where
  "ring_capacity n = (if n = 0 then DEFAULT_CAPACITY else max MIN_CAPACITY (min n MAX_CAPACITY))"

text \<open>\<open>can_alloc\<close> is the kernel heap's answer for the ring storage.\<close>

definition pipe_create ::
    "usize \<Rightarrow> usize \<Rightarrow> bool \<Rightarrow> pipe_sys \<Rightarrow> (syscall_error + pipe_handle \<times> pipe_handle) \<times> pipe_sys" where
  "pipe_create capacity owner_cell can_alloc s =
     (let capacity = ring_capacity capacity;
          (charged, quota) = charge owner_cell (of_nat capacity) (ps_quota s);
          s1 = s\<lparr>ps_quota := quota\<rparr>
      in if \<not> charged then (Err SE_OutOfMemory, s1)
         else if \<not> can_alloc
         then (Err SE_OutOfMemory, s1\<lparr>ps_quota := refund owner_cell (of_nat capacity) quota\<rparr>)
         else
           let pipe = \<lparr>pi_buffer = replicate capacity 0, pi_head = 0, pi_len = 0, pi_readers = 1, pi_writers = 1,
                 pi_read_waiters = [], pi_write_waiters = [], pi_owner_cell = owner_cell\<rparr>;
               (n, s2) = next_pipe_id s1
           in (Ok (PipeHandle n ReadEnd, PipeHandle n WriteEnd), s2\<lparr>ps_pipes := bt_insert n pipe (ps_pipes s2)\<rparr>))"

definition duplicate_end :: "pipe_handle \<Rightarrow> pipe_sys \<Rightarrow> bool \<times> pipe_sys" where
  "duplicate_end h s =
     (case pipe_of s h of
        None \<Rightarrow> (False, s)
      | Some p \<Rightarrow>
          (True, put_pipe h
             (case ph_end h of
                ReadEnd \<Rightarrow> p\<lparr>pi_readers := min (pi_readers p + 1) USIZE_MAX\<rparr>
              | WriteEnd \<Rightarrow> p\<lparr>pi_writers := min (pi_writers p + 1) USIZE_MAX\<rparr>) s))"

definition without :: "usize \<Rightarrow> usize list \<Rightarrow> usize list" where
  "without tid = filter (\<lambda>queued. queued \<noteq> tid)"

text \<open>Dropping one end and the task's queue entry; saturating at zero.\<close>

definition drop_end :: "pipe_end \<Rightarrow> usize \<Rightarrow> pipe \<Rightarrow> pipe" where
  "drop_end e tid p =
     (case e of
        ReadEnd \<Rightarrow> p\<lparr>pi_readers := pi_readers p - 1, pi_read_waiters := without tid (pi_read_waiters p)\<rparr>
      | WriteEnd \<Rightarrow> p\<lparr>pi_writers := pi_writers p - 1, pi_write_waiters := without tid (pi_write_waiters p)\<rparr>)"

definition ends_gone :: "pipe \<Rightarrow> bool" where
  "ends_gone p \<longleftrightarrow> pi_readers p = 0 \<and> pi_writers p = 0"

definition close_end :: "pipe_handle \<Rightarrow> usize \<Rightarrow> pipe_sys \<Rightarrow> bool \<times> pipe_sys" where
  "close_end h tid s =
     (case pipe_of s h of
        None \<Rightarrow> (False, s)
      | Some p \<Rightarrow>
          let p' = drop_end (ph_end h) tid p in
          if ends_gone p' then (True, release_pipe p' (s\<lparr>ps_pipes := bt_remove (ph_pipe h) (ps_pipes s)\<rparr>))
          else (False, put_pipe h p' s))"

datatype write_outcome = Wrote usize | Full | NoReader

datatype read_outcome = ReadBytes bytes | Eof | Empty

definition write_locked :: "pipe_handle \<Rightarrow> bytes \<Rightarrow> usize \<Rightarrow> pipe_sys \<Rightarrow> write_outcome option \<times> usize list \<times> pipe_sys" where
  "write_locked h src tid s =
     (case pipe_of s h of
        None \<Rightarrow> (None, [], s)
      | Some p \<Rightarrow>
          if pi_readers p = 0
          then (Some NoReader, [], put_pipe h (p\<lparr>pi_write_waiters := without tid (pi_write_waiters p)\<rparr>) s)
          else if pipe_is_full p then (Some Full, [], s)
          else let (written, p') = pipe_write src p
               in (Some (Wrote written), pi_read_waiters p', put_pipe h (p'\<lparr>pi_read_waiters := []\<rparr>) s))"

definition wake_all :: "usize list \<Rightarrow> pipe_sys \<Rightarrow> pipe_sys" where
  "wake_all tids s = s\<lparr>ps_sched := fold (\<lambda>tid. wake_task tid 0) tids (ps_sched s)\<rparr>"

definition try_write :: "pipe_handle \<Rightarrow> bytes \<Rightarrow> usize \<Rightarrow> pipe_sys \<Rightarrow> write_outcome option \<times> pipe_sys" where
  "try_write h src tid s = (let (r, waiters, s') = write_locked h src tid s in (r, wake_all waiters s'))"

definition read_locked :: "pipe_handle \<Rightarrow> usize \<Rightarrow> usize \<Rightarrow> pipe_sys \<Rightarrow> read_outcome option \<times> usize list \<times> pipe_sys" where
  "read_locked h dst_len tid s =
     (case pipe_of s h of
        None \<Rightarrow> (None, [], s)
      | Some p \<Rightarrow>
          if \<not> pipe_is_empty p
          then let (out, p') = pipe_read dst_len p
               in (Some (ReadBytes out), pi_write_waiters p', put_pipe h (p'\<lparr>pi_write_waiters := []\<rparr>) s)
          else if pi_writers p = 0
          then (Some Eof, [], put_pipe h (p\<lparr>pi_read_waiters := without tid (pi_read_waiters p)\<rparr>) s)
          else (Some Empty, [], s))"

definition try_read :: "pipe_handle \<Rightarrow> usize \<Rightarrow> usize \<Rightarrow> pipe_sys \<Rightarrow> read_outcome option \<times> pipe_sys" where
  "try_read h dst_len tid s = (let (r, waiters, s') = read_locked h dst_len tid s in (r, wake_all waiters s'))"

definition enqueue_waiter :: "usize \<Rightarrow> usize list \<Rightarrow> usize list" where
  "enqueue_waiter tid q = (if tid \<in> set q then q else q @ [tid])"

definition park_reader :: "pipe_handle \<Rightarrow> usize \<Rightarrow> pipe_sys \<Rightarrow> pipe_sys" where
  "park_reader h tid s =
     (case pipe_of s h of
        None \<Rightarrow> s
      | Some p \<Rightarrow> put_pipe h (p\<lparr>pi_read_waiters := enqueue_waiter tid (pi_read_waiters p)\<rparr>) s)"

definition park_writer :: "pipe_handle \<Rightarrow> usize \<Rightarrow> pipe_sys \<Rightarrow> pipe_sys" where
  "park_writer h tid s =
     (case pipe_of s h of
        None \<Rightarrow> s
      | Some p \<Rightarrow> put_pipe h (p\<lparr>pi_write_waiters := enqueue_waiter tid (pi_write_waiters p)\<rparr>) s)"

section \<open>Teardown and deadlines\<close>

text \<open>The loop over the handles of a leaving task, with the tasks it will wake.\<close>

fun leave_loop :: "usize \<Rightarrow> pipe_handle list \<Rightarrow> usize list \<Rightarrow> (usize, pipe) btree \<Rightarrow> usize list \<times> (usize, pipe) btree" where
  "leave_loop tid [] to_wake pipes = (to_wake, pipes)"
| "leave_loop tid (h # hs) to_wake pipes =
     (case bt_get pipes (ph_pipe h) of
        None \<Rightarrow> leave_loop tid hs to_wake pipes
      | Some p \<Rightarrow>
          let p' = drop_end (ph_end h) tid p in
          (case ph_end h of
             ReadEnd \<Rightarrow>
               if pi_readers p' = 0
               then leave_loop tid hs (to_wake @ pi_write_waiters p')
                      (bt_insert (ph_pipe h) (p'\<lparr>pi_write_waiters := []\<rparr>) pipes)
               else leave_loop tid hs to_wake (bt_insert (ph_pipe h) p' pipes)
           | WriteEnd \<Rightarrow>
               if pi_writers p' = 0
               then leave_loop tid hs (to_wake @ pi_read_waiters p')
                      (bt_insert (ph_pipe h) (p'\<lparr>pi_read_waiters := []\<rparr>) pipes)
               else leave_loop tid hs to_wake (bt_insert (ph_pipe h) p' pipes)))"

definition on_task_leaves :: "usize \<Rightarrow> pipe_handle list \<Rightarrow> pipe_sys \<Rightarrow> usize list \<times> pipe_sys" where
  "on_task_leaves tid owned s =
     (let (to_wake, pipes) = leave_loop tid owned [] (ps_pipes s);
          dead = filter (\<lambda>(n, p). ends_gone p) pipes
      in (to_wake, fold (\<lambda>(n, p). release_pipe p) dead
            (s\<lparr>ps_pipes := fold (\<lambda>(n, p). bt_remove n) dead pipes\<rparr>)))"

definition on_deadline :: "pipe_handle \<Rightarrow> usize \<Rightarrow> pipe_end \<Rightarrow> pipe_sys \<Rightarrow> pipe_sys" where
  "on_deadline h tid e s =
     (case pipe_of s h of
        None \<Rightarrow> s
      | Some p \<Rightarrow> put_pipe h
          (case e of
             ReadEnd \<Rightarrow> p\<lparr>pi_read_waiters := without tid (pi_read_waiters p)\<rparr>
           | WriteEnd \<Rightarrow> p\<lparr>pi_write_waiters := without tid (pi_write_waiters p)\<rparr>) s)"

text \<open>
  The pipe part of task teardown in \<open>scheduler.rs\<close>, which runs with the scheduler lock held.
  \<open>wake_task\<close> takes that lock, which is not re-entrant: when there is a task to wake the teardown
  never returns, and the result is \<open>None\<close>.
\<close>

definition teardown_pipes :: "usize \<Rightarrow> pipe_sys \<Rightarrow> pipe_sys option" where
  "teardown_pipes tid s =
     (let owned = (case bt_get (sc_tasks (ps_sched s)) tid of None \<Rightarrow> [] | Some t \<Rightarrow> t_pipe_handles t) in
      if owned = [] then Some s
      else
        let (to_wake, s') = on_task_leaves tid owned s in
        if to_wake \<noteq> [] then None
        else
          (case bt_get (sc_tasks (ps_sched s')) tid of
             None \<Rightarrow> Some s'
           | Some t \<Rightarrow> Some (s'\<lparr>ps_sched := put_task tid (t\<lparr>t_pipe_handles := []\<rparr>) (ps_sched s')\<rparr>)))"

text \<open>The pipe arms of the deadline sweep.\<close>

definition sweep_pipe_deadline :: "usize \<Rightarrow> u64 \<Rightarrow> pipe_sys \<Rightarrow> pipe_sys" where
  "sweep_pipe_deadline tid now s =
     (let wake = (\<lambda>h e deadline t.
        if (case deadline of None \<Rightarrow> False | Some d \<Rightarrow> d \<le> now)
        then let s' = on_deadline h tid e s in
             s'\<lparr>ps_sched := push_ready tid (put_task tid (t\<lparr>t_result := 0, t_state := TReady\<rparr>) (ps_sched s'))\<rparr>
        else s)
      in (case bt_get (sc_tasks (ps_sched s)) tid of
            None \<Rightarrow> s
          | Some t \<Rightarrow>
              (case t_state t of
                 TPipeRead h deadline \<Rightarrow> wake h ReadEnd deadline t
               | TPipeWrite h deadline \<Rightarrow> wake h WriteEnd deadline t
               | _ \<Rightarrow> s)))"

section \<open>Session transport\<close>

definition session_wake :: "usize \<Rightarrow> sched \<Rightarrow> sched" where
  "session_wake tid sc =
     (case bt_get (sc_tasks sc) tid of
        None \<Rightarrow> sc
      | Some t \<Rightarrow>
          (case t_state t of
             TPipeRead _ _ \<Rightarrow> push_ready tid (put_task tid (t\<lparr>t_state := TReady\<rparr>) sc)
           | TPipeWrite _ _ \<Rightarrow> push_ready tid (put_task tid (t\<lparr>t_state := TReady\<rparr>) sc)
           | _ \<Rightarrow> sc))"

definition session_wakes :: "usize list \<Rightarrow> pipe_sys \<Rightarrow> pipe_sys" where
  "session_wakes tids s = s\<lparr>ps_sched := fold session_wake tids (ps_sched s)\<rparr>"

definition session_read :: "pipe_handle \<Rightarrow> usize \<Rightarrow> pipe_sys \<Rightarrow> read_outcome option \<times> pipe_sys" where
  "session_read h dst_len s =
     (case pipe_of s h of
        None \<Rightarrow> (None, s)
      | Some p \<Rightarrow>
          if \<not> pipe_is_empty p
          then let (out, p') = pipe_read dst_len p
               in (Some (ReadBytes out),
                   session_wakes (pi_write_waiters p') (put_pipe h (p'\<lparr>pi_write_waiters := []\<rparr>) s))
          else if pi_writers p = 0 then (Some Eof, s)
          else (Some Empty, s))"

definition session_write :: "pipe_handle \<Rightarrow> bytes \<Rightarrow> pipe_sys \<Rightarrow> write_outcome option \<times> pipe_sys" where
  "session_write h src s =
     (case pipe_of s h of
        None \<Rightarrow> (None, s)
      | Some p \<Rightarrow>
          if pi_readers p = 0 then (Some NoReader, s)
          else if pipe_is_full p then (Some Full, s)
          else let (written, p') = pipe_write src p
               in (Some (Wrote written),
                   session_wakes (pi_read_waiters p') (put_pipe h (p'\<lparr>pi_read_waiters := []\<rparr>) s)))"

definition session_counts :: "pipe_handle \<Rightarrow> pipe_sys \<Rightarrow> (usize \<times> usize) option" where
  "session_counts h s = map_option (\<lambda>p. (pi_readers p, pi_writers p)) (pipe_of s h)"

definition session_flush :: "pipe_handle \<Rightarrow> pipe_sys \<Rightarrow> bool \<times> pipe_sys" where
  "session_flush h s =
     (case pipe_of s h of
        None \<Rightarrow> (False, s)
      | Some p \<Rightarrow>
          (True, session_wakes (pi_write_waiters p)
             (put_pipe h (p\<lparr>pi_head := 0, pi_len := 0, pi_write_waiters := []\<rparr>) s)))"

definition session_wake_all :: "pipe_handle \<Rightarrow> pipe_sys \<Rightarrow> pipe_sys" where
  "session_wake_all h s =
     (case pipe_of s h of
        None \<Rightarrow> s
      | Some p \<Rightarrow>
          session_wakes (pi_read_waiters p @ pi_write_waiters p)
            (put_pipe h (p\<lparr>pi_read_waiters := [], pi_write_waiters := []\<rparr>) s))"

definition disown_cell :: "usize \<Rightarrow> pipe_sys \<Rightarrow> pipe_sys" where
  "disown_cell cell s =
     s\<lparr>ps_pipes := map (\<lambda>(n, p). (n, if pi_owner_cell p = cell then p\<lparr>pi_owner_cell := 0\<rparr> else p)) (ps_pipes s)\<rparr>"

text \<open>A failed assertion is \<open>None\<close>; the result says whether the last reader went.\<close>

definition session_close :: "pipe_handle \<Rightarrow> pipe_sys \<Rightarrow> (bool \<times> pipe_sys) option" where
  "session_close h s =
     (case pipe_of s h of
        None \<Rightarrow> Some (False, s)
      | Some p \<Rightarrow>
          if (case ph_end h of ReadEnd \<Rightarrow> pi_readers p | WriteEnd \<Rightarrow> pi_writers p) = 0 then None
          else
            let p1 = (case ph_end h of
                        ReadEnd \<Rightarrow> p\<lparr>pi_readers := pi_readers p - 1\<rparr>
                      | WriteEnd \<Rightarrow> p\<lparr>pi_writers := pi_writers p - 1\<rparr>);
                final_reader = (pi_readers p1 = 0);
                woken = final_reader \<or> pi_writers p1 = 0;
                s1 = (if woken then session_wakes (pi_read_waiters p1 @ pi_write_waiters p1) s else s);
                p2 = (if woken then p1\<lparr>pi_read_waiters := [], pi_write_waiters := []\<rparr> else p1)
            in Some (final_reader,
                 if ends_gone p2
                 then release_pipe p2 (s1\<lparr>ps_pipes := bt_remove (ph_pipe h) (ps_pipes s1)\<rparr>)
                 else put_pipe h p2 s1))"

section \<open>System calls\<close>

definition handles_of :: "pipe_sys \<Rightarrow> usize \<Rightarrow> pipe_handle list" where
  "handles_of s tid = (case bt_get (sc_tasks (ps_sched s)) tid of None \<Rightarrow> [] | Some t \<Rightarrow> t_pipe_handles t)"

definition caller_owns_pipe :: "usize \<Rightarrow> pipe_handle \<Rightarrow> pipe_sys \<Rightarrow> bool" where
  "caller_owns_pipe caller h s \<longleftrightarrow> h \<in> set (handles_of s caller)"

definition set_handles :: "usize \<Rightarrow> (pipe_handle list \<Rightarrow> pipe_handle list) \<Rightarrow> pipe_sys \<Rightarrow> pipe_sys" where
  "set_handles tid f s =
     (case bt_get (sc_tasks (ps_sched s)) tid of
        None \<Rightarrow> s
      | Some t \<Rightarrow> s\<lparr>ps_sched := put_task tid (t\<lparr>t_pipe_handles := f (t_pipe_handles t)\<rparr>) (ps_sched s)\<rparr>)"

text \<open>\<open>copy_out\<close> is the copy of the two raw handles to the caller's buffer, \<open>write_user_slice\<close>.\<close>

definition sys_pipe_create ::
    "(bytes \<Rightarrow> syscall_error + unit) \<Rightarrow> bool \<Rightarrow> usize \<Rightarrow> usize \<Rightarrow> pipe_sys \<Rightarrow> (syscall_error + usize) \<times> pipe_sys" where
  "sys_pipe_create copy_out can_alloc caller capacity s =
     (case bt_get (sc_tasks (ps_sched s)) caller of
        None \<Rightarrow> (Err SE_PermissionDenied, s)
      | Some t \<Rightarrow>
          (case pipe_create capacity (t_cell_id t) can_alloc s of
             (Err e, s1) \<Rightarrow> (Err e, s1)
           | (Ok (r, w), s1) \<Rightarrow>
               (case copy_out (to_le_bytes 8 (of_nat (to_raw r) :: u64) @ to_le_bytes 8 (of_nat (to_raw w) :: u64)) of
                  Err e \<Rightarrow> (Err e, snd (close_end w caller (snd (close_end r caller s1))))
                | Ok _ \<Rightarrow>
                    if bt_get (sc_tasks (ps_sched s1)) caller = None
                    then (Err SE_PermissionDenied, snd (close_end w caller (snd (close_end r caller s1))))
                    else (Ok 0, set_handles caller (\<lambda>hs. bs_insert w (bs_insert r hs)) s1))))"

definition CHUNK :: usize where "CHUNK = 512"

text \<open>
  \<open>PipeRead\<close> in three parts: the checks before the loop, the attempt that starts every round of the
  loop, and the parking that ends a round when the ring was empty.  The checks return no handle when
  the call returns 0 at once.
\<close>

definition pipe_read_enter :: "usize \<Rightarrow> usize \<Rightarrow> usize \<Rightarrow> pipe_sys \<Rightarrow> syscall_error + pipe_handle option" where
  "pipe_read_enter caller raw len s =
     (case from_raw raw of
        None \<Rightarrow> Err SE_InvalidInput
      | Some h \<Rightarrow>
          if ph_end h \<noteq> ReadEnd \<or> \<not> caller_owns_pipe caller h s then Err SE_PermissionDenied
          else if len = 0 then Ok None else Ok (Some h))"

definition call_deadline :: "u64 \<Rightarrow> u64 \<Rightarrow> u64 option" where
  "call_deadline now timeout = (if timeout = 0 then None else Some (now + timeout))"

definition deadline_passed :: "u64 option \<Rightarrow> u64 \<Rightarrow> bool" where
  "deadline_passed d now = (case d of None \<Rightarrow> False | Some t \<Rightarrow> t \<le> now)"

definition pipe_read_try ::
    "(bytes \<Rightarrow> syscall_error + unit) \<Rightarrow> usize \<Rightarrow> pipe_handle \<Rightarrow> usize \<Rightarrow> u64 option \<Rightarrow> u64 \<Rightarrow> pipe_sys
     \<Rightarrow> (syscall_error + usize) option \<times> pipe_sys" where
  "pipe_read_try copy_out caller h len deadline now s =
     (case try_read h (min len CHUNK) caller s of
        (None, s1) \<Rightarrow> (Some (Err SE_InvalidInput), s1)
      | (Some (ReadBytes out), s1) \<Rightarrow>
          (case copy_out out of Err e \<Rightarrow> (Some (Err e), s1) | Ok _ \<Rightarrow> (Some (Ok (length out)), s1))
      | (Some Eof, s1) \<Rightarrow> (Some (Ok 0), s1)
      | (Some Empty, s1) \<Rightarrow> if deadline_passed deadline now then (Some (Ok 0), s1) else (None, s1))"

definition pipe_read_park :: "usize \<Rightarrow> pipe_handle \<Rightarrow> u64 option \<Rightarrow> pipe_sys \<Rightarrow> (syscall_error + unit) \<times> pipe_sys" where
  "pipe_read_park caller h deadline s =
     (case bt_get (sc_tasks (ps_sched s)) caller of
        None \<Rightarrow> (Err SE_PermissionDenied, s)
      | Some t \<Rightarrow>
          let s1 = park_reader h caller s in
          (Ok (), s1\<lparr>ps_sched := put_task caller (t\<lparr>t_state := TPipeRead h deadline\<rparr>) (ps_sched s1)\<rparr>))"

text \<open>
  \<open>PipeWrite\<close> likewise.  The checks return the handle and whether the write has length zero.  A
  zero-length write closes the end in two further critical sections: it takes the handle out of the
  caller's table, without looking at whether it was still there, and then closes the end.
\<close>

definition pipe_write_enter :: "usize \<Rightarrow> usize \<Rightarrow> usize \<Rightarrow> pipe_sys \<Rightarrow> syscall_error + pipe_handle \<times> bool" where
  "pipe_write_enter caller raw len s =
     (case from_raw raw of
        None \<Rightarrow> Err SE_InvalidInput
      | Some h \<Rightarrow>
          if ph_end h \<noteq> WriteEnd \<or> \<not> caller_owns_pipe caller h s then Err SE_PermissionDenied
          else Ok (h, len = 0))"

definition pipe_write_forget :: "usize \<Rightarrow> pipe_handle \<Rightarrow> pipe_sys \<Rightarrow> pipe_sys" where
  "pipe_write_forget caller h s = set_handles caller (filter (\<lambda>x. x \<noteq> h)) s"

definition pipe_write_close :: "usize \<Rightarrow> pipe_handle \<Rightarrow> pipe_sys \<Rightarrow> pipe_sys" where
  "pipe_write_close caller h s = snd (close_end h caller (pipe_write_forget caller h s))"

text \<open>The caller's bytes are copied once, before the loop; \<open>copy_in\<close> is the copy from user memory.\<close>

definition pipe_write_fetch :: "(usize \<Rightarrow> bytes option) \<Rightarrow> usize \<Rightarrow> syscall_error + bytes" where
  "pipe_write_fetch copy_in len = (case copy_in (min len CHUNK) of None \<Rightarrow> Err SE_InvalidInput | Some src \<Rightarrow> Ok src)"

definition pipe_write_try ::
    "usize \<Rightarrow> pipe_handle \<Rightarrow> bytes \<Rightarrow> u64 option \<Rightarrow> u64 \<Rightarrow> pipe_sys \<Rightarrow> (syscall_error + usize) option \<times> pipe_sys" where
  "pipe_write_try caller h src deadline now s =
     (case try_write h src caller s of
        (None, s1) \<Rightarrow> (Some (Err SE_InvalidInput), s1)
      | (Some (Wrote n), s1) \<Rightarrow> (Some (Ok n), s1)
      | (Some NoReader, s1) \<Rightarrow> (Some (Err SE_BrokenPipe), s1)
      | (Some Full, s1) \<Rightarrow> if deadline_passed deadline now then (Some (Ok 0), s1) else (None, s1))"

definition pipe_write_park :: "usize \<Rightarrow> pipe_handle \<Rightarrow> u64 option \<Rightarrow> pipe_sys \<Rightarrow> (syscall_error + unit) \<times> pipe_sys" where
  "pipe_write_park caller h deadline s =
     (case bt_get (sc_tasks (ps_sched s)) caller of
        None \<Rightarrow> (Err SE_PermissionDenied, s)
      | Some t \<Rightarrow>
          let s1 = park_writer h caller s in
          (Ok (), s1\<lparr>ps_sched := put_task caller (t\<lparr>t_state := TPipeWrite h deadline\<rparr>) (ps_sched s1)\<rparr>))"

definition sys_pipe_close :: "usize \<Rightarrow> usize \<Rightarrow> pipe_sys \<Rightarrow> (syscall_error + usize) \<times> pipe_sys" where
  "sys_pipe_close caller raw s =
     (case from_raw raw of
        None \<Rightarrow> (Err SE_InvalidInput, s)
      | Some h \<Rightarrow>
          if \<not> caller_owns_pipe caller h s then (Err SE_PermissionDenied, s)
          else (Ok 0, snd (close_end h caller (set_handles caller (filter (\<lambda>x. x \<noteq> h)) s))))"

definition sys_pipe_share :: "usize \<Rightarrow> usize \<Rightarrow> usize \<Rightarrow> pipe_sys \<Rightarrow> (syscall_error + usize) \<times> pipe_sys" where
  "sys_pipe_share caller raw target s =
     (case from_raw raw of
        None \<Rightarrow> (Err SE_InvalidInput, s)
      | Some h \<Rightarrow>
          if \<not> caller_owns_pipe caller h s then (Err SE_PermissionDenied, s)
          else if bt_get (sc_tasks (ps_sched s)) target = None then (Err SE_InvalidInput, s)
          else if h \<in> set (handles_of s target) then (Ok 0, s)
          else
            (case duplicate_end h s of
               (False, s1) \<Rightarrow> (Err SE_InvalidInput, s1)
             | (True, s1) \<Rightarrow> (Ok 0, set_handles target (bs_insert h) s1)))"

end
