(* ===== verification/Pipe_Ring.thy ===== *)
theory Pipe_Ring
  imports Pipe
begin

text \<open>
  The ring of a pipe implements a bounded byte queue.  The contract of such a queue and what its
  clients get from it, that bytes come out in the order they went in and none is lost or made up, is
  the locale \<open>byte_queue\<close>; the ring is an instance.
\<close>

section \<open>Byte queues\<close>

datatype stream_op = SWrite bytes | SRead usize

text \<open>The bytes accepted and the bytes delivered by a sequence of writes and reads.\<close>

fun stream_run ::
    "(bytes \<Rightarrow> 'q \<Rightarrow> usize \<times> 'q) \<Rightarrow> (usize \<Rightarrow> 'q \<Rightarrow> bytes \<times> 'q) \<Rightarrow> stream_op list \<Rightarrow> 'q \<Rightarrow> bytes \<times> bytes \<times> 'q" where
  "stream_run wr rd [] q = ([], [], q)"
| "stream_run wr rd (SWrite src # ops) q =
     (let (n, q1) = wr src q; (inp, out, q2) = stream_run wr rd ops q1 in (take n src @ inp, out, q2))"
| "stream_run wr rd (SRead n # ops) q =
     (let (bs, q1) = rd n q; (inp, out, q2) = stream_run wr rd ops q1 in (inp, bs @ out, q2))"

locale byte_queue =
  fixes ok :: "'q \<Rightarrow> bool" and cap :: "'q \<Rightarrow> nat" and contents :: "'q \<Rightarrow> bytes"
    and wr :: "bytes \<Rightarrow> 'q \<Rightarrow> usize \<times> 'q" and rd :: "usize \<Rightarrow> 'q \<Rightarrow> bytes \<times> 'q"
  assumes bounded: "ok q \<Longrightarrow> length (contents q) \<le> cap q"
    and wr_law: "ok q \<Longrightarrow> wr src q = (n, q') \<Longrightarrow>
      ok q' \<and> cap q' = cap q \<and> n = min (cap q - length (contents q)) (length src) \<and> contents q' = contents q @ take n src"
    and rd_law: "ok q \<Longrightarrow> rd n q = (bs, q') \<Longrightarrow>
      ok q' \<and> cap q' = cap q \<and> bs = take n (contents q) \<and> contents q' = drop n (contents q)"
begin

lemma stream_fifo:
  assumes "ok q" "stream_run wr rd ops q = (inp, out, q')"
  shows "ok q' \<and> cap q' = cap q \<and> contents q @ inp = out @ contents q' \<and> length (contents q') \<le> cap q"
  using assms
proof (induction ops arbitrary: q inp out q')
  case (Cons op ops)
  show ?case
  proof (cases op)
    case (SWrite src)
    obtain n q1 where w: "wr src q = (n, q1)" by (rule prod.exhaust)
    obtain i2 o2 q2 where r: "stream_run wr rd ops q1 = (i2, o2, q2)" by (rule prod_cases3)
    note law = wr_law [OF Cons.prems(1) w]
    from Cons.IH [OF _ r] law Cons.prems(2) show ?thesis by (auto simp: SWrite w r)
  next
    case (SRead n)
    obtain bs q1 where w: "rd n q = (bs, q1)" by (rule prod.exhaust)
    obtain i2 o2 q2 where r: "stream_run wr rd ops q1 = (i2, o2, q2)" by (rule prod_cases3)
    note law = rd_law [OF Cons.prems(1) w]
    note rest = Cons.IH [OF _ r]
    have "inp = i2" "out = bs @ o2" "q' = q2" using Cons.prems(2) by (auto simp: SRead w r)
    moreover have "contents q @ i2 = take n (contents q) @ (drop n (contents q) @ i2)" by simp
    ultimately show ?thesis using rest law by (metis append.assoc)
  qed
qed (auto dest: bounded)

text \<open>What fits is accepted whole, and reading as much as there is empties the queue.\<close>

lemma write_read_back:
  assumes "ok q" "length (contents q) + length src \<le> cap q" "wr src q = (n, q1)" "rd (length (contents q) + length src) q1 = (bs, q2)"
  shows "bs = contents q @ src \<and> contents q2 = []"
  using wr_law [OF assms(1,3)] rd_law [OF _ assms(4)] assms(2) by auto

end

section \<open>The ring\<close>

definition ring_contents :: "pipe \<Rightarrow> bytes" where
  "ring_contents p = map (\<lambda>i. pi_buffer p ! ((pi_head p + i) mod length (pi_buffer p))) [0..<pi_len p]"

definition ring_ok :: "pipe \<Rightarrow> bool" where
  "ring_ok p \<longleftrightarrow> pi_head p < length (pi_buffer p) \<and> pi_len p \<le> length (pi_buffer p)"

lemma length_ring_contents [simp]: "length (ring_contents p) = pi_len p"
  by (simp add: ring_contents_def)

lemma length_ring_store [simp]: "length (ring_store buf at bs) = length buf"
  by (induction buf at bs rule: ring_store.induct) auto

lemma mod_add_inj:
  assumes "i < (n :: nat)" "j < n" "(a + i) mod n = (a + j) mod n"
  shows "i = j"
proof -
  have le: "y = x" if "x \<le> y" "y < n" "(a + x) mod n = (a + y) mod n" for x y
  proof -
    have "n dvd (a + y) - (a + x)" using that by (subst mod_eq_dvd_iff_nat [symmetric]) auto
    then have "n dvd y - x" by simp
    then have "y - x = 0" using dvd_imp_le [of n "y - x"] that(2) by linarith
    then show ?thesis using that(1) by simp
  qed
  show ?thesis
  proof (cases "i \<le> j")
    case True
    from le [OF this assms(2,3)] show ?thesis by simp
  next
    case False
    then have "j \<le> i" by simp
    from le [OF this assms(1) assms(3) [symmetric]] show ?thesis by simp
  qed
qed

lemma ring_store_other:
  "(\<And>j. j < length bs \<Longrightarrow> (at + j) mod length buf \<noteq> k) \<Longrightarrow> ring_store buf at bs ! k = buf ! k"
proof (induction buf at bs rule: ring_store.induct)
  case (2 buf at b bs)
  have "at mod length buf \<noteq> k" using 2(2) [of 0] by simp
  moreover have "(Suc at + j) mod length (buf[at mod length buf := b]) \<noteq> k" if "j < length bs" for j
    using 2(2) [of "Suc j"] that by simp
  ultimately show ?case using 2(1) by simp
qed simp

lemma ring_store_at:
  "length bs \<le> length buf \<Longrightarrow> j < length bs \<Longrightarrow> ring_store buf at bs ! ((at + j) mod length buf) = bs ! j"
proof (induction buf at bs arbitrary: j rule: ring_store.induct)
  case (2 buf at b bs)
  show ?case
  proof (cases j)
    case 0
    have "(Suc at + i) mod length buf \<noteq> at mod length buf" if "i < length bs" for i
    proof -
      have "Suc i < length buf" "0 < length buf" using that 2(2) by auto
      then show ?thesis using mod_add_inj [of "Suc i" "length buf" 0 at] by auto
    qed
    moreover have "at mod length buf < length buf" using 2(2) by (intro mod_less_divisor) auto
    ultimately have "ring_store (buf[at mod length buf := b]) (Suc at) bs ! (at mod length buf) = b"
      using ring_store_other [of bs "Suc at" "buf[at mod length buf := b]"] 2(2) by simp
    then show ?thesis by (simp add: 0)
  next
    case (Suc i)
    then show ?thesis using 2(1) [of i] 2(2,3) by simp
  qed
qed simp

lemma contents_write:
  assumes "ring_ok p" "pipe_write src p = (n, p')"
  shows "ring_contents p' = ring_contents p @ take n src"
proof -
  let ?c = "length (pi_buffer p)" let ?at = "pi_head p + pi_len p"
  from assms have n: "n = min (?c - pi_len p) (length src)" and p': "pi_head p' = pi_head p" "pi_len p' = pi_len p + n"
    "pi_buffer p' = ring_store (pi_buffer p) ?at (take n src)"
    by (auto simp: pipe_write_def pipe_capacity_def Let_def)
  have old: "pi_buffer p' ! ((pi_head p + i) mod ?c) = pi_buffer p ! ((pi_head p + i) mod ?c)" if "i < pi_len p" for i
    unfolding p'
  proof (rule ring_store_other)
    fix j assume "j < length (take n src)"
    then have "pi_len p + j < ?c" "i < ?c" using that n assms(1) by (auto simp: ring_ok_def)
    then show "(?at + j) mod ?c \<noteq> (pi_head p + i) mod ?c"
      using mod_add_inj [of "pi_len p + j" ?c i "pi_head p"] that by (auto simp: add.assoc)
  qed
  have new: "pi_buffer p' ! ((?at + j) mod ?c) = src ! j" if "j < n" for j
    unfolding p' using ring_store_at [of "take n src" "pi_buffer p" j ?at] that n by simp
  have c: "length (pi_buffer p') = ?c" by (simp add: p')
  show ?thesis
  proof (rule nth_equalityI)
    show "length (ring_contents p') = length (ring_contents p @ take n src)" using n by (simp add: p')
    fix i assume "i < length (ring_contents p')"
    then have i: "i < pi_len p + n" by (simp add: p')
    then have "ring_contents p' ! i = pi_buffer p' ! ((pi_head p + i) mod ?c)" by (simp add: ring_contents_def p'(1,2) c)
    also have "\<dots> = (ring_contents p @ take n src) ! i"
      using i old [of i] new [of "i - pi_len p"] by (cases "i < pi_len p") (auto simp: ring_contents_def nth_append add.assoc)
    finally show "ring_contents p' ! i = (ring_contents p @ take n src) ! i" .
  qed
qed

lemma contents_read:
  assumes "ring_ok p" "pipe_read n p = (bs, p')"
  shows "bs = take n (ring_contents p)" "ring_contents p' = drop n (ring_contents p)"
proof -
  let ?c = "length (pi_buffer p)"
  from assms have bs: "bs = map (\<lambda>i. pi_buffer p ! ((pi_head p + i) mod ?c)) [0..<min (pi_len p) n]"
    and p': "pi_buffer p' = pi_buffer p" "pi_head p' = (pi_head p + min (pi_len p) n) mod ?c" "pi_len p' = pi_len p - min (pi_len p) n"
    by (auto simp: pipe_read_def pipe_capacity_def Let_def)
  show "bs = take n (ring_contents p)" by (rule nth_equalityI) (auto simp: bs ring_contents_def)
  show "ring_contents p' = drop n (ring_contents p)"
    by (rule nth_equalityI) (auto simp: p' ring_contents_def mod_add_left_eq add.assoc)
qed

interpretation ring: byte_queue ring_ok pipe_capacity ring_contents pipe_write pipe_read
proof
  fix q q' :: pipe and src bs :: bytes and n :: usize
  assume ok: "ring_ok q"
  then show "length (ring_contents q) \<le> pipe_capacity q" by (simp add: ring_ok_def pipe_capacity_def)
  show "ring_ok q' \<and> pipe_capacity q' = pipe_capacity q \<and> n = min (pipe_capacity q - length (ring_contents q)) (length src)
      \<and> ring_contents q' = ring_contents q @ take n src" if "pipe_write src q = (n, q')"
    using contents_write [OF ok that] that ok by (auto simp: pipe_write_def pipe_capacity_def ring_ok_def Let_def)
  show "ring_ok q' \<and> pipe_capacity q' = pipe_capacity q \<and> bs = take n (ring_contents q) \<and> ring_contents q' = drop n (ring_contents q)"
    if "pipe_read n q = (bs, q')"
  proof -
    have "0 < length (pi_buffer q)" using ok by (auto simp: ring_ok_def)
    then have "ring_ok q'" "pipe_capacity q' = pipe_capacity q"
      using that ok by (auto simp: pipe_read_def pipe_capacity_def ring_ok_def Let_def)
    with contents_read [OF ok that] show ?thesis by simp
  qed
qed

lemma pipe_write_sel [simp]:
  "pi_readers (snd (pipe_write src p)) = pi_readers p" "pi_writers (snd (pipe_write src p)) = pi_writers p"
  "pi_read_waiters (snd (pipe_write src p)) = pi_read_waiters p" "pi_write_waiters (snd (pipe_write src p)) = pi_write_waiters p"
  by (simp_all add: pipe_write_def Let_def)

lemma pipe_read_sel [simp]:
  "pi_readers (snd (pipe_read n p)) = pi_readers p" "pi_writers (snd (pipe_read n p)) = pi_writers p"
  "pi_read_waiters (snd (pipe_read n p)) = pi_read_waiters p" "pi_write_waiters (snd (pipe_read n p)) = pi_write_waiters p"
  by (simp_all add: pipe_read_def Let_def)

end
