(* ===== verification/Pipe_World.thy ===== *)
theory Pipe_World
  imports Pipe_Ring
begin

text \<open>
  The pipes of a running system.  A step is one critical section of a pipe operation: what a system
  call, a session, the deadline sweep or task teardown does while it holds the pipe or the scheduler
  lock.  The ends that a call has created or taken out of a table and not yet installed or closed,
  the ends a session holds and the tasks a call is about to wake are kept beside the state, so every
  interleaving of calls is a run.  Two invariants are proved: the end counts of a pipe are exactly
  the ends held, and the bytes of every pipe come out in the order they went in.

  Two defects of the code are part of the runs.  A task record may be reaped while its table still
  holds ends, because an end can be shared with or installed in a task that has already been torn down:
  those ends are lost, and \<open>pw_leaked\<close> keeps them.  And a zero-length write closes its end
  even when the handle has left the caller's table since the checks (\<open>pw_zero\<close> holds the writes
  between the checks and the removal, \<open>pw_stray\<close> those that removed nothing and still have the
  close to come): when the end has other holders their count drops, and the pipe is in \<open>pw_damaged\<close>.
\<close>

section \<open>Runs\<close>

datatype pipe_event = Tau | In usize bytes | Out usize bytes

fun write_event :: "pipe_handle \<Rightarrow> bytes \<Rightarrow> write_outcome option \<Rightarrow> pipe_event" where
  "write_event h src (Some (Wrote n)) = In (ph_pipe h) (take n src)"
| "write_event h src _ = Tau"

fun read_event :: "pipe_handle \<Rightarrow> read_outcome option \<Rightarrow> pipe_event" where
  "read_event h (Some (ReadBytes bs)) = Out (ph_pipe h) bs"
| "read_event h _ = Tau"

definition flush_event :: "pipe_handle \<Rightarrow> pipe_sys \<Rightarrow> pipe_event" where
  "flush_event h s = (case pipe_of s h of None \<Rightarrow> Tau | Some p \<Rightarrow> Out (ph_pipe h) (ring_contents p))"

record pipe_world =
  pw_sys :: pipe_sys
  pw_new :: "pipe_handle multiset"
  pw_closing :: "pipe_handle multiset"
  pw_session :: "pipe_handle multiset"
  pw_waking :: "usize multiset"
  pw_zero :: "(usize \<times> pipe_handle) multiset"
  pw_stray :: "pipe_handle multiset"
  pw_leaked :: "pipe_handle multiset"
  pw_damaged :: "usize set"

definition end_count :: "pipe_sys \<Rightarrow> pipe_handle \<Rightarrow> nat" where
  "end_count s h =
     (case pipe_of s h of None \<Rightarrow> 0 | Some p \<Rightarrow> (case ph_end h of ReadEnd \<Rightarrow> pi_readers p | WriteEnd \<Rightarrow> pi_writers p))"

abbreviation task_of :: "pipe_sys \<Rightarrow> usize \<Rightarrow> tcb option" where
  "task_of s \<equiv> bt_get (sc_tasks (ps_sched s))"

text \<open>The removal of a task's record, which looks at no handle.\<close>

definition reap_task :: "usize \<Rightarrow> pipe_sys \<Rightarrow> pipe_sys" where
  "reap_task t s = s\<lparr>ps_sched := (ps_sched s)\<lparr>sc_tasks := bt_remove t (sc_tasks (ps_sched s))\<rparr>\<rparr>"

text \<open>
  The identity counter and the end counts saturate at the largest machine word; a step that would
  saturate one is left out.
\<close>

inductive pipe_step :: "pipe_world \<Rightarrow> pipe_event \<Rightarrow> pipe_world \<Rightarrow> bool" where
  ps_create: "pipe_create n owner g (pw_sys w) = (Ok (r, wr), s) \<Longrightarrow> ps_next (pw_sys w) < USIZE_MAX \<Longrightarrow>
    pipe_step w Tau (w\<lparr>pw_sys := s, pw_new := add_mset r (add_mset wr (pw_new w))\<rparr>)"
| ps_create_failed: "pipe_create n owner g (pw_sys w) = (Err e, s) \<Longrightarrow> pipe_step w Tau (w\<lparr>pw_sys := s\<rparr>)"
| ps_install: "h \<in># pw_new w \<Longrightarrow> task_of (pw_sys w) t \<noteq> None \<Longrightarrow>
    pipe_step w Tau (w\<lparr>pw_sys := set_handles t (bs_insert h) (pw_sys w), pw_new := pw_new w - {#h#}\<rparr>)"
| ps_abandon: "h \<in># pw_new w \<Longrightarrow>
    pipe_step w Tau (w\<lparr>pw_sys := snd (close_end h t (pw_sys w)), pw_new := pw_new w - {#h#}\<rparr>)"
| ps_adopt: "h \<in># pw_new w \<Longrightarrow>
    pipe_step w Tau (w\<lparr>pw_new := pw_new w - {#h#}, pw_session := add_mset h (pw_session w)\<rparr>)"
| ps_take: "h \<in> set (handles_of (pw_sys w) t) \<Longrightarrow>
    pipe_step w Tau (w\<lparr>pw_sys := set_handles t (filter (\<lambda>x. x \<noteq> h)) (pw_sys w), pw_closing := add_mset h (pw_closing w)\<rparr>)"
| ps_close: "h \<in># pw_closing w \<Longrightarrow>
    pipe_step w Tau (w\<lparr>pw_sys := snd (close_end h t (pw_sys w)), pw_closing := pw_closing w - {#h#}\<rparr>)"
| ps_zero_check: "pipe_write_enter t raw 0 (pw_sys w) = Ok (h, True) \<Longrightarrow>
    pipe_step w Tau (w\<lparr>pw_zero := add_mset (t, h) (pw_zero w)\<rparr>)"
| ps_zero_take: "(t, h) \<in># pw_zero w \<Longrightarrow> h \<in> set (handles_of (pw_sys w) t) \<Longrightarrow>
    pipe_step w Tau (w\<lparr>pw_sys := pipe_write_forget t h (pw_sys w), pw_closing := add_mset h (pw_closing w),
      pw_zero := pw_zero w - {#(t, h)#}\<rparr>)"
| ps_zero_stray: "(t, h) \<in># pw_zero w \<Longrightarrow> h \<notin> set (handles_of (pw_sys w) t) \<Longrightarrow>
    pipe_step w Tau (w\<lparr>pw_sys := pipe_write_forget t h (pw_sys w), pw_zero := pw_zero w - {#(t, h)#},
      pw_stray := add_mset h (pw_stray w)\<rparr>)"
| ps_stray_close: "h \<in># pw_stray w \<Longrightarrow>
    pipe_step w Tau (w\<lparr>pw_sys := snd (close_end h t (pw_sys w)), pw_stray := pw_stray w - {#h#},
      pw_damaged := (if end_count (pw_sys w) h = 0 then pw_damaged w else insert (ph_pipe h) (pw_damaged w))\<rparr>)"
| ps_share: "sys_pipe_share t raw target (pw_sys w) = (r, s) \<Longrightarrow> \<forall>h. end_count (pw_sys w) h < USIZE_MAX \<Longrightarrow>
    pipe_step w Tau (w\<lparr>pw_sys := s\<rparr>)"
| ps_session_dup: "h \<in># pw_session w \<Longrightarrow> end_count (pw_sys w) h < USIZE_MAX \<Longrightarrow> duplicate_end h (pw_sys w) = (True, s) \<Longrightarrow>
    pipe_step w Tau (w\<lparr>pw_sys := s, pw_session := add_mset h (pw_session w)\<rparr>)"
| ps_session_close: "h \<in># pw_session w \<Longrightarrow> session_close h (pw_sys w) = Some (b, s) \<Longrightarrow>
    pipe_step w Tau (w\<lparr>pw_sys := s, pw_session := pw_session w - {#h#}\<rparr>)"
| ps_teardown: "teardown_pipes t (pw_sys w) = Some s \<Longrightarrow> pipe_step w Tau (w\<lparr>pw_sys := s\<rparr>)"
| ps_write: "write_locked h src t (pw_sys w) = (r, ws, s) \<Longrightarrow>
    pipe_step w (write_event h src r) (w\<lparr>pw_sys := s, pw_waking := pw_waking w + mset ws\<rparr>)"
| ps_read: "read_locked h n t (pw_sys w) = (r, ws, s) \<Longrightarrow>
    pipe_step w (read_event h r) (w\<lparr>pw_sys := s, pw_waking := pw_waking w + mset ws\<rparr>)"
| ps_wake: "t \<in># pw_waking w \<Longrightarrow>
    pipe_step w Tau (w\<lparr>pw_sys := wake_all [t] (pw_sys w), pw_waking := pw_waking w - {#t#}\<rparr>)"
| ps_park_reader: "pipe_read_park t h d (pw_sys w) = (r, s) \<Longrightarrow> pipe_step w Tau (w\<lparr>pw_sys := s\<rparr>)"
| ps_park_writer: "pipe_write_park t h d (pw_sys w) = (r, s) \<Longrightarrow> pipe_step w Tau (w\<lparr>pw_sys := s\<rparr>)"
| ps_deadline: "pipe_step w Tau (w\<lparr>pw_sys := sweep_pipe_deadline t now (pw_sys w)\<rparr>)"
| ps_session_write: "session_write h src (pw_sys w) = (r, s) \<Longrightarrow> pipe_step w (write_event h src r) (w\<lparr>pw_sys := s\<rparr>)"
| ps_session_read: "session_read h n (pw_sys w) = (r, s) \<Longrightarrow> pipe_step w (read_event h r) (w\<lparr>pw_sys := s\<rparr>)"
| ps_session_flush: "pipe_step w (flush_event h (pw_sys w)) (w\<lparr>pw_sys := snd (session_flush h (pw_sys w))\<rparr>)"
| ps_session_wake_all: "pipe_step w Tau (w\<lparr>pw_sys := session_wake_all h (pw_sys w)\<rparr>)"
| ps_disown: "pipe_step w Tau (w\<lparr>pw_sys := disown_cell cell (pw_sys w)\<rparr>)"
| ps_spawn: "task_of (pw_sys w) t = None \<Longrightarrow> t_pipe_handles tc = [] \<Longrightarrow>
    pipe_step w Tau (w\<lparr>pw_sys := (pw_sys w)\<lparr>ps_sched := put_task t tc (ps_sched (pw_sys w))\<rparr>\<rparr>)"
| ps_reap: "pipe_step w Tau (w\<lparr>pw_sys := reap_task t (pw_sys w), pw_leaked := pw_leaked w + mset (handles_of (pw_sys w) t)\<rparr>)"
| ps_state: "task_of (pw_sys w) t = Some tc \<Longrightarrow>
    pipe_step w Tau (w\<lparr>pw_sys := (pw_sys w)\<lparr>ps_sched := put_task t (tc\<lparr>t_state := st\<rparr>) (ps_sched (pw_sys w))\<rparr>\<rparr>)"
| ps_ready: "pipe_step w Tau (w\<lparr>pw_sys := (pw_sys w)\<lparr>ps_sched := (ps_sched (pw_sys w))\<lparr>sc_ready := rs, sc_hart := hart\<rparr>\<rparr>\<rparr>)"
| ps_quota: "pipe_step w Tau (w\<lparr>pw_sys := (pw_sys w)\<lparr>ps_quota := qs\<rparr>\<rparr>)"

inductive pipe_run :: "pipe_world \<Rightarrow> pipe_event list \<Rightarrow> pipe_world \<Rightarrow> bool" where
  run_refl: "pipe_run w [] w"
| run_step: "pipe_run w evs w1 \<Longrightarrow> pipe_step w1 e w2 \<Longrightarrow> pipe_run w (evs @ [e]) w2"

definition pipe_boot :: "sched \<Rightarrow> quota_state \<Rightarrow> pipe_world" where
  "pipe_boot sc qs = \<lparr>pw_sys = \<lparr>ps_pipes = [], ps_next = 1, ps_quota = qs, ps_sched = sc\<lparr>sc_tasks := []\<rparr>\<rparr>,
     pw_new = {#}, pw_closing = {#}, pw_session = {#}, pw_waking = {#}, pw_zero = {#}, pw_stray = {#},
     pw_leaked = {#}, pw_damaged = {}\<rparr>"

section \<open>Views of the state\<close>

definition holders :: "pipe_sys \<Rightarrow> pipe_handle \<Rightarrow> usize set" where
  "holders s h = {t. h \<in> set (handles_of s t)}"

text \<open>The ends of a pipe outside the task tables, and all of them.\<close>

definition tied :: "pipe_world \<Rightarrow> pipe_handle \<Rightarrow> nat" where
  "tied w h = count (pw_new w) h + count (pw_closing w) h + count (pw_session w) h + count (pw_leaked w) h"

definition held :: "pipe_world \<Rightarrow> pipe_handle \<Rightarrow> nat" where
  "held w h = card (holders (pw_sys w) h) + tied w h"

definition pipes_ok :: "pipe_sys \<Rightarrow> bool" where
  "pipes_ok s \<longleftrightarrow> bt_wf (ps_pipes s)
     \<and> (\<forall>n p. bt_get (ps_pipes s) n = Some p \<longrightarrow> \<not> ends_gone p \<and> n < ps_next s \<and> ring_ok p)"

text \<open>The pipes a pending zero-length write or a damaged count names exist or have existed.\<close>

definition ids_old :: "pipe_world \<Rightarrow> usize \<Rightarrow> bool" where
  "ids_old w next \<longleftrightarrow> (\<forall>n \<in> pw_damaged w. n < next)
     \<and> (\<forall>h \<in># pw_stray w. ph_pipe h < next) \<and> (\<forall>z \<in># pw_zero w. ph_pipe (snd z) < next)"

definition pipe_inv :: "pipe_world \<Rightarrow> bool" where
  "pipe_inv w \<longleftrightarrow> pipes_ok (pw_sys w)
     \<and> (\<forall>h. ph_pipe h \<notin> pw_damaged w \<longrightarrow> end_count (pw_sys w) h = held w h)
     \<and> (\<forall>h \<in># pw_new w. count (pw_new w) h = 1 \<and> holders (pw_sys w) h = {})
     \<and> (\<forall>t. distinct (handles_of (pw_sys w) t))
     \<and> ids_old w (ps_next (pw_sys w))"

text \<open>What an event does to the bytes of pipe \<open>n\<close>.\<close>

fun ev_rel :: "pipe_event \<Rightarrow> usize \<Rightarrow> bytes \<Rightarrow> bytes \<Rightarrow> bool" where
  "ev_rel Tau n a b \<longleftrightarrow> b = a"
| "ev_rel (In i bs) n a b \<longleftrightarrow> b = (if n = i then a @ bs else a)"
| "ev_rel (Out i bs) n a b \<longleftrightarrow> a = (if n = i then bs @ b else b)"

text \<open>A step that keeps the ends and the tables and changes the bytes as its event says.\<close>

definition quiet :: "pipe_event \<Rightarrow> pipe_sys \<Rightarrow> pipe_sys \<Rightarrow> bool" where
  "quiet e s s' \<longleftrightarrow> ps_next s' = ps_next s \<and> handles_of s' = handles_of s
     \<and> (bt_wf (ps_pipes s) \<longrightarrow> bt_wf (ps_pipes s'))
     \<and> (\<forall>n. case bt_get (ps_pipes s) n of
          None \<Rightarrow> bt_get (ps_pipes s') n = None
        | Some p \<Rightarrow> (\<exists>p'. bt_get (ps_pipes s') n = Some p' \<and> pi_readers p' = pi_readers p \<and> pi_writers p' = pi_writers p
            \<and> (ring_ok p \<longrightarrow> ring_ok p' \<and> ev_rel e n (ring_contents p) (ring_contents p'))))"

text \<open>Any step: surviving pipes keep their bytes up to the event, a new pipe is empty.\<close>

definition evolves :: "pipe_event \<Rightarrow> pipe_sys \<Rightarrow> pipe_sys \<Rightarrow> bool" where
  "evolves e s s' \<longleftrightarrow> ps_next s \<le> ps_next s' \<and> (\<forall>n p'. bt_get (ps_pipes s') n = Some p' \<longrightarrow>
     (\<exists>p. bt_get (ps_pipes s) n = Some p \<and> (ring_ok p \<longrightarrow> ev_rel e n (ring_contents p) (ring_contents p')))
     \<or> e = Tau \<and> n = ps_next s \<and> ring_contents p' = [])"

lemma quietI:
  assumes "ps_next s' = ps_next s" "handles_of s' = handles_of s" "bt_wf (ps_pipes s) \<Longrightarrow> bt_wf (ps_pipes s')"
    and "\<And>n. bt_get (ps_pipes s) n = None \<Longrightarrow> bt_get (ps_pipes s') n = None"
    and "\<And>n p. bt_get (ps_pipes s) n = Some p \<Longrightarrow> \<exists>p'. bt_get (ps_pipes s') n = Some p' \<and> pi_readers p' = pi_readers p
      \<and> pi_writers p' = pi_writers p \<and> (ring_ok p \<longrightarrow> ring_ok p' \<and> ev_rel e n (ring_contents p) (ring_contents p'))"
  shows "quiet e s s'"
  using assms by (simp add: quiet_def split: option.split)

lemma quietD:
  assumes "quiet e s s'"
  shows "ps_next s' = ps_next s" "handles_of s' = handles_of s" "bt_wf (ps_pipes s) \<Longrightarrow> bt_wf (ps_pipes s')"
    and "bt_get (ps_pipes s) n = None \<Longrightarrow> bt_get (ps_pipes s') n = None"
    and "bt_get (ps_pipes s) n = Some p \<Longrightarrow> \<exists>p'. bt_get (ps_pipes s') n = Some p' \<and> pi_readers p' = pi_readers p
      \<and> pi_writers p' = pi_writers p \<and> (ring_ok p \<longrightarrow> ring_ok p' \<and> ev_rel e n (ring_contents p) (ring_contents p'))"
proof -
  have all: "case bt_get (ps_pipes s) n of None \<Rightarrow> bt_get (ps_pipes s') n = None
      | Some p \<Rightarrow> (\<exists>p'. bt_get (ps_pipes s') n = Some p' \<and> pi_readers p' = pi_readers p \<and> pi_writers p' = pi_writers p
          \<and> (ring_ok p \<longrightarrow> ring_ok p' \<and> ev_rel e n (ring_contents p) (ring_contents p')))" for n
    using assms unfolding quiet_def by (elim conjE allE)
  show "bt_get (ps_pipes s) n = None \<Longrightarrow> bt_get (ps_pipes s') n = None" using all [of n] by simp
  show "bt_get (ps_pipes s) n = Some p \<Longrightarrow> \<exists>p'. bt_get (ps_pipes s') n = Some p' \<and> pi_readers p' = pi_readers p
      \<and> pi_writers p' = pi_writers p \<and> (ring_ok p \<longrightarrow> ring_ok p' \<and> ev_rel e n (ring_contents p) (ring_contents p'))"
    using all [of n] by simp
qed (use assms in \<open>simp_all add: quiet_def\<close>)

lemma quiet_evolves:
  assumes "quiet e s s'"
  shows "evolves e s s'"
  unfolding evolves_def
proof (intro conjI allI impI disjI1)
  show "ps_next s \<le> ps_next s'" using quietD(1) [OF assms] by simp
  fix n p' assume p': "bt_get (ps_pipes s') n = Some p'"
  show "\<exists>p. bt_get (ps_pipes s) n = Some p \<and> (ring_ok p \<longrightarrow> ev_rel e n (ring_contents p) (ring_contents p'))"
  proof (cases "bt_get (ps_pipes s) n")
    case None
    then show ?thesis using quietD(4) [OF assms None] p' by simp
  next
    case (Some p)
    from quietD(5) [OF assms Some] p' show ?thesis by (auto simp: Some)
  qed
qed

lemma quiet_refl [simp]: "quiet Tau s s"
  by (rule quietI) auto

lemma quiet_trans:
  assumes "quiet Tau s s1" "quiet Tau s1 s2"
  shows "quiet Tau s s2"
proof (rule quietI)
  fix n p assume "bt_get (ps_pipes s) n = Some p"
  from quietD(5) [OF assms(1) this] obtain p1 where p1: "bt_get (ps_pipes s1) n = Some p1"
    "pi_readers p1 = pi_readers p" "pi_writers p1 = pi_writers p" "ring_ok p \<longrightarrow> ring_ok p1 \<and> ring_contents p1 = ring_contents p" by auto
  from quietD(5) [OF assms(2) p1(1)] p1 show "\<exists>p'. bt_get (ps_pipes s2) n = Some p' \<and> pi_readers p' = pi_readers p
      \<and> pi_writers p' = pi_writers p \<and> (ring_ok p \<longrightarrow> ring_ok p' \<and> ev_rel Tau n (ring_contents p) (ring_contents p'))" by auto
qed (use quietD [OF assms(1)] quietD [OF assms(2)] in auto)

section \<open>Quiet operations\<close>

lemma handles_wake [simp]: "handles_of (wake_all ts s) = handles_of s"
proof (induction ts arbitrary: s)
  case (Cons t ts)
  have "handles_of (wake_all [t] s) = handles_of s"
    by (simp add: fun_eq_iff handles_of_def wake_all_def wake_task_get split: option.split)
  moreover have "wake_all (t # ts) s = wake_all ts (wake_all [t] s)" by (simp add: wake_all_def)
  ultimately show ?case using Cons by simp
qed (simp add: wake_all_def)

lemma session_wake_handles: "map_option t_pipe_handles (bt_get (sc_tasks (session_wake t sc)) i) = map_option t_pipe_handles (bt_get (sc_tasks sc) i)"
  by (auto simp: session_wake_def split: option.split task_state.split)

lemma session_wakes_handles: "map_option t_pipe_handles (bt_get (sc_tasks (fold session_wake ts sc)) i) = map_option t_pipe_handles (bt_get (sc_tasks sc) i)"
  by (induction ts arbitrary: sc) (simp_all add: session_wake_handles)

lemma handles_of_map: "handles_of s t = (case map_option t_pipe_handles (task_of s t) of None \<Rightarrow> [] | Some hs \<Rightarrow> hs)"
  by (simp add: handles_of_def split: option.split)

lemma handles_session_wakes [simp]: "handles_of (session_wakes ts s) = handles_of s"
  by (simp add: fun_eq_iff handles_of_map session_wakes_def session_wakes_handles)

lemma put_pipe_sel [simp]:
  "ps_next (put_pipe h p s) = ps_next s" "handles_of (put_pipe h p s) = handles_of s" "ps_sched (put_pipe h p s) = ps_sched s"
  "bt_get (ps_pipes (put_pipe h p s)) = (bt_get (ps_pipes s))(ph_pipe h \<mapsto> p)" "bt_wf (ps_pipes s) \<Longrightarrow> bt_wf (ps_pipes (put_pipe h p s))"
  by (auto simp: put_pipe_def fun_eq_iff handles_of_def)

lemma wakes_sel [simp]:
  "ps_pipes (wake_all ts s) = ps_pipes s" "ps_next (wake_all ts s) = ps_next s"
  "ps_pipes (session_wakes ts s) = ps_pipes s" "ps_next (session_wakes ts s) = ps_next s"
  "ps_quota (session_wakes ts s) = ps_quota s"
  by (simp_all add: wake_all_def session_wakes_def)

lemma quiet_sched:
  assumes "ps_pipes s' = ps_pipes s" "ps_next s' = ps_next s" "handles_of s' = handles_of s"
  shows "quiet Tau s s'"
  by (rule quietI) (use assms in auto)

lemma quiet_put:
  assumes "pipe_of s h = Some p" "pi_readers p' = pi_readers p" "pi_writers p' = pi_writers p"
    and "ring_ok p \<Longrightarrow> ring_ok p' \<and> ev_rel e (ph_pipe h) (ring_contents p) (ring_contents p')"
    and "\<And>n a. n \<noteq> ph_pipe h \<Longrightarrow> ev_rel e n a a"
  shows "quiet e s (put_pipe h p' s)"
  using assms by (intro quietI) (auto simp: pipe_of_def)

lemma ring_upd [simp]:
  "ring_ok (p\<lparr>pi_read_waiters := q\<rparr>) = ring_ok p" "ring_ok (p\<lparr>pi_write_waiters := q\<rparr>) = ring_ok p"
  "ring_ok (p\<lparr>pi_readers := k\<rparr>) = ring_ok p" "ring_ok (p\<lparr>pi_writers := k\<rparr>) = ring_ok p" "ring_ok (p\<lparr>pi_owner_cell := k\<rparr>) = ring_ok p"
  "ring_contents (p\<lparr>pi_read_waiters := q\<rparr>) = ring_contents p" "ring_contents (p\<lparr>pi_write_waiters := q\<rparr>) = ring_contents p"
  "ring_contents (p\<lparr>pi_readers := k\<rparr>) = ring_contents p" "ring_contents (p\<lparr>pi_writers := k\<rparr>) = ring_contents p"
  "ring_contents (p\<lparr>pi_owner_cell := k\<rparr>) = ring_contents p"
  by (simp_all add: ring_ok_def ring_contents_def)

lemma quiet_queues:
  assumes "pipe_of s h = Some p"
  shows "quiet Tau s (put_pipe h (p\<lparr>pi_read_waiters := q\<rparr>) s)" "quiet Tau s (put_pipe h (p\<lparr>pi_write_waiters := q\<rparr>) s)"
    "quiet Tau s (put_pipe h (p\<lparr>pi_read_waiters := q, pi_write_waiters := q'\<rparr>) s)"
  by (rule quiet_put [OF assms]; simp)+

lemma quiet_then_sched:
  assumes "quiet e s s1" "ps_pipes s2 = ps_pipes s1" "ps_next s2 = ps_next s1" "handles_of s2 = handles_of s1"
  shows "quiet e s s2"
  using assms(1) unfolding quiet_def assms(2-4) .

lemma quiet_pipe_write:
  assumes "pipe_of s h = Some p" "pipe_write src p = (n, p')"
  shows "quiet (In (ph_pipe h) (take n src)) s (put_pipe h (p'\<lparr>pi_read_waiters := q\<rparr>) s)"
proof (rule quiet_put [OF assms(1)])
  show "pi_readers (p'\<lparr>pi_read_waiters := q\<rparr>) = pi_readers p" "pi_writers (p'\<lparr>pi_read_waiters := q\<rparr>) = pi_writers p"
    using pipe_write_sel(1,2) [of src p] assms(2) by simp_all
qed (use ring.wr_law [OF _ assms(2)] in auto)

lemma quiet_pipe_read:
  assumes "pipe_of s h = Some p" "pipe_read n p = (bs, p')"
  shows "quiet (Out (ph_pipe h) bs) s (put_pipe h (p'\<lparr>pi_write_waiters := q\<rparr>) s)"
proof (rule quiet_put [OF assms(1)])
  show "pi_readers (p'\<lparr>pi_write_waiters := q\<rparr>) = pi_readers p" "pi_writers (p'\<lparr>pi_write_waiters := q\<rparr>) = pi_writers p"
    using pipe_read_sel(1,2) [of n p] assms(2) by simp_all
qed (use ring.rd_law [OF _ assms(2)] in auto)

lemma quiet_write_locked: "write_locked h src t s = (r, ws, s') \<Longrightarrow> quiet (write_event h src r) s s'"
  by (auto simp: write_locked_def quiet_queues quiet_pipe_write split: option.splits if_splits prod.splits)

lemma quiet_read_locked: "read_locked h n t s = (r, ws, s') \<Longrightarrow> quiet (read_event h r) s s'"
  by (auto simp: read_locked_def quiet_queues quiet_pipe_read split: option.splits if_splits prod.splits)

lemma quiet_session_write: "session_write h src s = (r, s') \<Longrightarrow> quiet (write_event h src r) s s'"
  by (auto simp: session_write_def split: option.splits if_splits prod.splits
      intro!: quiet_then_sched [OF quiet_pipe_write])

lemma quiet_session_read: "session_read h n s = (r, s') \<Longrightarrow> quiet (read_event h r) s s'"
  by (auto simp: session_read_def split: option.splits if_splits prod.splits
      intro!: quiet_then_sched [OF quiet_pipe_read])

lemma quiet_flush: "quiet (flush_event h s) s (snd (session_flush h s))"
proof (cases "pipe_of s h")
  case (Some p)
  have "quiet (Out (ph_pipe h) (ring_contents p)) s (put_pipe h (p\<lparr>pi_head := 0, pi_len := 0, pi_write_waiters := []\<rparr>) s)"
    by (rule quiet_put [OF Some]) (auto simp: ring_ok_def ring_contents_def)
  then show ?thesis using Some by (auto simp: session_flush_def flush_event_def intro: quiet_then_sched)
qed (simp add: session_flush_def flush_event_def)

lemma quiet_wake_all: "quiet Tau s (session_wake_all h s)"
  by (auto simp: session_wake_all_def split: option.split intro!: quiet_then_sched [OF quiet_queues(3)])

lemma map_of_values: "map_of (map (\<lambda>(n, p). (n, f p)) m) k = map_option f (map_of m k)"
  by (induction m) auto

lemma quiet_disown: "quiet Tau s (disown_cell cell s)"
proof (rule quietI)
  let ?f = "\<lambda>p. if pi_owner_cell p = cell then p\<lparr>pi_owner_cell := 0\<rparr> else p"
  have get: "bt_get (ps_pipes (disown_cell cell s)) n = map_option ?f (bt_get (ps_pipes s) n)" for n
    by (simp add: disown_cell_def map_of_values)
  show "bt_wf (ps_pipes s) \<Longrightarrow> bt_wf (ps_pipes (disown_cell cell s))"
    by (simp add: bt_wf_def disown_cell_def sorted_wrt_map split_beta comp_def)
  show "bt_get (ps_pipes s) n = None \<Longrightarrow> bt_get (ps_pipes (disown_cell cell s)) n = None" for n by (simp add: get)
  show "bt_get (ps_pipes s) n = Some p \<Longrightarrow> \<exists>p'. bt_get (ps_pipes (disown_cell cell s)) n = Some p' \<and> pi_readers p' = pi_readers p
      \<and> pi_writers p' = pi_writers p \<and> (ring_ok p \<longrightarrow> ring_ok p' \<and> ev_rel Tau n (ring_contents p) (ring_contents p'))" for n p
    by (simp add: get)
qed (simp_all add: disown_cell_def handles_of_def fun_eq_iff)

lemma quiet_park: "quiet Tau s (park_reader h t s)" "quiet Tau s (park_writer h t s)" "quiet Tau s (on_deadline h t e s)"
  by (auto simp: park_reader_def park_writer_def on_deadline_def quiet_queues split: option.split pipe_end.split)

lemma park_sched [simp]:
  "ps_sched (park_reader h t s) = ps_sched s" "ps_sched (park_writer h t s) = ps_sched s" "ps_sched (on_deadline h t e s) = ps_sched s"
  by (auto simp: park_reader_def park_writer_def on_deadline_def split: option.split)

lemma quiet_task_update:
  assumes "quiet Tau s s1" "ps_sched s1 = ps_sched s"
    "\<And>i. map_option t_pipe_handles (bt_get (sc_tasks sc) i) = map_option t_pipe_handles (task_of s i)"
  shows "quiet Tau s (s1\<lparr>ps_sched := sc\<rparr>)"
proof (rule quiet_then_sched [OF assms(1)])
  show "handles_of (s1\<lparr>ps_sched := sc\<rparr>) = handles_of s1"
    by (simp add: fun_eq_iff handles_of_map assms(2,3))
qed simp_all

lemma quiet_read_park: "pipe_read_park t h d s = (r, s') \<Longrightarrow> quiet Tau s s'"
  by (auto simp: pipe_read_park_def Let_def split: option.splits intro!: quiet_task_update [OF quiet_park(1)])

lemma quiet_write_park: "pipe_write_park t h d s = (r, s') \<Longrightarrow> quiet Tau s s'"
  by (auto simp: pipe_write_park_def Let_def split: option.splits intro!: quiet_task_update [OF quiet_park(2)])

lemma quiet_sweep: "quiet Tau s (sweep_pipe_deadline t now s)"
  by (auto simp: sweep_pipe_deadline_def Let_def split: option.splits task_state.splits intro!: quiet_task_update [OF quiet_park(3)])

end
