(* ===== verification/Pipe_Ends.thy ===== *)
theory Pipe_Ends
  imports Pipe_World
begin

text \<open>
  The operations that create, duplicate and drop ends, and the two invariants of every run: the end
  counts of a pipe are the ends held, and its bytes are a queue.
\<close>

section \<open>Operations on ends\<close>

definition end_change :: "pipe_sys \<Rightarrow> (pipe_handle \<Rightarrow> nat) \<Rightarrow> pipe_sys \<Rightarrow> bool" where
  "end_change s c s' \<longleftrightarrow> pipes_ok s' \<and> end_count s' = c \<and> handles_of s' = handles_of s \<and> evolves Tau s s'"

lemma end_count_pipes: "ps_pipes s' = ps_pipes s \<Longrightarrow> end_count s' = end_count s"
  by (simp add: fun_eq_iff end_count_def pipe_of_def)

lemma end_count_put:
  "end_count (put_pipe h p s) = (\<lambda>g. if ph_pipe g = ph_pipe h then (case ph_end g of ReadEnd \<Rightarrow> pi_readers p | WriteEnd \<Rightarrow> pi_writers p)
     else end_count s g)"
  by (simp add: fun_eq_iff end_count_def pipe_of_def)

lemma handle_eq: "ph_pipe g = ph_pipe h \<Longrightarrow> ph_end g = ph_end h \<Longrightarrow> g = h"
  by (cases g; cases h) simp

lemma pipes_ok_get: "pipes_ok s \<Longrightarrow> pipe_of s h = Some p \<Longrightarrow> \<not> ends_gone p \<and> ph_pipe h < ps_next s \<and> ring_ok p"
  by (simp add: pipes_ok_def pipe_of_def)

lemma pipes_ok_put:
  "pipes_ok s \<Longrightarrow> \<not> ends_gone p \<Longrightarrow> ring_ok p \<Longrightarrow> ph_pipe h < ps_next s \<Longrightarrow> pipes_ok (put_pipe h p s)"
  by (auto simp: pipes_ok_def split: if_splits)

lemma evolves_same: "ps_next s \<le> ps_next s' \<Longrightarrow> ps_pipes s' = ps_pipes s \<Longrightarrow> evolves Tau s s'"
  by (auto simp: evolves_def)

lemma evolves_put:
  "pipe_of s h = Some p \<Longrightarrow> ring_contents p' = ring_contents p \<Longrightarrow> evolves Tau s (put_pipe h p' s)"
  by (auto simp: evolves_def pipe_of_def)

lemma duplicate_spec:
  assumes ok: "pipes_ok s" and c: "end_count s h < USIZE_MAX" and dup: "duplicate_end h s = (True, s')"
  shows "end_change s ((end_count s)(h := end_count s h + 1)) s'"
proof -
  from dup obtain p where p: "pipe_of s h = Some p"
    and s': "s' = put_pipe h (case ph_end h of ReadEnd \<Rightarrow> p\<lparr>pi_readers := min (pi_readers p + 1) USIZE_MAX\<rparr>
        | WriteEnd \<Rightarrow> p\<lparr>pi_writers := min (pi_writers p + 1) USIZE_MAX\<rparr>) s" (is "s' = put_pipe h ?p s")
    by (auto simp: duplicate_end_def split: option.splits)
  note g = pipes_ok_get [OF ok p]
  have "end_count s' = (end_count s)(h := end_count s h + 1)"
    using p c by (auto simp: s' end_count_put fun_eq_iff end_count_def pipe_of_def dest: handle_eq split: pipe_end.splits)
  moreover have "pipes_ok s'" unfolding s'
    by (rule pipes_ok_put [OF ok]) (use g in \<open>auto simp: ends_gone_def USIZE_MAX_def split: pipe_end.split\<close>)
  moreover have "evolves Tau s s'" unfolding s' by (rule evolves_put [OF p]) (simp split: pipe_end.split)
  ultimately show ?thesis by (simp add: end_change_def) (simp add: s')
qed

text \<open>Dropping an end: put back, or removed when it was the last.\<close>

definition settle :: "pipe_handle \<Rightarrow> pipe \<Rightarrow> pipe_sys \<Rightarrow> pipe_sys" where
  "settle h p s = (if ends_gone p then release_pipe p (s\<lparr>ps_pipes := bt_remove (ph_pipe h) (ps_pipes s)\<rparr>) else put_pipe h p s)"

lemma settle_spec:
  assumes ok: "pipes_ok s" and p: "pipe_of s h = Some p"
    and r: "pi_readers p' = pi_readers p - (if ph_end h = ReadEnd then 1 else 0)"
      "pi_writers p' = pi_writers p - (if ph_end h = WriteEnd then 1 else 0)"
    and c: "ring_contents p' = ring_contents p" "ring_ok p' = ring_ok p"
    and same: "ps_pipes s1 = ps_pipes s" "ps_next s1 = ps_next s" "handles_of s1 = handles_of s"
  shows "end_change s ((end_count s)(h := end_count s h - 1)) (settle h p' s1)"
proof -
  have p1: "pipe_of s1 h = Some p" and e1: "end_count s1 = end_count s" and ok1: "pipes_ok s1"
    using p same(1,2) ok end_count_pipes [OF same(1)] by (simp_all add: pipe_of_def pipes_ok_def)
  note g = pipes_ok_get [OF ok p]
  have pos: "(case ph_end h of ReadEnd \<Rightarrow> pi_readers p | WriteEnd \<Rightarrow> pi_writers p) = end_count s h"
    using p by (simp add: end_count_def)
  show ?thesis
  proof (cases "ends_gone p'")
    case True
    then have "end_count (settle h p' s1) = (end_count s)(h := end_count s h - 1)"
      using p p1 r pos unfolding settle_def
      by (auto simp: fun_eq_iff end_count_def pipe_of_def release_pipe_def ends_gone_def same(1) dest: handle_eq
          split: pipe_end.splits if_splits option.splits)
    moreover have "pipes_ok (settle h p' s1)" using True ok1
      by (auto simp: settle_def release_pipe_def pipes_ok_def split: if_splits)
    moreover have "evolves Tau s (settle h p' s1)" using True same
      by (auto simp: settle_def release_pipe_def evolves_def split: if_splits)
    moreover have "handles_of (settle h p' s1) = handles_of s" using True same(3)
      by (simp add: settle_def release_pipe_def handles_of_def fun_eq_iff)
    ultimately show ?thesis by (simp add: end_change_def)
  next
    case False
    then have s: "settle h p' s1 = put_pipe h p' s1" by (simp add: settle_def)
    have "end_count (put_pipe h p' s1) = (end_count s)(h := end_count s h - 1)"
      using p p1 r pos unfolding end_count_put e1
      by (auto simp: fun_eq_iff end_count_def pipe_of_def dest: handle_eq split: pipe_end.splits)
    moreover have "pipes_ok (put_pipe h p' s1)" by (rule pipes_ok_put [OF ok1 False]) (use g c same in auto)
    moreover have "evolves Tau s (put_pipe h p' s1)"
      using p same c by (auto simp: evolves_def pipe_of_def)
    ultimately show ?thesis using same(3) by (simp add: end_change_def s)
  qed
qed

lemma end_count_pipe: "0 < end_count s h \<Longrightarrow> \<exists>p. pipe_of s h = Some p"
  by (auto simp: end_count_def split: option.splits)

lemma end_change_refl: "pipes_ok s \<Longrightarrow> end_count s h = 0 \<Longrightarrow> end_change s ((end_count s)(h := end_count s h - 1)) s"
  by (simp add: end_change_def evolves_same fun_upd_idem)

lemma close_spec:
  assumes ok: "pipes_ok s"
  shows "end_change s ((end_count s)(h := end_count s h - 1)) (snd (close_end h t s))"
proof (cases "pipe_of s h")
  case None
  then show ?thesis using end_change_refl [OF ok, of h] by (simp add: close_end_def end_count_def)
next
  case (Some p)
  have "snd (close_end h t s) = settle h (drop_end (ph_end h) t p) s"
    using Some by (simp add: close_end_def settle_def Let_def)
  moreover have "end_change s ((end_count s)(h := end_count s h - 1)) (settle h (drop_end (ph_end h) t p) s)"
    by (rule settle_spec [OF ok Some]) (auto simp: drop_end_def split: pipe_end.split)
  ultimately show ?thesis by simp
qed

lemma session_close_some:
  assumes "0 < end_count s h"
  shows "session_close h s \<noteq> None"
  using assms end_count_pipe [OF assms] by (auto simp: session_close_def end_count_def Let_def)

lemma session_close_spec:
  assumes ok: "pipes_ok s" and run: "session_close h s = Some (b, s')"
  shows "end_change s ((end_count s)(h := end_count s h - 1)) s'"
proof (cases "pipe_of s h")
  case None
  then show ?thesis using end_change_refl [OF ok, of h] run by (simp add: session_close_def end_count_def)
next
  case (Some p)
  let ?p1 = "case ph_end h of ReadEnd \<Rightarrow> p\<lparr>pi_readers := pi_readers p - 1\<rparr> | WriteEnd \<Rightarrow> p\<lparr>pi_writers := pi_writers p - 1\<rparr>"
  let ?woken = "pi_readers ?p1 = 0 \<or> pi_writers ?p1 = 0"
  let ?s1 = "if ?woken then session_wakes (pi_read_waiters ?p1 @ pi_write_waiters ?p1) s else s"
  let ?p2 = "if ?woken then ?p1\<lparr>pi_read_waiters := [], pi_write_waiters := []\<rparr> else ?p1"
  have ne: "(case ph_end h of ReadEnd \<Rightarrow> pi_readers p | WriteEnd \<Rightarrow> pi_writers p) \<noteq> 0"
  proof
    assume "(case ph_end h of ReadEnd \<Rightarrow> pi_readers p | WriteEnd \<Rightarrow> pi_writers p) = 0"
    then have "session_close h s = None" by (simp add: session_close_def Some)
    with run show False by simp
  qed
  have "session_close h s = Some (pi_readers ?p1 = 0, settle h ?p2 ?s1)"
    using Some ne by (simp only: session_close_def option.case Let_def if_False settle_def)
  then have "s' = settle h ?p2 ?s1" using run by simp
  moreover have "end_change s ((end_count s)(h := end_count s h - 1)) (settle h ?p2 ?s1)"
    by (rule settle_spec [OF ok Some]) (auto split: pipe_end.split)
  ultimately show ?thesis by simp
qed

lemma create_spec:
  assumes ok: "pipes_ok s" and n: "ps_next s < USIZE_MAX" and cr: "pipe_create cap owner g s = (Ok (r, w), s')"
  shows "end_count s r = 0 \<and> end_count s w = 0 \<and> r \<noteq> w \<and> ph_pipe r = ps_next s \<and> ph_pipe w = ps_next s
    \<and> end_change s ((end_count s)(r := 1, w := 1)) s'"
proof -
  define pb where "pb = \<lparr>pi_buffer = replicate (ring_capacity cap) 0, pi_head = 0, pi_len = 0, pi_readers = 1, pi_writers = 1,
    pi_read_waiters = [], pi_write_waiters = [], pi_owner_cell = owner\<rparr>"
  have pb: "pi_readers pb = 1" "pi_writers pb = 1" "pi_len pb = 0" "pi_head pb = 0" "0 < length (pi_buffer pb)"
    by (simp_all add: pb_def ring_capacity_def DEFAULT_CAPACITY_def MIN_CAPACITY_def max_def)
  have rw: "r = PipeHandle (ps_next s) ReadEnd" "w = PipeHandle (ps_next s) WriteEnd" and
    s': "s' = s\<lparr>ps_quota := snd (charge owner (of_nat (ring_capacity cap)) (ps_quota s)),
      ps_next := min (ps_next s + 1) USIZE_MAX, ps_pipes := bt_insert (ps_next s) pb (ps_pipes s)\<rparr>"
    using cr by (auto simp: pipe_create_def next_pipe_id_def Let_def pb_def split: prod.splits if_splits)
  have fresh: "bt_get (ps_pipes s) (ps_next s) = None"
    using ok by (cases "bt_get (ps_pipes s) (ps_next s)") (auto simp: pipes_ok_def)
  then have "end_count s r = 0" "end_count s w = 0" by (simp_all add: end_count_def pipe_of_def rw)
  moreover have "end_count s' = (end_count s)(r := 1, w := 1)"
    using fresh pb by (auto simp: fun_eq_iff end_count_def pipe_of_def rw s' split: pipe_end.split dest: handle_eq)
      (metis pipe_handle.collapse pipe_end.exhaust)+
  moreover have "pipes_ok s'"
    using ok n pb by (auto simp: pipes_ok_def s' ends_gone_def ring_ok_def intro: less_SucI split: if_splits)
  moreover have "evolves Tau s s'" using n pb by (auto simp: evolves_def s' ring_contents_def)
  moreover have "handles_of s' = handles_of s" by (simp add: handles_of_def fun_eq_iff s')
  ultimately show ?thesis by (simp add: end_change_def rw)
qed

lemma create_failed:
  assumes "pipe_create cap owner g s = (Err e, s')"
  shows "quiet Tau s s'"
proof -
  have "ps_pipes s' = ps_pipes s" "ps_next s' = ps_next s" "ps_sched s' = ps_sched s"
    using assms by (auto simp: pipe_create_def next_pipe_id_def Let_def split: prod.splits if_splits)
  then show ?thesis by (intro quiet_sched) (simp_all add: handles_of_def fun_eq_iff)
qed

section \<open>Teardown\<close>

text \<open>The same counts on a bare pipe table.\<close>

definition table_count :: "(usize, pipe) btree \<Rightarrow> pipe_handle \<Rightarrow> nat" where
  "table_count m h =
     (case bt_get m (ph_pipe h) of None \<Rightarrow> 0 | Some p \<Rightarrow> (case ph_end h of ReadEnd \<Rightarrow> pi_readers p | WriteEnd \<Rightarrow> pi_writers p))"

lemma table_count_insert:
  "table_count (bt_insert (ph_pipe h) p m) = (\<lambda>g. if ph_pipe g = ph_pipe h
     then (case ph_end g of ReadEnd \<Rightarrow> pi_readers p | WriteEnd \<Rightarrow> pi_writers p) else table_count m g)"
  by (simp add: fun_eq_iff table_count_def)

text \<open>A pipe table derived from another by changing counts and queues only.\<close>

definition table_same :: "(usize, pipe) btree \<Rightarrow> (usize, pipe) btree \<Rightarrow> bool" where
  "table_same m m' \<longleftrightarrow> (bt_wf m \<longrightarrow> bt_wf m') \<and> (\<forall>n p'. bt_get m' n = Some p' \<longrightarrow>
     (\<exists>p. bt_get m n = Some p \<and> ring_contents p' = ring_contents p \<and> ring_ok p' = ring_ok p))"

lemma table_same_refl [simp]: "table_same m m"
  by (auto simp: table_same_def)

lemma table_same_trans: "table_same a b \<Longrightarrow> table_same b c \<Longrightarrow> table_same a c"
  unfolding table_same_def by metis

lemma table_same_insert:
  "bt_get m n = Some p \<Longrightarrow> ring_contents p' = ring_contents p \<Longrightarrow> ring_ok p' = ring_ok p \<Longrightarrow> table_same m (bt_insert n p' m)"
  by (auto simp: table_same_def)

text \<open>One handle of a leaving task.\<close>

lemma leave_one:
  "\<exists>ws m'. leave_loop t (h # hs) wk m = leave_loop t hs ws m'
     \<and> table_count m' = (table_count m)(h := table_count m h - 1) \<and> table_same m m'"
proof (cases "bt_get m (ph_pipe h)")
  case None
  then show ?thesis by (intro exI [of _ wk] exI [of _ m]) (auto simp: table_count_def fun_eq_iff)
next
  case (Some p)
  let ?p = "drop_end (ph_end h) t p"
  have keep: ?thesis if "leave_loop t (h # hs) wk m = leave_loop t hs ws (bt_insert (ph_pipe h) q m)"
    "pi_readers q = pi_readers ?p" "pi_writers q = pi_writers ?p" "ring_contents q = ring_contents p" "ring_ok q = ring_ok p" for q ws
  proof (intro exI conjI, rule that(1))
    show "table_count (bt_insert (ph_pipe h) q m) = (table_count m)(h := table_count m h - 1)"
      using Some by (auto simp: table_count_insert fun_eq_iff table_count_def that(2,3) drop_end_def
          dest: handle_eq split: pipe_end.splits)
    show "table_same m (bt_insert (ph_pipe h) q m)" by (rule table_same_insert [OF Some that(4,5)])
  qed
  have ring: "ring_contents ?p = ring_contents p" "ring_ok ?p = ring_ok p" by (simp_all add: drop_end_def split: pipe_end.split)
  show ?thesis
  proof (cases "ph_end h")
    case ReadEnd
    then show ?thesis using keep [of wk ?p] keep [of "wk @ pi_write_waiters ?p" "?p\<lparr>pi_write_waiters := []\<rparr>"] Some ring
      by (cases "pi_readers ?p = 0") (simp_all add: Let_def)
  next
    case WriteEnd
    then show ?thesis using keep [of wk ?p] keep [of "wk @ pi_read_waiters ?p" "?p\<lparr>pi_read_waiters := []\<rparr>"] Some ring
      by (cases "pi_writers ?p = 0") (simp_all add: Let_def)
  qed
qed

lemma leave_loop_spec:
  assumes "distinct hs" "leave_loop t hs wk m = (wk', m')"
  shows "table_count m' = (\<lambda>h. if h \<in> set hs then table_count m h - 1 else table_count m h) \<and> table_same m m'"
  using assms
proof (induction hs arbitrary: wk m)
  case (Cons h hs)
  obtain m1 ws where one: "leave_loop t (h # hs) wk m = leave_loop t hs ws m1"
    "table_count m1 = (table_count m)(h := table_count m h - 1)" "table_same m m1"
    using leave_one [of t h hs wk m] by blast
  then have "table_count m' = (\<lambda>g. if g \<in> set hs then table_count m1 g - 1 else table_count m1 g)" "table_same m1 m'"
    using Cons.IH [of ws m1] Cons.prems by auto
  then show ?case using Cons.prems(1) one(2,3) by (auto simp: fun_eq_iff intro: table_same_trans)
qed simp

lemma fold_remove_get:
  "bt_get (fold (\<lambda>(n, p). bt_remove n) ds m) k = (if k \<in> fst ` set ds then None else bt_get m k)"
  by (induction ds arbitrary: m) (auto simp: rev_image_eqI)

lemma fold_remove_wf: "bt_wf m \<Longrightarrow> bt_wf (fold (\<lambda>(n, p). bt_remove n) ds m)"
  by (induction ds arbitrary: m) auto

lemma fold_release [simp]:
  "ps_pipes (fold (\<lambda>(n, p). release_pipe p) ds s) = ps_pipes s" "ps_next (fold (\<lambda>(n, p). release_pipe p) ds s) = ps_next s"
  "ps_sched (fold (\<lambda>(n, p). release_pipe p) ds s) = ps_sched s"
  by (induction ds arbitrary: s) (auto simp: release_pipe_def)

lemma leaves_spec:
  assumes ok: "pipes_ok s" and d: "distinct owned" and run: "on_task_leaves t owned s = (wk, s')"
  shows "end_change s (\<lambda>h. if h \<in> set owned then end_count s h - 1 else end_count s h) s' \<and> ps_sched s' = ps_sched s"
proof -
  obtain wk1 m where loop: "leave_loop t owned [] (ps_pipes s) = (wk1, m)" by (rule prod.exhaust)
  define dead where "dead = filter (\<lambda>(n, p). ends_gone p) m"
  have pipes: "ps_pipes s' = fold (\<lambda>(n, p). bt_remove n) dead m" and other: "ps_next s' = ps_next s" "ps_sched s' = ps_sched s"
    using run loop by (auto simp: on_task_leaves_def Let_def dead_def)
  note spec = leave_loop_spec [OF d loop]
  have wf: "bt_wf m" using ok spec by (simp add: pipes_ok_def table_same_def)
  have get: "bt_get (ps_pipes s') n = (case bt_get m n of None \<Rightarrow> None | Some p \<Rightarrow> if ends_gone p then None else Some p)" for n
    using bt_mem_get [OF wf] unfolding pipes fold_remove_get
    by (auto simp: dead_def image_iff split: option.split)
  have "end_count s' h = table_count m h" for h
    by (auto simp: end_count_def pipe_of_def get table_count_def ends_gone_def split: option.split pipe_end.split)
  moreover have "end_count s = table_count (ps_pipes s)" by (simp add: fun_eq_iff end_count_def table_count_def pipe_of_def)
  ultimately have "end_count s' = (\<lambda>h. if h \<in> set owned then end_count s h - 1 else end_count s h)" using spec by auto
  moreover have old: "\<exists>p. bt_get (ps_pipes s) n = Some p \<and> ring_contents p' = ring_contents p \<and> ring_ok p' = ring_ok p \<and> \<not> ends_gone p'"
    if "bt_get (ps_pipes s') n = Some p'" for n p'
    using that spec unfolding get table_same_def by (auto split: option.splits if_splits)
  then have "pipes_ok s'" using ok other fold_remove_wf [OF wf] unfolding pipes_ok_def by (metis pipes)
  moreover have "evolves Tau s s'" using old other by (fastforce simp: evolves_def)
  moreover have "handles_of s' = handles_of s" using other by (simp add: fun_eq_iff handles_of_def)
  ultimately show ?thesis using other by (simp add: end_change_def)
qed

end
