(* ===== verification/Pipe_Inv.thy ===== *)
theory Pipe_Inv
  imports Pipe_Ends
begin

text \<open>The invariants of a run of the pipes.\<close>

section \<open>Ends are counted\<close>

lemma handle_task: "h \<in> set (handles_of s t) \<Longrightarrow> task_of s t \<noteq> None"
  by (cases "task_of s t") (auto simp: handles_of_def)

lemma finite_holders [simp]: "finite (holders s h)"
proof (rule finite_subset)
  show "holders s h \<subseteq> dom (task_of s)" using handle_task by (auto simp: holders_def)
qed (rule finite_dom_map_of)

lemma holders_cong: "handles_of s' = handles_of s \<Longrightarrow> holders s' = holders s"
  by (simp add: fun_eq_iff holders_def)

lemma handles_set_handles:
  "task_of s t \<noteq> None \<Longrightarrow> handles_of (set_handles t f s) = (handles_of s)(t := f (handles_of s t))"
  by (auto simp: fun_eq_iff handles_of_def set_handles_def)

lemma set_handles_sel [simp]: "ps_pipes (set_handles t f s) = ps_pipes s" "ps_next (set_handles t f s) = ps_next s"
  by (simp_all add: set_handles_def split: option.split)

lemma set_handles_end_count [simp]: "end_count (set_handles t f s) = end_count s" "pipes_ok (set_handles t f s) = pipes_ok s"
  by (rule end_count_pipes, simp) (simp add: pipes_ok_def)

lemma inv_change:
  assumes inv: "pipe_inv w" and ch: "end_change (pw_sys w) c (pw_sys w')"
    and c: "\<And>h. ph_pipe h \<notin> pw_damaged w' \<Longrightarrow> c h = card (holders (pw_sys w) h) + tied w' h"
    and new: "\<And>h. h \<in># pw_new w' \<Longrightarrow> count (pw_new w') h = 1 \<and> holders (pw_sys w) h = {}"
    and ids: "ids_old w' (ps_next (pw_sys w'))"
  shows "pipe_inv w'"
proof -
  have h: "handles_of (pw_sys w') = handles_of (pw_sys w)" using ch by (simp add: end_change_def)
  have "\<forall>t. distinct (handles_of (pw_sys w) t)" using inv by (simp add: pipe_inv_def)
  then show ?thesis
    using ch new c ids unfolding pipe_inv_def end_change_def held_def holders_cong [OF h] h by simp
qed

lemma new_shrinks:
  assumes "pipe_inv w" "h \<in># pw_new w - {#g#}"
  shows "count (pw_new w - {#g#}) h = 1 \<and> holders (pw_sys w) h = {}"
proof -
  have m: "h \<in># pw_new w" using assms(2) by (rule in_diffD)
  then have c: "count (pw_new w) h = 1" "holders (pw_sys w) h = {}" using assms(1) by (auto simp: pipe_inv_def)
  have "0 < count (pw_new w - {#g#}) h" using assms(2) by (simp only: count_greater_zero_iff)
  then show ?thesis using c by (cases "h = g") auto
qed

lemma inv_new: "pipe_inv w \<Longrightarrow> h \<in># pw_new w \<Longrightarrow> count (pw_new w) h = 1 \<and> holders (pw_sys w) h = {}"
  by (simp add: pipe_inv_def)

lemma inv_end_count:
  "pipe_inv w \<Longrightarrow> ph_pipe h \<notin> pw_damaged w \<Longrightarrow> end_count (pw_sys w) h = card (holders (pw_sys w) h) + tied w h"
  by (simp add: pipe_inv_def held_def)

lemma inv_ok: "pipe_inv w \<Longrightarrow> pipes_ok (pw_sys w)"
  by (simp add: pipe_inv_def)

lemma inv_distinct: "pipe_inv w \<Longrightarrow> distinct (handles_of (pw_sys w) t)"
  by (simp add: pipe_inv_def)

lemma inv_ids: "pipe_inv w \<Longrightarrow> ids_old w (ps_next (pw_sys w))"
  by (simp add: pipe_inv_def)

lemma ids_old_mono: "ids_old w n \<Longrightarrow> n \<le> m \<Longrightarrow> ids_old w m"
  by (auto simp: ids_old_def)

text \<open>The invariant of a world whose pending and damaged pipes are those of another.\<close>

lemma ids_old_cong:
  "pw_damaged w' = pw_damaged w \<Longrightarrow> pw_stray w' = pw_stray w \<Longrightarrow> pw_zero w' = pw_zero w \<Longrightarrow> ids_old w' n = ids_old w n"
  by (simp add: ids_old_def)

lemma inv_ids_change:
  assumes "pipe_inv w" "evolves e (pw_sys w) s"
    and "pw_damaged w' = pw_damaged w" "pw_stray w' = pw_stray w" "pw_zero w' = pw_zero w"
  shows "ids_old w' (ps_next s)"
  using ids_old_mono [OF inv_ids [OF assms(1)]] assms(2) unfolding ids_old_cong [OF assms(3-5)] by (simp add: evolves_def)

lemma end_change_evolves: "end_change s c s' \<Longrightarrow> evolves Tau s s'"
  by (simp add: end_change_def)

lemma end_change_quiet:
  assumes "pipes_ok s" "quiet e s s'"
  shows "pipes_ok s' \<and> end_count s' = end_count s \<and> handles_of s' = handles_of s"
proof -
  note q = quietD [OF assms(2)]
  have old: "\<exists>p. bt_get (ps_pipes s) n = Some p \<and> pi_readers p' = pi_readers p \<and> pi_writers p' = pi_writers p \<and> (ring_ok p \<longrightarrow> ring_ok p')"
    if "bt_get (ps_pipes s') n = Some p'" for n p'
    using q(4,5) [of n] that by (cases "bt_get (ps_pipes s) n") auto
  have "pipes_ok s'" using assms(1) q(1,3) old unfolding pipes_ok_def ends_gone_def by metis
  moreover have "end_count s' h = end_count s h" for h
    using q(4,5) [of "ph_pipe h"] unfolding end_count_def pipe_of_def
    by (cases "bt_get (ps_pipes s) (ph_pipe h)") (auto split: pipe_end.split)
  ultimately show ?thesis using q(2) by auto
qed

lemma inv_quiet:
  assumes inv: "pipe_inv w" and q: "quiet e (pw_sys w) s"
  shows "pipe_inv (w\<lparr>pw_sys := s, pw_waking := wk\<rparr>)" "pipe_inv (w\<lparr>pw_sys := s\<rparr>)"
proof -
  note same = end_change_quiet [OF inv_ok [OF inv] q]
  have "holders s = holders (pw_sys w)" using same holders_cong by blast
  with same inv quietD(1) [OF q] show "pipe_inv (w\<lparr>pw_sys := s, pw_waking := wk\<rparr>)" "pipe_inv (w\<lparr>pw_sys := s\<rparr>)"
    by (simp_all add: pipe_inv_def held_def tied_def ids_old_def)
qed

lemma holders_insert:
  "task_of s t \<noteq> None \<Longrightarrow> holders (set_handles t (bs_insert h) s) g = (if g = h then insert t (holders s g) else holders s g)"
  by (auto simp: holders_def handles_set_handles)

lemma holders_filter:
  "task_of s t \<noteq> None \<Longrightarrow> holders (set_handles t (filter (\<lambda>x. x \<noteq> h)) s) g = (if g = h then holders s g - {t} else holders s g)"
  by (auto simp: holders_def handles_set_handles)

text \<open>A change of the task tables alone.\<close>

lemma inv_tables:
  assumes inv: "pipe_inv w" and same: "ps_pipes s = ps_pipes (pw_sys w)" "ps_next s = ps_next (pw_sys w)" and w': "pw_sys w' = s"
    and sum: "\<And>g. card (holders (pw_sys w) g) + tied w g = card (holders s g) + tied w' g"
    and new: "\<And>g. g \<in># pw_new w' \<Longrightarrow> count (pw_new w') g = 1 \<and> holders s g = {}"
    and d: "\<And>i. distinct (handles_of s i)"
    and ids: "pw_damaged w' = pw_damaged w" "ids_old w' (ps_next s)"
  shows "pipe_inv w'"
proof -
  have e: "end_count s = end_count (pw_sys w)" "pipes_ok s = pipes_ok (pw_sys w)"
    by (rule end_count_pipes [OF same(1)]) (simp add: pipes_ok_def same)
  then show ?thesis
    using inv_end_count [OF inv] inv_ok [OF inv] sum new d ids unfolding pipe_inv_def held_def w' by simp
qed

lemma inv_install:
  assumes inv: "pipe_inv w" and h: "h \<in># pw_new w" and t: "task_of (pw_sys w) t \<noteq> None"
  shows "pipe_inv (w\<lparr>pw_sys := set_handles t (bs_insert h) (pw_sys w), pw_new := pw_new w - {#h#}\<rparr>)"
proof (rule inv_tables [OF inv])
  let ?s = "set_handles t (bs_insert h) (pw_sys w)" let ?w = "w\<lparr>pw_sys := ?s, pw_new := pw_new w - {#h#}\<rparr>"
  have new: "count (pw_new w) h = 1" "holders (pw_sys w) h = {}" using inv_new [OF inv h] by auto
  have fresh: "count (pw_new w - {#h#}) h = 0" using new by simp
  show "card (holders (pw_sys w) g) + tied w g = card (holders ?s g) + tied ?w g" for g
    using new unfolding holders_insert [OF t] tied_def by (cases "g = h") auto
  show "count (pw_new ?w) g = 1 \<and> holders ?s g = {}" if g: "g \<in># pw_new ?w" for g
  proof -
    have g': "g \<in># pw_new w - {#h#}" using g by simp
    have "g \<noteq> h" using g' fresh by (metis count_greater_zero_iff less_irrefl)
    then show ?thesis using new_shrinks [OF inv g'] unfolding holders_insert [OF t] by simp
  qed
  show "distinct (handles_of ?s i)" for i using inv_distinct [OF inv] t by (simp add: handles_set_handles)
  show "ids_old ?w (ps_next ?s)" using inv_ids [OF inv] by (simp add: ids_old_def)
qed simp_all

lemma inv_take:
  assumes inv: "pipe_inv w" and h: "h \<in> set (handles_of (pw_sys w) t)"
    and w': "pw_sys w' = set_handles t (filter (\<lambda>x. x \<noteq> h)) (pw_sys w)" "pw_closing w' = add_mset h (pw_closing w)"
      "pw_new w' = pw_new w" "pw_session w' = pw_session w" "pw_leaked w' = pw_leaked w" "pw_damaged w' = pw_damaged w"
    and ids: "ids_old w' (ps_next (pw_sys w))"
  shows "pipe_inv w'"
proof (rule inv_tables [OF inv _ _ w'(1)])
  let ?s = "set_handles t (filter (\<lambda>x. x \<noteq> h)) (pw_sys w)"
  have t: "task_of (pw_sys w) t \<noteq> None" using h by (rule handle_task)
  have mem: "t \<in> holders (pw_sys w) h" using h by (simp add: holders_def)
  then have card: "card (holders (pw_sys w) h) = Suc (card (holders (pw_sys w) h - {t}))"
    by (rule card.remove [OF finite_holders])
  show "card (holders (pw_sys w) g) + tied w g = card (holders ?s g) + tied w' g" for g
    using card unfolding holders_filter [OF t] tied_def w' by (cases "g = h") auto
  show "count (pw_new w') g = 1 \<and> holders ?s g = {}" if "g \<in># pw_new w'" for g
    using inv_new [OF inv] that unfolding holders_filter [OF t] w' by auto
  show "distinct (handles_of ?s i)" for i using inv_distinct [OF inv] t by (simp add: handles_set_handles)
qed (use w' ids in simp_all)

lemma inv_share:
  assumes inv: "pipe_inv w" and c: "\<forall>h. end_count (pw_sys w) h < USIZE_MAX"
    and sh: "sys_pipe_share t raw target (pw_sys w) = (r, s)"
  shows "pipe_inv (w\<lparr>pw_sys := s\<rparr>) \<and> evolves Tau (pw_sys w) s"
proof (cases "s = pw_sys w")
  case True
  then show ?thesis using inv by (simp add: evolves_same)
next
  case False
  let ?s = "pw_sys w"
  obtain h s1 where h: "h \<in> set (handles_of ?s t)" "h \<notin> set (handles_of ?s target)" "task_of ?s target \<noteq> None"
    and dup: "duplicate_end h ?s = (True, s1)" and s: "s = set_handles target (bs_insert h) s1"
    using sh False by (auto simp: sys_pipe_share_def caller_owns_pipe_def duplicate_end_def split: option.splits if_splits prod.splits bool.splits)
  note ch = duplicate_spec [OF inv_ok [OF inv] c [rule_format] dup]
  have hs: "handles_of s1 = handles_of ?s" using ch by (simp add: end_change_def)
  have t1: "task_of s1 target \<noteq> None"
    using h(3) dup by (auto simp: duplicate_end_def split: option.splits)
  note hold = holders_insert [OF t1] holders_cong [OF hs]
  have nm: "target \<notin> holders ?s h" using h(2) by (simp add: holders_def)
  have ev: "evolves Tau ?s s" using ch by (simp add: end_change_def evolves_def s)
  have "end_count s1 g = card (holders s g) + tied w g" if "ph_pipe g \<notin> pw_damaged w" for g
    using ch inv_end_count [OF inv that] card_insert_disjoint [OF finite_holders nm] unfolding s hold end_change_def
    by (cases "g = h") auto
  moreover have "count (pw_new w) g = 1 \<and> holders s g = {}" if "g \<in># pw_new w" for g
    using inv_new [OF inv that] h(1) unfolding s hold by (auto simp: holders_def)
  moreover have "distinct (handles_of s i)" for i
    using inv_distinct [OF inv] t1 by (simp add: s handles_set_handles hs)
  moreover have "ids_old (w\<lparr>pw_sys := s\<rparr>) (ps_next s)" by (rule inv_ids_change [OF inv ev]) simp_all
  ultimately have "pipe_inv (w\<lparr>pw_sys := s\<rparr>)"
    using ch by (simp add: pipe_inv_def held_def tied_def end_change_def s)
  with ev show ?thesis by simp
qed

lemma teardown_cases:
  assumes inv: "pipe_inv w" and td: "teardown_pipes t (pw_sys w) = Some s" and ne: "handles_of (pw_sys w) t \<noteq> []"
  obtains s1 where "on_task_leaves t (handles_of (pw_sys w) t) (pw_sys w) = ([], s1)"
    "ps_pipes s = ps_pipes s1" "ps_next s = ps_next s1" "handles_of s = (handles_of (pw_sys w))(t := [])"
proof -
  let ?s = "pw_sys w" let ?owned = "handles_of ?s t"
  obtain tc where tc: "task_of ?s t = Some tc" using ne by (auto simp: handles_of_def split: option.splits)
  obtain wk s1 where r: "on_task_leaves t ?owned ?s = (wk, s1)" by (rule prod.exhaust)
  have sc: "ps_sched s1 = ps_sched ?s" using leaves_spec [OF inv_ok [OF inv] inv_distinct [OF inv] r] by simp
  have ow: "?owned = t_pipe_handles tc" by (simp add: handles_of_def tc)
  have "wk = []" "s = s1\<lparr>ps_sched := put_task t (tc\<lparr>t_pipe_handles := []\<rparr>) (ps_sched s1)\<rparr>"
    using td ne r sc unfolding ow by (simp_all add: teardown_pipes_def Let_def tc split: if_splits)
  with r sc tc that [of s1] show thesis by (auto simp: handles_of_def fun_eq_iff)
qed

lemma inv_teardown:
  assumes inv: "pipe_inv w" and td: "teardown_pipes t (pw_sys w) = Some s"
  shows "pipe_inv (w\<lparr>pw_sys := s\<rparr>) \<and> evolves Tau (pw_sys w) s"
proof (cases "handles_of (pw_sys w) t = []")
  case True
  have owned: "(case task_of (pw_sys w) t of None \<Rightarrow> [] | Some tc \<Rightarrow> t_pipe_handles tc) = handles_of (pw_sys w) t"
    by (simp only: handles_of_def)
  have "s = pw_sys w" using td True by (simp add: teardown_pipes_def owned Let_def)
  then show ?thesis using inv by (simp add: evolves_same)
next
  case False
  let ?s = "pw_sys w" let ?owned = "handles_of ?s t"
  obtain s1 where run: "on_task_leaves t ?owned ?s = ([], s1)" and same: "ps_pipes s = ps_pipes s1" "ps_next s = ps_next s1"
    and hs: "handles_of s = (handles_of ?s)(t := [])" by (rule teardown_cases [OF inv td False])
  note ch = leaves_spec [OF inv_ok [OF inv] inv_distinct [OF inv] run]
  have ends: "end_count s = end_count s1" "pipes_ok s = pipes_ok s1"
    by (rule end_count_pipes [OF same(1)]) (simp add: same pipes_ok_def)
  have hold: "holders s g = holders ?s g - {t}" for g using hs by (auto simp: holders_def)
  have card: "card (holders ?s g - {t}) = (if g \<in> set ?owned then card (holders ?s g) - 1 else card (holders ?s g))" for g
    by (auto simp: card_Diff_singleton_if holders_def)
  have pos: "0 < card (holders ?s g)" if "g \<in> set ?owned" for g
  proof -
    have "t \<in> holders ?s g" using that by (simp add: holders_def)
    then show ?thesis by (auto simp: card_gt_0_iff)
  qed
  have ev: "evolves Tau ?s s" using ch by (simp add: end_change_def evolves_def same)
  have "end_count s g = card (holders s g) + tied w g" if "ph_pipe g \<notin> pw_damaged w" for g
    using ch inv_end_count [OF inv that] pos [of g] unfolding hold card ends end_change_def by auto
  moreover have "count (pw_new w) g = 1 \<and> holders s g = {}" if "g \<in># pw_new w" for g
    using inv_new [OF inv that] by (simp add: hold)
  moreover have "distinct (handles_of s i)" for i using inv_distinct [OF inv] by (simp add: hs)
  moreover have "ids_old (w\<lparr>pw_sys := s\<rparr>) (ps_next s)" by (rule inv_ids_change [OF inv ev]) simp_all
  ultimately have "pipe_inv (w\<lparr>pw_sys := s\<rparr>)"
    using ch by (simp add: pipe_inv_def held_def tied_def end_change_def ends)
  with ev show ?thesis by simp
qed

section \<open>Every step\<close>

text \<open>One end less in the table, and one less outside the task tables.\<close>

lemma inv_drop:
  assumes inv: "pipe_inv w"
    and ch: "end_change (pw_sys w) ((end_count (pw_sys w))(h := end_count (pw_sys w) h - 1)) (pw_sys w')"
    and sum: "\<And>g. tied w g = tied w' g + (if g = h then 1 else 0)"
    and new: "\<And>g. g \<in># pw_new w' \<Longrightarrow> count (pw_new w') g = 1 \<and> holders (pw_sys w) g = {}"
    and ghosts: "pw_damaged w' = pw_damaged w" "pw_stray w' = pw_stray w" "pw_zero w' = pw_zero w"
  shows "pipe_inv w'"
proof (rule inv_change [OF inv ch _ new])
  show "((end_count (pw_sys w))(h := end_count (pw_sys w) h - 1)) g = card (holders (pw_sys w) g) + tied w' g"
    if "ph_pipe g \<notin> pw_damaged w'" for g
    using inv_end_count [OF inv, of g] that sum [of g] unfolding ghosts by (cases "g = h") auto
  show "ids_old w' (ps_next (pw_sys w'))" by (rule inv_ids_change [OF inv end_change_evolves [OF ch] ghosts])
qed

lemma inv_drops:
  assumes inv: "pipe_inv w" and ch: "end_change (pw_sys w) ((end_count (pw_sys w))(h := end_count (pw_sys w) h - 1)) s"
  shows "h \<in># pw_new w \<Longrightarrow> pipe_inv (w\<lparr>pw_sys := s, pw_new := pw_new w - {#h#}\<rparr>)"
    and "h \<in># pw_closing w \<Longrightarrow> pipe_inv (w\<lparr>pw_sys := s, pw_closing := pw_closing w - {#h#}\<rparr>)"
    and "h \<in># pw_session w \<Longrightarrow> pipe_inv (w\<lparr>pw_sys := s, pw_session := pw_session w - {#h#}\<rparr>)"
proof -
  show "pipe_inv (w\<lparr>pw_sys := s, pw_new := pw_new w - {#h#}\<rparr>)" if "h \<in># pw_new w"
  proof (rule inv_drop [OF inv, of h])
    show "tied w g = tied (w\<lparr>pw_sys := s, pw_new := pw_new w - {#h#}\<rparr>) g + (if g = h then 1 else 0)" for g
      using that by (cases "g = h") (simp_all add: tied_def flip: count_greater_zero_iff)
  qed (use ch new_shrinks [OF inv] in simp_all)
  show "pipe_inv (w\<lparr>pw_sys := s, pw_closing := pw_closing w - {#h#}\<rparr>)" if "h \<in># pw_closing w"
  proof (rule inv_drop [OF inv, of h])
    show "tied w g = tied (w\<lparr>pw_sys := s, pw_closing := pw_closing w - {#h#}\<rparr>) g + (if g = h then 1 else 0)" for g
      using that by (cases "g = h") (simp_all add: tied_def flip: count_greater_zero_iff)
  qed (use ch inv_new [OF inv] in simp_all)
  show "pipe_inv (w\<lparr>pw_sys := s, pw_session := pw_session w - {#h#}\<rparr>)" if "h \<in># pw_session w"
  proof (rule inv_drop [OF inv, of h])
    show "tied w g = tied (w\<lparr>pw_sys := s, pw_session := pw_session w - {#h#}\<rparr>) g + (if g = h then 1 else 0)" for g
      using that by (cases "g = h") (simp_all add: tied_def flip: count_greater_zero_iff)
  qed (use ch inv_new [OF inv] in simp_all)
qed

lemma held_positive:
  assumes "pipe_inv w" "ph_pipe h \<notin> pw_damaged w"
    and "h \<in># pw_new w \<or> h \<in># pw_closing w \<or> h \<in># pw_session w \<or> h \<in> set (handles_of (pw_sys w) t)"
  shows "0 < end_count (pw_sys w) h"
proof -
  have "0 < card (holders (pw_sys w) h)" if "h \<in> set (handles_of (pw_sys w) t)"
  proof -
    have "t \<in> holders (pw_sys w) h" using that by (simp add: holders_def)
    then show ?thesis by (auto simp: card_gt_0_iff)
  qed
  with assms(3) show ?thesis unfolding inv_end_count [OF assms(1,2)] tied_def by auto
qed

text \<open>An owned handle names a pipe that was created.\<close>

lemma owned_old:
  assumes inv: "pipe_inv w" and h: "h \<in> set (handles_of (pw_sys w) t)"
  shows "ph_pipe h < ps_next (pw_sys w)"
proof (cases "ph_pipe h \<in> pw_damaged w")
  case True
  then show ?thesis using inv_ids [OF inv] by (simp add: ids_old_def)
next
  case False
  obtain p where "pipe_of (pw_sys w) h = Some p" using held_positive [OF inv False] h end_count_pipe by blast
  then show ?thesis using pipes_ok_get [OF inv_ok [OF inv]] by blast
qed

lemma inv_create:
  assumes inv: "pipe_inv w" and n: "ps_next (pw_sys w) < USIZE_MAX" and cr: "pipe_create cap owner g (pw_sys w) = (Ok (r, wr), s)"
  shows "pipe_inv (w\<lparr>pw_sys := s, pw_new := add_mset r (add_mset wr (pw_new w))\<rparr>) \<and> evolves Tau (pw_sys w) s"
proof -
  note cs = create_spec [OF inv_ok [OF inv] n cr]
  let ?w = "w\<lparr>pw_sys := s, pw_new := add_mset r (add_mset wr (pw_new w))\<rparr>"
  have ch: "end_change (pw_sys w) ((end_count (pw_sys w))(r := 1, wr := 1)) s" using cs by simp
  have fresh: "ph_pipe r \<notin> pw_damaged w" "ph_pipe wr \<notin> pw_damaged w" using cs inv_ids [OF inv] by (auto simp: ids_old_def)
  have zero: "card (holders (pw_sys w) r) + tied w r = 0" "card (holders (pw_sys w) wr) + tied w wr = 0"
    using cs inv_end_count [OF inv fresh(1)] inv_end_count [OF inv fresh(2)] by simp_all
  have none: "count (pw_new w) r = 0" "count (pw_new w) wr = 0" "holders (pw_sys w) r = {}" "holders (pw_sys w) wr = {}"
    using zero by (auto simp: tied_def card_eq_0_iff)
  have tied: "tied ?w h = tied w h + (if h = r then 1 else 0) + (if h = wr then 1 else 0)" for h by (simp add: tied_def)
  have "pipe_inv ?w"
  proof (rule inv_change [OF inv, of "(end_count (pw_sys w))(r := 1, wr := 1)"])
    show "((end_count (pw_sys w))(r := 1, wr := 1)) h = card (holders (pw_sys w) h) + tied ?w h"
      if "ph_pipe h \<notin> pw_damaged ?w" for h
      unfolding tied using zero cs inv_end_count [OF inv, of h] that by auto
    show "count (pw_new ?w) h = 1 \<and> holders (pw_sys w) h = {}" if "h \<in># pw_new ?w" for h
      using that none inv_new [OF inv, of h] cs by auto
    show "ids_old ?w (ps_next (pw_sys ?w))" using inv_ids_change [OF inv end_change_evolves [OF ch], of ?w] by simp
  qed (use ch in simp)
  with ch show ?thesis by (simp add: end_change_def)
qed

lemma inv_session_dup:
  assumes inv: "pipe_inv w" and c: "end_count (pw_sys w) h < USIZE_MAX" and dup: "duplicate_end h (pw_sys w) = (True, s)"
  shows "pipe_inv (w\<lparr>pw_sys := s, pw_session := add_mset h (pw_session w)\<rparr>) \<and> evolves Tau (pw_sys w) s"
proof -
  note ch = duplicate_spec [OF inv_ok [OF inv] c dup]
  let ?w = "w\<lparr>pw_sys := s, pw_session := add_mset h (pw_session w)\<rparr>"
  have "pipe_inv ?w"
  proof (rule inv_change [OF inv, of "(end_count (pw_sys w))(h := end_count (pw_sys w) h + 1)"])
    show "((end_count (pw_sys w))(h := end_count (pw_sys w) h + 1)) g = card (holders (pw_sys w) g) + tied ?w g"
      if "ph_pipe g \<notin> pw_damaged ?w" for g
      using inv_end_count [OF inv, of g] that by (auto simp: tied_def)
    show "ids_old ?w (ps_next (pw_sys ?w))" using inv_ids_change [OF inv end_change_evolves [OF ch], of ?w] by simp
  qed (use ch inv_new [OF inv] in simp_all)
  with ch show ?thesis by (simp add: end_change_def)
qed

lemma inv_adopt:
  assumes inv: "pipe_inv w" and h: "h \<in># pw_new w"
  shows "pipe_inv (w\<lparr>pw_new := pw_new w - {#h#}, pw_session := add_mset h (pw_session w)\<rparr>)"
proof -
  have "held (w\<lparr>pw_new := pw_new w - {#h#}, pw_session := add_mset h (pw_session w)\<rparr>) g = held w g" for g
    using h by (cases "g = h") (simp_all add: held_def tied_def flip: count_greater_zero_iff)
  then show ?thesis using inv new_shrinks [OF inv] by (simp add: pipe_inv_def ids_old_def)
qed

text \<open>A zero-length write, and the close of an end that had already left its table.\<close>

lemma inv_zero_check:
  assumes inv: "pipe_inv w" and en: "pipe_write_enter t raw len (pw_sys w) = Ok (h, b)"
  shows "pipe_inv (w\<lparr>pw_zero := add_mset (t, h) (pw_zero w)\<rparr>)"
proof -
  have "h \<in> set (handles_of (pw_sys w) t)"
    using en by (auto simp: pipe_write_enter_def caller_owns_pipe_def split: option.splits if_splits)
  then show ?thesis using inv owned_old [OF inv] by (simp add: pipe_inv_def held_def tied_def ids_old_def)
qed

lemma handles_forget_absent: "h \<notin> set (handles_of s t) \<Longrightarrow> handles_of (pipe_write_forget t h s) = handles_of s"
  by (auto simp: pipe_write_forget_def set_handles_def handles_of_def fun_eq_iff filter_id_conv split: option.split)

lemma inv_zero_stray:
  assumes inv: "pipe_inv w" and z: "(t, h) \<in># pw_zero w" and h: "h \<notin> set (handles_of (pw_sys w) t)"
  shows "pipe_inv (w\<lparr>pw_sys := pipe_write_forget t h (pw_sys w), pw_zero := pw_zero w - {#(t, h)#}, pw_stray := add_mset h (pw_stray w)\<rparr>)"
proof -
  let ?s = "pipe_write_forget t h (pw_sys w)"
  let ?w = "w\<lparr>pw_sys := ?s, pw_zero := pw_zero w - {#(t, h)#}, pw_stray := add_mset h (pw_stray w)\<rparr>"
  have same: "ps_pipes ?s = ps_pipes (pw_sys w)" "ps_next ?s = ps_next (pw_sys w)" by (simp_all add: pipe_write_forget_def)
  have hold: "holders ?s = holders (pw_sys w)" by (rule holders_cong [OF handles_forget_absent [OF h]])
  have ids: "ids_old ?w (ps_next ?s)"
    using inv_ids [OF inv] z unfolding same by (auto simp: ids_old_def dest: in_diffD)
  show ?thesis
    by (rule inv_tables [OF inv same]) (use inv_new [OF inv] inv_distinct [OF inv] ids in
      \<open>simp_all add: hold tied_def handles_forget_absent [OF h]\<close>)
qed

lemma inv_stray_close:
  assumes inv: "pipe_inv w" and h: "h \<in># pw_stray w"
  shows "pipe_inv (w\<lparr>pw_sys := snd (close_end h t (pw_sys w)), pw_stray := pw_stray w - {#h#},
    pw_damaged := (if end_count (pw_sys w) h = 0 then pw_damaged w else insert (ph_pipe h) (pw_damaged w))\<rparr>)" (is "pipe_inv ?w")
proof -
  note ch = close_spec [OF inv_ok [OF inv], of h t]
  have tied: "tied ?w g = tied w g" for g by (simp add: tied_def)
  show ?thesis
  proof (rule inv_change [OF inv, of "(end_count (pw_sys w))(h := end_count (pw_sys w) h - 1)"])
    show "((end_count (pw_sys w))(h := end_count (pw_sys w) h - 1)) g = card (holders (pw_sys w) g) + tied ?w g"
      if "ph_pipe g \<notin> pw_damaged ?w" for g
      unfolding tied using inv_end_count [OF inv, of g] that by (auto split: if_splits)
    have "ids_old ?w (ps_next (pw_sys w))" using inv_ids [OF inv] h by (auto simp: ids_old_def dest: in_diffD)
    then show "ids_old ?w (ps_next (pw_sys ?w))"
      using ids_old_mono end_change_evolves [OF ch] by (simp add: evolves_def)
  qed (use ch inv_new [OF inv] in simp_all)
qed

text \<open>Reaping a task moves the ends of its table to the lost ones.\<close>

lemma handles_reap: "handles_of (reap_task t s) = (handles_of s)(t := [])"
  by (auto simp: reap_task_def handles_of_def fun_eq_iff)

lemma inv_reap:
  assumes inv: "pipe_inv w"
  shows "pipe_inv (w\<lparr>pw_sys := reap_task t (pw_sys w), pw_leaked := pw_leaked w + mset (handles_of (pw_sys w) t)\<rparr>)" (is "pipe_inv ?w")
proof (rule inv_tables [OF inv])
  let ?s = "reap_task t (pw_sys w)"
  show same: "ps_pipes ?s = ps_pipes (pw_sys w)" "ps_next ?s = ps_next (pw_sys w)" by (simp_all add: reap_task_def)
  have hold: "holders ?s g = holders (pw_sys w) g - {t}" for g by (auto simp: holders_def handles_reap)
  show "card (holders (pw_sys w) g) + tied w g = card (holders ?s g) + tied ?w g" for g
  proof (cases "g \<in> set (handles_of (pw_sys w) t)")
    case True
    then have "t \<in> holders (pw_sys w) g" by (simp add: holders_def)
    then have "card (holders (pw_sys w) g) = Suc (card (holders (pw_sys w) g - {t}))" by (rule card.remove [OF finite_holders])
    moreover have "count (mset (handles_of (pw_sys w) t)) g = 1"
      using distinct_count_atmost_1 [of "handles_of (pw_sys w) t"] inv_distinct [OF inv] True by simp
    ultimately show ?thesis by (simp add: hold tied_def)
  next
    case False
    then have "t \<notin> holders (pw_sys w) g" by (simp add: holders_def)
    with False show ?thesis by (simp add: hold tied_def count_mset_0_iff)
  qed
  show "count (pw_new ?w) g = 1 \<and> holders ?s g = {}" if "g \<in># pw_new ?w" for g
    using inv_new [OF inv, of g] that by (simp add: hold)
  show "distinct (handles_of ?s i)" for i using inv_distinct [OF inv] by (simp add: handles_reap)
  show "ids_old ?w (ps_next ?s)" using inv_ids [OF inv] by (simp add: ids_old_def same)
qed simp_all

lemma quiet_step:
  assumes "pipe_inv w" "quiet e (pw_sys w) s"
  shows "pipe_inv (w\<lparr>pw_sys := s\<rparr>) \<and> evolves e (pw_sys w) s"
    and "pipe_inv (w\<lparr>pw_sys := s, pw_waking := wk\<rparr>) \<and> evolves e (pw_sys w) s"
  by (rule conjI [OF inv_quiet(2) [OF assms] quiet_evolves [OF assms(2)]],
      rule conjI [OF inv_quiet(1) [OF assms] quiet_evolves [OF assms(2)]])

lemma task_change:
  assumes inv: "pipe_inv w" and same: "ps_pipes s = ps_pipes (pw_sys w)" "ps_next s = ps_next (pw_sys w)"
    and h: "handles_of s = handles_of (pw_sys w)"
  shows "pipe_inv (w\<lparr>pw_sys := s\<rparr>) \<and> evolves Tau (pw_sys w) s"
  by (rule quiet_step(1) [OF inv quiet_sched [OF same h]])

lemma pipe_inv_step:
  assumes "pipe_step w e w'" "pipe_inv w"
  shows "pipe_inv w' \<and> evolves e (pw_sys w) (pw_sys w')"
  using assms
proof (induction rule: pipe_step.induct)
  case (ps_create n owner g w r wr s)
  then show ?case using inv_create [of w n owner g r wr s] by simp
next
  case (ps_create_failed n owner g w e s)
  from quiet_step(1) [OF ps_create_failed(2) create_failed [OF ps_create_failed(1)]] show ?case by simp
next
  case (ps_install h w t)
  then show ?case using inv_install [of w h t] by (simp add: evolves_same)
next
  case (ps_abandon h w t)
  note ch = close_spec [OF inv_ok [OF ps_abandon(2)], of h t]
  from ps_abandon ch show ?case using inv_drops(1) [of w h] by (auto simp: end_change_def)
next
  case (ps_adopt h w)
  then show ?case using inv_adopt [of w h] by (simp add: evolves_same)
next
  case (ps_take h w t)
  have "pipe_inv (w\<lparr>pw_sys := set_handles t (filter (\<lambda>x. x \<noteq> h)) (pw_sys w), pw_closing := add_mset h (pw_closing w)\<rparr>)"
    by (rule inv_take [OF ps_take(2,1)]) (use inv_ids [OF ps_take(2)] in \<open>simp_all add: ids_old_def\<close>)
  then show ?case by (simp add: evolves_same)
next
  case (ps_close h w t)
  note ch = close_spec [OF inv_ok [OF ps_close(2)], of h t]
  from ps_close ch show ?case using inv_drops(2) [of w h] by (auto simp: end_change_def)
next
  case (ps_zero_check t raw w h)
  then show ?case using inv_zero_check [of w t raw 0 h True] by (simp add: evolves_same)
next
  case (ps_zero_take t h w)
  have "pipe_inv (w\<lparr>pw_sys := pipe_write_forget t h (pw_sys w), pw_closing := add_mset h (pw_closing w), pw_zero := pw_zero w - {#(t, h)#}\<rparr>)"
    by (rule inv_take [OF ps_zero_take(3,2)])
      (use inv_ids [OF ps_zero_take(3)] in \<open>auto simp: ids_old_def pipe_write_forget_def dest: in_diffD\<close>)
  then show ?case by (simp add: evolves_same pipe_write_forget_def)
next
  case (ps_zero_stray t h w)
  then show ?case using inv_zero_stray [of w t h] by (simp add: evolves_same pipe_write_forget_def)
next
  case (ps_stray_close h w t)
  then show ?case using inv_stray_close [of w h t] end_change_evolves [OF close_spec [OF inv_ok [of w], of h t]] by simp
next
  case (ps_share t raw target w r s)
  then show ?case using inv_share [of w t raw target r s] by simp
next
  case (ps_session_dup h w s)
  then show ?case using inv_session_dup [of w h s] by simp
next
  case (ps_session_close h w b s)
  note ch = session_close_spec [OF inv_ok [OF ps_session_close(3)] ps_session_close(2)]
  from ps_session_close ch show ?case using inv_drops(3) [of w h s] by (auto simp: end_change_def)
next
  case (ps_teardown t w s)
  then show ?case using inv_teardown [of w t s] by simp
next
  case (ps_write h src t w r ws s)
  from quiet_step(2) [OF ps_write(2) quiet_write_locked [OF ps_write(1)]] show ?case by simp
next
  case (ps_read h n t w r ws s)
  from quiet_step(2) [OF ps_read(2) quiet_read_locked [OF ps_read(1)]] show ?case by simp
next
  case (ps_wake t w)
  have "quiet Tau (pw_sys w) (wake_all [t] (pw_sys w))" by (rule quiet_sched) simp_all
  from quiet_step(2) [OF ps_wake(2) this] show ?case by simp
next
  case (ps_park_reader t h d w r s)
  from quiet_step(1) [OF ps_park_reader(2) quiet_read_park [OF ps_park_reader(1)]] show ?case by simp
next
  case (ps_park_writer t h d w r s)
  from quiet_step(1) [OF ps_park_writer(2) quiet_write_park [OF ps_park_writer(1)]] show ?case by simp
next
  case (ps_deadline w t now)
  from quiet_step(1) [OF ps_deadline quiet_sweep] show ?case by simp
next
  case (ps_session_write h src w r s)
  from quiet_step(1) [OF ps_session_write(2) quiet_session_write [OF ps_session_write(1)]] show ?case by simp
next
  case (ps_session_read h n w r s)
  from quiet_step(1) [OF ps_session_read(2) quiet_session_read [OF ps_session_read(1)]] show ?case by simp
next
  case (ps_session_flush w h)
  from quiet_step(1) [OF ps_session_flush quiet_flush] show ?case by simp
next
  case (ps_session_wake_all w h)
  from quiet_step(1) [OF ps_session_wake_all quiet_wake_all] show ?case by simp
next
  case (ps_disown w cell)
  from quiet_step(1) [OF ps_disown quiet_disown] show ?case by simp
next
  case (ps_spawn w t tc)
  have "handles_of (pw_sys w\<lparr>ps_sched := put_task t tc (ps_sched (pw_sys w))\<rparr>) = handles_of (pw_sys w)"
    using ps_spawn(1,2) by (auto simp: handles_of_def fun_eq_iff)
  then show ?case using task_change [OF ps_spawn(3)] by simp
next
  case (ps_reap w t)
  then show ?case using inv_reap [of w t] by (simp add: evolves_same reap_task_def)
next
  case (ps_state w t tc st)
  have "handles_of (pw_sys w\<lparr>ps_sched := put_task t (tc\<lparr>t_state := st\<rparr>) (ps_sched (pw_sys w))\<rparr>) = handles_of (pw_sys w)"
    using ps_state(1) by (auto simp: handles_of_def fun_eq_iff)
  then show ?case using task_change [OF ps_state(2)] by simp
next
  case (ps_ready w hart rs)
  have "handles_of (pw_sys w\<lparr>ps_sched := ps_sched (pw_sys w)\<lparr>sc_ready := rs, sc_hart := hart\<rparr>\<rparr>) = handles_of (pw_sys w)"
    by (simp add: handles_of_def fun_eq_iff)
  then show ?case using task_change [OF ps_ready] by simp
next
  case (ps_quota w qs)
  have "handles_of (pw_sys w\<lparr>ps_quota := qs\<rparr>) = handles_of (pw_sys w)" by (simp add: handles_of_def fun_eq_iff)
  then show ?case using task_change [OF ps_quota] by simp
qed

lemma pipe_inv_boot: "pipe_inv (pipe_boot sc qs)"
  by (auto simp: pipe_inv_def pipe_boot_def pipes_ok_def end_count_def pipe_of_def held_def tied_def holders_def handles_of_def
      bt_wf_def ids_old_def)

lemma pipe_inv_run: "pipe_run w evs w' \<Longrightarrow> pipe_inv w \<Longrightarrow> pipe_inv w'"
  by (induction rule: pipe_run.induct) (auto dest: pipe_inv_step)

section \<open>Bytes are queued\<close>

definition bytes_in :: "usize \<Rightarrow> pipe_event list \<Rightarrow> bytes" where
  "bytes_in n evs = concat (map (\<lambda>e. case e of In i bs \<Rightarrow> if i = n then bs else [] | _ \<Rightarrow> []) evs)"

definition bytes_out :: "usize \<Rightarrow> pipe_event list \<Rightarrow> bytes" where
  "bytes_out n evs = concat (map (\<lambda>e. case e of Out i bs \<Rightarrow> if i = n then bs else [] | _ \<Rightarrow> []) evs)"

lemma bytes_snoc [simp]:
  "bytes_in n (evs @ [e]) = bytes_in n evs @ (case e of In i bs \<Rightarrow> if i = n then bs else [] | _ \<Rightarrow> [])"
  "bytes_out n (evs @ [e]) = bytes_out n evs @ (case e of Out i bs \<Rightarrow> if i = n then bs else [] | _ \<Rightarrow> [])"
  by (simp_all add: bytes_in_def bytes_out_def)

lemma locked_event:
  "write_locked h src t s = (r, ws, s') \<Longrightarrow> write_event h src r = In i bs \<Longrightarrow> i = ph_pipe h \<and> pipe_of s h \<noteq> None"
  "read_locked h n t s = (r', ws, s') \<Longrightarrow> read_event h r' = Out i bs \<Longrightarrow> i = ph_pipe h \<and> pipe_of s h \<noteq> None"
  "session_write h src s = (r, s') \<Longrightarrow> write_event h src r = In i bs \<Longrightarrow> i = ph_pipe h \<and> pipe_of s h \<noteq> None"
  "session_read h n s = (r', s') \<Longrightarrow> read_event h r' = Out i bs \<Longrightarrow> i = ph_pipe h \<and> pipe_of s h \<noteq> None"
  by (auto simp: write_locked_def read_locked_def session_write_def session_read_def split: option.splits if_splits prod.splits)

lemma event_kind: "write_event h src r \<noteq> Out i bs" "read_event h r' \<noteq> In i bs"
  by (cases "(h, src, r)" rule: write_event.cases, simp_all)
    (cases "(h, r')" rule: read_event.cases, simp_all)

text \<open>Only a pipe in the table takes or gives bytes.\<close>

lemma step_event:
  assumes "pipe_step w e w'" "e = In i bs \<or> e = Out i bs"
  shows "bt_get (ps_pipes (pw_sys w)) i \<noteq> None"
  using assms
proof (cases rule: pipe_step.cases)
  case (ps_write h src t r ws s)
  with assms(2) event_kind(1) show ?thesis by (auto dest!: locked_event(1) simp: pipe_of_def)
next
  case (ps_read h n t r ws s)
  with assms(2) event_kind(2) show ?thesis by (auto dest!: locked_event(2) simp: pipe_of_def)
next
  case (ps_session_write h src r s)
  with assms(2) event_kind(1) show ?thesis by (auto dest!: locked_event(3) simp: pipe_of_def)
next
  case (ps_session_read h n r s)
  with assms(2) event_kind(2) show ?thesis by (auto dest!: locked_event(4) simp: pipe_of_def)
next
  case (ps_session_flush h)
  then show ?thesis using assms(2) by (auto simp: flush_event_def pipe_of_def split: option.splits)
qed auto

definition fifo_inv :: "pipe_event list \<Rightarrow> pipe_world \<Rightarrow> bool" where
  "fifo_inv evs w \<longleftrightarrow>
     (\<forall>n p. bt_get (ps_pipes (pw_sys w)) n = Some p \<longrightarrow> bytes_in n evs = bytes_out n evs @ ring_contents p)
     \<and> (\<forall>n. ps_next (pw_sys w) \<le> n \<longrightarrow> bytes_in n evs = [] \<and> bytes_out n evs = [])"

lemma fifo_step:
  assumes inv: "pipe_inv w" and f: "fifo_inv evs w" and st: "pipe_step w e w'"
  shows "fifo_inv (evs @ [e]) w'"
proof -
  have ev: "evolves e (pw_sys w) (pw_sys w')" using pipe_inv_step [OF st inv] by blast
  have ok: "ring_ok p" "n < ps_next (pw_sys w)" if "bt_get (ps_pipes (pw_sys w)) n = Some p" for n p
    using inv_ok [OF inv] that by (auto simp: pipes_ok_def)
  have "bytes_in n (evs @ [e]) = bytes_out n (evs @ [e]) @ ring_contents p'" if p': "bt_get (ps_pipes (pw_sys w')) n = Some p'" for n p'
  proof -
    from ev p' consider p where "bt_get (ps_pipes (pw_sys w)) n = Some p" "ring_ok p \<longrightarrow> ev_rel e n (ring_contents p) (ring_contents p')"
      | "e = Tau" "n = ps_next (pw_sys w)" "ring_contents p' = []" unfolding evolves_def by blast
    then show ?thesis
    proof cases
      case 1
      then have "bytes_in n evs = bytes_out n evs @ ring_contents p" "ev_rel e n (ring_contents p) (ring_contents p')"
        using f ok by (auto simp: fifo_inv_def)
      then show ?thesis by (cases e) auto
    next
      case 2
      then show ?thesis using f by (simp add: fifo_inv_def)
    qed
  qed
  moreover have "bytes_in n (evs @ [e]) = [] \<and> bytes_out n (evs @ [e]) = []" if n: "ps_next (pw_sys w') \<le> n" for n
  proof -
    have n0: "ps_next (pw_sys w) \<le> n" using ev n by (simp add: evolves_def)
    then have "bt_get (ps_pipes (pw_sys w)) n = None" using ok(2) [of n] by (cases "bt_get (ps_pipes (pw_sys w)) n") auto
    then have "e \<noteq> In n bs" "e \<noteq> Out n bs" for bs using step_event [OF st, of n bs] by auto
    then show ?thesis using f n0 by (cases e) (auto simp: fifo_inv_def)
  qed
  ultimately show ?thesis by (simp add: fifo_inv_def)
qed

lemma fifo_run:
  assumes "pipe_run w evs w'" "w = pipe_boot sc qs"
  shows "fifo_inv evs w'"
  using assms
proof (induction rule: pipe_run.induct)
  case (run_refl w)
  then show ?case by (simp add: fifo_inv_def pipe_boot_def bytes_in_def bytes_out_def)
next
  case (run_step w evs w1 e w2)
  then show ?case using fifo_step pipe_inv_run [OF run_step(1)] pipe_inv_boot by blast
qed

end
