(* ===== verification/Pipe_Props.thy ===== *)
theory Pipe_Props
  imports Pipe_Inv
begin

text \<open>
  The properties of pipes: bytes are a bounded queue, end-of-file and broken-pipe are reported exactly
  when the other side is gone, whole system calls are runs, and what goes wrong in waking.
\<close>

section \<open>System calls are runs\<close>

lemma bt_insert_twice: "bt_insert k v (bt_insert k v' m) = bt_insert k v m"
  by (induction m) auto

lemma set_handles_twice:
  "set_handles t f (set_handles t g s) = set_handles t (\<lambda>hs. f (g hs)) s"
  by (auto simp: set_handles_def put_task_def bt_insert_twice split: option.split)

lemma run_two: "pipe_step w Tau w1 \<Longrightarrow> pipe_step w1 Tau w2 \<Longrightarrow> pipe_run w [Tau, Tau] w2"
  using run_step [OF run_step [OF run_refl]] by fastforce

lemma run_three: "pipe_step w Tau w1 \<Longrightarrow> pipe_step w1 Tau w2 \<Longrightarrow> pipe_step w2 Tau w3 \<Longrightarrow> pipe_run w [Tau, Tau, Tau] w3"
  using run_step [OF run_step [OF run_step [OF run_refl]]] by fastforce

lemma close_is_run:
  assumes h: "h \<in> set (handles_of (pw_sys w) t)"
  shows "pipe_run w [Tau, Tau] (w\<lparr>pw_sys := snd (close_end h t (set_handles t (filter (\<lambda>x. x \<noteq> h)) (pw_sys w)))\<rparr>)"
proof -
  let ?w = "w\<lparr>pw_sys := set_handles t (filter (\<lambda>x. x \<noteq> h)) (pw_sys w), pw_closing := add_mset h (pw_closing w)\<rparr>"
  have "pipe_step w Tau ?w" by (rule ps_take [OF h])
  moreover have "pipe_step ?w Tau (?w\<lparr>pw_sys := snd (close_end h t (pw_sys ?w)), pw_closing := pw_closing ?w - {#h#}\<rparr>)"
    by (rule ps_close) simp
  ultimately have "pipe_run w [Tau, Tau] (?w\<lparr>pw_sys := snd (close_end h t (pw_sys ?w)), pw_closing := pw_closing ?w - {#h#}\<rparr>)"
    by (rule run_two)
  then show ?thesis by simp
qed

lemma zero_write_is_run:
  assumes en: "pipe_write_enter t raw 0 (pw_sys w) = Ok (h, True)"
  shows "pipe_run w [Tau, Tau, Tau] (w\<lparr>pw_sys := pipe_write_close t h (pw_sys w)\<rparr>)"
proof -
  let ?w1 = "w\<lparr>pw_zero := add_mset (t, h) (pw_zero w)\<rparr>"
  let ?w2 = "w\<lparr>pw_sys := pipe_write_forget t h (pw_sys w), pw_closing := add_mset h (pw_closing w)\<rparr>"
  have own: "h \<in> set (handles_of (pw_sys w) t)"
    using en by (auto simp: pipe_write_enter_def caller_owns_pipe_def split: option.splits if_splits)
  have one: "pipe_step w Tau ?w1" by (rule ps_zero_check [OF en])
  have two: "pipe_step ?w1 Tau ?w2" using ps_zero_take [of t h ?w1] own by simp
  have three: "pipe_step ?w2 Tau (w\<lparr>pw_sys := pipe_write_close t h (pw_sys w)\<rparr>)"
    using ps_close [of h ?w2 t] by (simp add: pipe_write_close_def)
  show ?thesis by (rule run_three [OF one two three])
qed

lemma create_is_run:
  assumes cr: "sys_pipe_create copy g t cap (pw_sys w) = (r, s)" and n: "ps_next (pw_sys w) < USIZE_MAX"
  shows "\<exists>evs. pipe_run w evs (w\<lparr>pw_sys := s\<rparr>)"
proof (cases "task_of (pw_sys w) t")
  case None
  with cr have "w\<lparr>pw_sys := s\<rparr> = w" by (simp add: sys_pipe_create_def)
  then show ?thesis using run_refl by metis
next
  case (Some tc)
  obtain res s1 where c: "pipe_create cap (t_cell_id tc) g (pw_sys w) = (res, s1)" by (rule prod.exhaust)
  show ?thesis
  proof (cases res)
    case (Inl e)
    have "pipe_step w Tau (w\<lparr>pw_sys := s1\<rparr>)" by (rule ps_create_failed) (use c Inl in simp)
    then have "pipe_run w [Tau] (w\<lparr>pw_sys := s1\<rparr>)" using run_step [OF run_refl] by fastforce
    moreover have "s = s1" using cr Some c Inl by (simp add: sys_pipe_create_def)
    ultimately show ?thesis by blast
  next
    case (Inr rw)
    obtain rh wh where rw: "rw = (rh, wh)" by (rule prod.exhaust)
    let ?w1 = "w\<lparr>pw_sys := s1, pw_new := add_mset rh (add_mset wh (pw_new w))\<rparr>"
    have one: "pipe_step w Tau ?w1" by (rule ps_create [OF _ n]) (use c Inr rw in simp)
    let ?w2 = "?w1\<lparr>pw_sys := snd (close_end rh t s1), pw_new := add_mset wh (pw_new w)\<rparr>"
    have "pipe_step ?w1 Tau (?w1\<lparr>pw_sys := snd (close_end rh t (pw_sys ?w1)), pw_new := pw_new ?w1 - {#rh#}\<rparr>)"
      by (rule ps_abandon) simp
    then have two: "pipe_step ?w1 Tau ?w2" by simp
    have "pipe_step ?w2 Tau (?w2\<lparr>pw_sys := snd (close_end wh t (pw_sys ?w2)), pw_new := pw_new ?w2 - {#wh#}\<rparr>)"
      by (rule ps_abandon) simp
    then have three: "pipe_step ?w2 Tau (w\<lparr>pw_sys := snd (close_end wh t (snd (close_end rh t s1)))\<rparr>)" by simp
    note failed = run_three [OF one two three]
    let ?v2 = "?w1\<lparr>pw_sys := set_handles t (bs_insert rh) s1, pw_new := add_mset wh (pw_new w)\<rparr>"
    have done_: "pipe_run w [Tau, Tau, Tau] (w\<lparr>pw_sys := set_handles t (\<lambda>hs. bs_insert wh (bs_insert rh hs)) s1\<rparr>)"
      if t1: "task_of s1 t \<noteq> None"
    proof -
      have "pipe_step ?w1 Tau (?w1\<lparr>pw_sys := set_handles t (bs_insert rh) (pw_sys ?w1), pw_new := pw_new ?w1 - {#rh#}\<rparr>)"
        by (rule ps_install) (use t1 in simp_all)
      then have i1: "pipe_step ?w1 Tau ?v2" by simp
      have "task_of (set_handles t (bs_insert rh) s1) t \<noteq> None" using t1 by (auto simp: set_handles_def)
      then have "pipe_step ?v2 Tau (?v2\<lparr>pw_sys := set_handles t (bs_insert wh) (pw_sys ?v2), pw_new := pw_new ?v2 - {#wh#}\<rparr>)"
        by (intro ps_install) simp_all
      then have "pipe_step ?v2 Tau (w\<lparr>pw_sys := set_handles t (\<lambda>hs. bs_insert wh (bs_insert rh hs)) s1\<rparr>)"
        by (simp add: set_handles_twice)
      from run_three [OF one i1 this] show ?thesis .
    qed
    show ?thesis
    proof (cases "copy (to_le_bytes 8 (of_nat (to_raw rh) :: u64) @ to_le_bytes 8 (of_nat (to_raw wh) :: u64))")
      case (Inl e)
      with cr Some c Inr rw failed show ?thesis by (auto simp: sys_pipe_create_def)
    next
      case (Inr u)
      with cr Some c \<open>res = Inr rw\<close> rw failed done_ show ?thesis by (auto simp: sys_pipe_create_def split: if_splits)
    qed
  qed
qed

section \<open>A sample run\<close>

definition sample_sched :: sched where
  "sample_sched = \<lparr>sc_tasks = [], sc_ready = ready_init, sc_hart = 0\<rparr>"

definition sample_pipe :: pipe where
  "sample_pipe = \<lparr>pi_buffer = replicate 64 0, pi_head = 0, pi_len = 0, pi_readers = 1, pi_writers = 1,
     pi_read_waiters = [], pi_write_waiters = [], pi_owner_cell = 0\<rparr>"

definition sample_pipe_sys :: pipe_sys where
  "sample_pipe_sys = \<lparr>ps_pipes = [(1, sample_pipe)], ps_next = 2, ps_quota = quota_init, ps_sched = sample_sched\<rparr>"

definition sample_pipe_world :: pipe_world where
  "sample_pipe_world = \<lparr>pw_sys = put_pipe (PipeHandle 1 WriteEnd) (snd (pipe_write [7, 8] sample_pipe)) sample_pipe_sys,
     pw_new = {#PipeHandle 1 ReadEnd, PipeHandle 1 WriteEnd#}, pw_closing = {#}, pw_session = {#}, pw_waking = {#},
     pw_zero = {#}, pw_stray = {#}, pw_leaked = {#}, pw_damaged = {}\<rparr>"

lemma sample_run: "pipe_run (pipe_boot sample_sched quota_init) [Tau, In 1 [7, 8]] sample_pipe_world"
proof -
  let ?w0 = "pipe_boot sample_sched quota_init"
  let ?w1 = "?w0\<lparr>pw_sys := sample_pipe_sys, pw_new := {#PipeHandle 1 ReadEnd, PipeHandle 1 WriteEnd#}\<rparr>"
  have create: "pipe_create 64 0 True (pw_sys ?w0) = (Ok (PipeHandle 1 ReadEnd, PipeHandle 1 WriteEnd), sample_pipe_sys)"
    by (simp add: pipe_create_def pipe_boot_def ring_capacity_def MIN_CAPACITY_def MAX_CAPACITY_def charge_def next_pipe_id_def
        sample_pipe_sys_def sample_sched_def sample_pipe_def USIZE_MAX_def)
  have "pipe_step ?w0 Tau (?w0\<lparr>pw_sys := sample_pipe_sys, pw_new := add_mset (PipeHandle 1 ReadEnd) (add_mset (PipeHandle 1 WriteEnd) (pw_new ?w0))\<rparr>)"
    by (rule ps_create [OF create]) (simp add: pipe_boot_def USIZE_MAX_def)
  then have one: "pipe_step ?w0 Tau ?w1" by (simp add: pipe_boot_def)
  let ?h = "PipeHandle 1 WriteEnd"
  have "write_locked ?h [7, 8] 0 (pw_sys ?w1) = (Some (Wrote 2), [], put_pipe ?h (snd (pipe_write [7, 8] sample_pipe)) sample_pipe_sys)"
    by (simp add: write_locked_def pipe_of_def sample_pipe_sys_def sample_pipe_def pipe_is_full_def pipe_write_def pipe_capacity_def Let_def)
  from ps_write [OF this] have "pipe_step ?w1 (In 1 [7, 8]) sample_pipe_world"
    by (simp add: sample_pipe_world_def pipe_boot_def)
  with run_step [OF run_step [OF run_refl one]] show ?thesis by simp
qed

lemma sample_world_pipe: "bt_get (ps_pipes (pw_sys sample_pipe_world)) 1 = Some (snd (pipe_write [7, 8] sample_pipe))"
  by (simp add: sample_pipe_world_def)

section \<open>Properties\<close>

text \<open>
  C35. A pipe is a bounded first-in first-out queue of bytes.  Whatever system calls, session
  operations, wake-ups, deadlines and exits interleave, the bytes accepted for a pipe since it was
  created are the bytes it has delivered (or a session has flushed), in the same order, followed by
  what the ring holds; and the ring never holds more than the capacity it was created with.
\<close>

theorem pipe_is_fifo:
  assumes "pipe_run (pipe_boot sc qs) evs w" "bt_get (ps_pipes (pw_sys w)) n = Some p"
  shows "bytes_in n evs = bytes_out n evs @ ring_contents p \<and> length (ring_contents p) \<le> pipe_capacity p"
proof -
  have "ring_ok p" using inv_ok [OF pipe_inv_run [OF assms(1) pipe_inv_boot]] assms(2) by (auto simp: pipes_ok_def)
  then show ?thesis using fifo_run [OF assms(1) refl] assms(2) ring.bounded by (simp add: fifo_inv_def)
qed

theorem pipe_is_fifo_witness:
  "ring_contents (snd (pipe_write [7, 8] sample_pipe)) = [7, 8]"
  using pipe_is_fifo [OF sample_run sample_world_pipe] by (simp add: bytes_in_def bytes_out_def)

text \<open>
  C36. End counts are exact, so end-of-file and broken pipe are.  In every run, for every pipe whose count no
  stray zero-length write has lowered, the read and write counts are the ends in task tables, held by
  sessions, inside an unfinished call, or lost with a task record that was reaped while it still held them.
  A read reports end-of-file exactly when the ring is empty and no write end is held, a write
  reports a broken pipe exactly when no read end is held, a pipe with no end left is gone from
  the table, and a session that closes an end it holds never fails the count assertion.
\<close>

theorem pipe_ends_exact:
  assumes run: "pipe_run (pipe_boot sc qs) evs w" and ok: "ph_pipe h \<notin> pw_damaged w"
  shows "end_count (pw_sys w) h = held w h
    \<and> (fst (read_locked h n t (pw_sys w)) = Some Eof \<longleftrightarrow>
        (\<exists>p. pipe_of (pw_sys w) h = Some p \<and> ring_contents p = [] \<and> held w (PipeHandle (ph_pipe h) WriteEnd) = 0))
    \<and> (fst (write_locked h src t (pw_sys w)) = Some NoReader \<longleftrightarrow>
        pipe_of (pw_sys w) h \<noteq> None \<and> held w (PipeHandle (ph_pipe h) ReadEnd) = 0)
    \<and> (held w (PipeHandle (ph_pipe h) ReadEnd) = 0 \<and> held w (PipeHandle (ph_pipe h) WriteEnd) = 0 \<longrightarrow>
        pipe_of (pw_sys w) h = None)
    \<and> (h \<in># pw_session w \<longrightarrow> session_close h (pw_sys w) \<noteq> None)"
proof -
  note inv = pipe_inv_run [OF run pipe_inv_boot]
  have held: "held w g = (case pipe_of (pw_sys w) g of None \<Rightarrow> 0
      | Some p \<Rightarrow> (case ph_end g of ReadEnd \<Rightarrow> pi_readers p | WriteEnd \<Rightarrow> pi_writers p))" if "ph_pipe g = ph_pipe h" for g
    using inv that ok unfolding pipe_inv_def end_count_def [symmetric] by simp
  have "fst (read_locked h n t (pw_sys w)) = Some Eof \<longleftrightarrow>
      (\<exists>p. pipe_of (pw_sys w) h = Some p \<and> ring_contents p = [] \<and> held w (PipeHandle (ph_pipe h) WriteEnd) = 0)"
    by (cases "pipe_of (pw_sys w) h")
      (auto simp: read_locked_def held pipe_of_def pipe_is_empty_def ring_contents_def split_beta)
  moreover have "fst (write_locked h src t (pw_sys w)) = Some NoReader \<longleftrightarrow>
      pipe_of (pw_sys w) h \<noteq> None \<and> held w (PipeHandle (ph_pipe h) ReadEnd) = 0"
    by (cases "pipe_of (pw_sys w) h") (auto simp: write_locked_def held pipe_of_def split_beta)
  moreover have "pipe_of (pw_sys w) h = None"
    if "held w (PipeHandle (ph_pipe h) ReadEnd) = 0 \<and> held w (PipeHandle (ph_pipe h) WriteEnd) = 0"
    using that pipes_ok_get [OF inv_ok [OF inv], of h]
    by (cases "pipe_of (pw_sys w) h") (auto simp: held pipe_of_def ends_gone_def)
  moreover have "session_close h (pw_sys w) \<noteq> None" if "h \<in># pw_session w"
    by (rule session_close_some [OF held_positive [OF inv ok]]) (simp add: that)
  moreover have "end_count (pw_sys w) h = held w h" using inv ok by (simp add: pipe_inv_def)
  ultimately show ?thesis by blast
qed

theorem pipe_ends_exact_witness:
  "end_count (pw_sys sample_pipe_world) (PipeHandle 1 WriteEnd) = 1
   \<and> (fst (read_locked (PipeHandle 1 ReadEnd) 4 9 (pw_sys sample_pipe_world)) \<noteq> Some Eof)"
proof -
  have h: "held sample_pipe_world (PipeHandle 1 WriteEnd) = 1"
    by (simp add: held_def tied_def sample_pipe_world_def holders_def handles_of_def sample_pipe_sys_def sample_sched_def)
  have u: "ph_pipe (PipeHandle 1 e) \<notin> pw_damaged sample_pipe_world" for e by (simp add: sample_pipe_world_def)
  show ?thesis
    using pipe_ends_exact [OF sample_run u [of WriteEnd]] pipe_ends_exact [OF sample_run u [of ReadEnd], of 4 9] h by simp
qed

text \<open>
  C37. A pipe reader can miss the write that was meant to wake it.  The read attempt and the parking of
  \<open>PipeRead\<close> are two critical sections: when a write is accepted between them, it finds no parked reader,
  wakes nobody, and the reader then parks with no deadline although the ring holds the bytes.
\<close>

theorem pipe_read_misses_wakeup:
  assumes p: "pipe_of s h = Some p" "ring_ok p" "pi_len p = 0" "0 < pi_readers p" "0 < pi_writers p" "pi_read_waiters p = []"
    and t: "task_of s t = Some tc" and src: "src \<noteq> []"
    and att: "pipe_read_try copy t h len None now s = (r, s1)"
    and w: "write_locked (PipeHandle (ph_pipe h) WriteEnd) src u s1 = (out, ws, s2)"
    and park: "pipe_read_park t h None s2 = (r', s3)"
  shows "r = None \<and> (\<exists>k. out = Some (Wrote k)) \<and> ws = [] \<and> r' = Ok ()
    \<and> map_option t_state (task_of s3 t) = Some (TPipeRead h None)
    \<and> (\<exists>p'. pipe_of s3 h = Some p' \<and> ring_contents p' \<noteq> [])"
proof -
  let ?h = "PipeHandle (ph_pipe h) WriteEnd"
  have rd: "try_read h (min len CHUNK) t s = (Some Empty, s)"
    using p by (simp add: try_read_def read_locked_def pipe_is_empty_def wake_all_def)
  with att have r: "r = None" "s1 = s" by (auto simp: pipe_read_try_def deadline_passed_def)
  obtain k p1 where wr: "pipe_write src p = (k, p1)" by (rule prod.exhaust)
  have cap: "0 < pipe_capacity p" using p(2) by (auto simp: ring_ok_def pipe_capacity_def)
  have notfull: "\<not> pipe_is_full p" using p(3) cap by (simp add: pipe_is_full_def pipe_capacity_def)
  have sel: "pi_read_waiters p1 = []" using pipe_write_sel(3) [of src p] wr p(6) by simp
  have "write_locked ?h src u s = (Some (Wrote k), [], put_pipe ?h (p1\<lparr>pi_read_waiters := []\<rparr>) s)"
    using p notfull wr sel by (simp add: write_locked_def pipe_of_def)
  with w r have w': "out = Some (Wrote k)" "ws = []" "s2 = put_pipe ?h (p1\<lparr>pi_read_waiters := []\<rparr>) s" by auto
  have cont: "ring_contents p1 \<noteq> []"
    using ring.wr_law [OF p(2) wr] src cap p(3) by auto
  have t2: "task_of s2 t = Some tc" using t by (simp add: w'(3))
  have p2: "pipe_of s2 h = Some (p1\<lparr>pi_read_waiters := []\<rparr>)" by (simp add: pipe_of_def w'(3))
  have park': "r' = Ok ()" "s3 = (park_reader h t s2)\<lparr>ps_sched := put_task t (tc\<lparr>t_state := TPipeRead h None\<rparr>) (ps_sched s2)\<rparr>"
    using park t2 by (auto simp: pipe_read_park_def Let_def)
  have "pipe_of s3 h = Some (p1\<lparr>pi_read_waiters := enqueue_waiter t []\<rparr>)"
    unfolding park'(2) park_reader_def p2 by (simp add: pipe_of_def)
  with r w' park' cont show ?thesis by simp
qed

definition sample_reader :: tcb where
  "sample_reader = \<lparr>t_state = TRunning, t_cell_id = 1, t_priority = 1, t_pipe_handles = [PipeHandle 1 ReadEnd], t_result = 0\<rparr>"

theorem pipe_read_misses_wakeup_witness:
  "let s = sample_pipe_sys\<lparr>ps_sched := sample_sched\<lparr>sc_tasks := [(5, sample_reader)]\<rparr>\<rparr>;
       s1 = snd (pipe_read_try (\<lambda>_. Ok ()) 5 (PipeHandle 1 ReadEnd) 16 None 100 s);
       s2 = snd (snd (write_locked (PipeHandle 1 WriteEnd) [42] 6 s1));
       s3 = snd (pipe_read_park 5 (PipeHandle 1 ReadEnd) None s2)
   in map_option t_state (task_of s3 5) = Some (TPipeRead (PipeHandle 1 ReadEnd) None)
      \<and> fst (snd (write_locked (PipeHandle 1 WriteEnd) [42] 6 s1)) = []"
proof -
  let ?s = "sample_pipe_sys\<lparr>ps_sched := sample_sched\<lparr>sc_tasks := [(5, sample_reader)]\<rparr>\<rparr>"
  have p: "pipe_of ?s (PipeHandle 1 ReadEnd) = Some sample_pipe" "ring_ok sample_pipe" "pi_len sample_pipe = 0" "0 < pi_readers sample_pipe"
      "0 < pi_writers sample_pipe" "pi_read_waiters sample_pipe = []" "task_of ?s 5 = Some sample_reader" "[42 :: u8] \<noteq> []"
    by (simp_all add: pipe_of_def sample_pipe_sys_def sample_pipe_def ring_ok_def)
  show ?thesis unfolding Let_def
    using pipe_read_misses_wakeup [OF p, where copy = "\<lambda>_. Ok ()" and len = 16 and now = 100 and u = 6,
        OF prod.collapse [symmetric] _ prod.collapse [symmetric]] by (metis (no_types, lifting) pipe_handle.sel(1) prod.collapse)
qed

section \<open>Waking under the scheduler lock\<close>

text \<open>
  Task teardown runs with the scheduler lock held and wakes parked peers through \<open>wake_task\<close>, which
  takes the same lock: the exit of the last writer of a pipe with a parked reader never returns.
\<close>

theorem teardown_with_parked_reader_hangs:
  assumes "task_of s t = Some tc" "t_pipe_handles tc = [PipeHandle n WriteEnd]" "bt_get (ps_pipes s) n = Some p"
    and "pi_writers p = 1" "pi_read_waiters p \<noteq> []"
  shows "teardown_pipes t s = None"
  using assms by (simp add: teardown_pipes_def on_task_leaves_def drop_end_def Let_def split_beta)

text \<open>Closing an end, unlike leaving, wakes nobody: the readers of a closed pipe stay parked.\<close>

theorem close_end_wakes_nobody:
  "sc_tasks (ps_sched (snd (close_end h t s))) = sc_tasks (ps_sched s)"
  by (auto simp: close_end_def Let_def release_pipe_def split: option.split)

section \<open>Ends that are lost or closed twice\<close>

text \<open>
  \<open>PipeShare\<close> does not look at the state of its target: an end is given to a task that is retiring and whose
  table has already been torn down.  The record is then reaped with the end in it, which stays held for ever.
\<close>

theorem share_to_retiring_leaks:
  assumes "from_raw raw = Some h" "h \<in> set (handles_of (pw_sys w) caller)" "pipe_of (pw_sys w) h = Some p"
    and "task_of (pw_sys w) target = Some tc" "t_state tc = TRetiring" "t_pipe_handles tc = []"
    and "\<forall>g. end_count (pw_sys w) g < USIZE_MAX"
  shows "fst (sys_pipe_share caller raw target (pw_sys w)) = Ok 0
    \<and> (\<exists>w'. pipe_run w [Tau, Tau] w' \<and> pw_leaked w' = add_mset h (pw_leaked w) \<and> task_of (pw_sys w') target = None)"
proof -
  let ?r = "sys_pipe_share caller raw target (pw_sys w)"
  obtain s1 where dup: "duplicate_end h (pw_sys w) = (True, s1)" "ps_sched s1 = ps_sched (pw_sys w)"
    using assms(3) by (auto simp: duplicate_end_def)
  have empty: "handles_of (pw_sys w) target = []" using assms(4,6) by (simp add: handles_of_def)
  have r: "?r = (Ok 0, set_handles target (bs_insert h) s1)"
    using assms(1,2,4) dup(1) empty by (simp add: sys_pipe_share_def caller_owns_pipe_def)
  let ?s = "set_handles target (bs_insert h) s1"
  let ?w = "w\<lparr>pw_sys := ?s\<rparr>"
  have hs: "handles_of ?s target = [h]"
    using assms(4,6) dup(2) by (simp add: handles_of_def set_handles_def bs_insert_def)
  have one: "pipe_step w Tau ?w" by (rule ps_share [OF r assms(7)])
  let ?w' = "?w\<lparr>pw_sys := reap_task target (pw_sys ?w), pw_leaked := pw_leaked ?w + mset (handles_of (pw_sys ?w) target)\<rparr>"
  have "pipe_run w [Tau, Tau] ?w'" by (rule run_two [OF one ps_reap])
  moreover have "pw_leaked ?w' = add_mset h (pw_leaked w)" using hs by simp
  moreover have "task_of (pw_sys ?w') target = None" by (simp add: reap_task_def)
  moreover have "fst ?r = Ok 0" by (simp add: r)
  ultimately show ?thesis by blast
qed

text \<open>
  A zero-length write whose caller is torn down by another hart between the checks and the removal
  closes the end a second time.  When one other task still holds it, the count drops to zero and
  readers see end-of-file although that task has its write end.
\<close>

theorem zero_write_closes_twice:
  assumes "ph_end h = WriteEnd" "pipe_of s h = Some p" "pi_writers p = 1" "0 < pi_readers p"
    and "h \<notin> set (handles_of s t)" "holders s h = {u}"
  shows "end_count (pipe_write_close t h s) h = 0 \<and> holders (pipe_write_close t h s) h = {u}
    \<and> (ring_contents p = [] \<longrightarrow> fst (read_locked (PipeHandle (ph_pipe h) ReadEnd) n v (pipe_write_close t h s)) = Some Eof)"
proof -
  let ?s = "pipe_write_forget t h s" let ?p = "drop_end WriteEnd t p"
  have p: "pipe_of ?s h = Some p" using assms(2) by (simp add: pipe_write_forget_def pipe_of_def)
  have r: "pipe_write_close t h s = put_pipe h ?p ?s"
    using p assms(1,3,4) by (simp add: pipe_write_close_def close_end_def ends_gone_def drop_end_def Let_def)
  have hs: "handles_of (pipe_write_close t h s) = handles_of s"
    using handles_forget_absent [OF assms(5)] by (simp add: r)
  have "end_count (pipe_write_close t h s) h = 0"
    using assms(1,3) by (simp add: r end_count_def pipe_of_def drop_end_def)
  moreover have "fst (read_locked (PipeHandle (ph_pipe h) ReadEnd) n v (pipe_write_close t h s)) = Some Eof" if "ring_contents p = []"
    using that assms(3) by (simp add: r read_locked_def pipe_of_def drop_end_def pipe_is_empty_def ring_contents_def)
  ultimately show ?thesis using assms(6) holders_cong [OF hs] by simp
qed

theorem pipe_handle_roundtrip:
  "0 < ph_pipe h \<Longrightarrow> ph_pipe h < 2 ^ 63 \<Longrightarrow> from_raw (to_raw h) = Some h"
  by (cases h; cases "ph_end h") (auto simp: from_raw_def to_raw_def mod_Suc)

end
