(* ===== verification/Futex.thy ===== *)
theory Futex
  imports Kernel_Tasks File_Syscalls
begin

text \<open>
  The futexes of \<open>kernel/src/task/futex.rs\<close>: a task waits on a word of its address space until another
  task wakes the same key.  The first part models the queues and the two system calls, the second the
  interleavings of waits, wakes, stores to user memory, deadlines and task exits.  The caller's view of
  user memory (\<open>TaskCopyView\<close>) is an argument: \<open>rd addr n\<close> is the result of \<open>read_into\<close>, \<open>None\<close> when
  the range is not readable.
\<close>

section \<open>Queues\<close>

type_synonym waiters = "(futex_key, usize list) btree"

record futex_sys =
  fx_waiters :: waiters
  fx_sched :: sched

definition OUTCOME_WOKEN :: usize where "OUTCOME_WOKEN = 0"
definition OUTCOME_VALUE_MISMATCH :: usize where "OUTCOME_VALUE_MISMATCH = 1"
definition OUTCOME_TIMED_OUT :: usize where "OUTCOME_TIMED_OUT = 2"

text \<open>The domain of the current hart and its generation are the argument \<open>domain\<close>.\<close>

definition key_for :: "u64 \<times> u64 \<Rightarrow> usize \<Rightarrow> futex_key" where
  "key_for domain addr = FutexKey (fst domain) (snd domain) addr"

definition futex_enqueue :: "futex_key \<Rightarrow> usize \<Rightarrow> waiters \<Rightarrow> waiters" where
  "futex_enqueue key tid W =
     (let queue = (case bt_get W key of None \<Rightarrow> [] | Some q \<Rightarrow> q)
      in bt_insert key (if tid \<in> set queue then queue else queue @ [tid]) W)"

definition remove_waiter :: "futex_key \<Rightarrow> usize \<Rightarrow> waiters \<Rightarrow> waiters" where
  "remove_waiter key tid W =
     (case bt_get W key of
        None \<Rightarrow> W
      | Some queue \<Rightarrow>
          (let queue = filter (\<lambda>q. q \<noteq> tid) queue
           in if queue = [] then bt_remove key W else bt_insert key queue W))"

fun pop_waiters :: "usize \<Rightarrow> usize list \<Rightarrow> usize list \<Rightarrow> usize list \<times> usize list" where
  "pop_waiters cnt out [] = (out, [])"
| "pop_waiters cnt out (tid # queue) =
     (if cnt = 0 \<or> length out < cnt then pop_waiters cnt (out @ [tid]) queue
      else (out, tid # queue))"

definition take_waiters :: "futex_key \<Rightarrow> usize \<Rightarrow> waiters \<Rightarrow> usize list \<times> waiters" where
  "take_waiters key cnt W =
     (case bt_get W key of
        None \<Rightarrow> ([], W)
      | Some queue \<Rightarrow>
          (let (out, queue) = pop_waiters cnt [] queue
           in (out, if queue = [] then bt_remove key W else bt_insert key queue W)))"

definition read_word :: "(usize \<Rightarrow> nat \<Rightarrow> bytes option) \<Rightarrow> usize \<Rightarrow> syscall_error + u32" where
  "read_word rd addr =
     (if addr = 0 \<or> addr mod 4 \<noteq> 0 then Err SE_InvalidInput
      else (case rd addr 4 of None \<Rightarrow> Err SE_InvalidInput | Some bs \<Rightarrow> Ok (from_le_bytes bs)))"

section \<open>Waiting and waking\<close>

text \<open>
  \<open>wait_check\<close> is one of the two comparisons of the word: \<open>None\<close> when the call goes on.  \<open>wait_park\<close> is
  the end of the critical section: \<open>None\<close> when the caller has parked.
\<close>

definition wait_check :: "(usize \<Rightarrow> nat \<Rightarrow> bytes option) \<Rightarrow> usize \<Rightarrow> u32 \<Rightarrow> (syscall_error + usize) option" where
  "wait_check rd addr expected =
     (case read_word rd addr of
        Err e \<Rightarrow> Some (Err e)
      | Ok v \<Rightarrow> if v \<noteq> expected then Some (Ok OUTCOME_VALUE_MISMATCH) else None)"

definition wait_deadline :: "u64 \<Rightarrow> u64 \<Rightarrow> u64 option" where
  "wait_deadline now timeout_ticks = (if timeout_ticks = 0 then None else Some (now + timeout_ticks))"

definition wait_park ::
    "usize \<Rightarrow> futex_key \<Rightarrow> u64 option \<Rightarrow> futex_sys \<Rightarrow> (syscall_error + usize) option \<times> futex_sys" where
  "wait_park caller key deadline s =
     (case bt_get (sc_tasks (fx_sched s)) caller of
        None \<Rightarrow> (Some (Err SE_PermissionDenied), s)
      | Some t \<Rightarrow>
          (None, s\<lparr>fx_waiters := futex_enqueue key caller (fx_waiters s),
                   fx_sched := put_task caller (t\<lparr>t_state := TFutexWait key deadline, t_result := OUTCOME_WOKEN\<rparr>) (fx_sched s)\<rparr>))"

text \<open>
  \<open>futex_wait_enter\<close> is \<open>wait\<close> up to the yield; \<open>rd\<close> is the memory at the first read and \<open>rd'\<close> at the
  one under the scheduler lock.  \<open>futex_wait_resume\<close> is the rest.
\<close>

definition futex_wait_enter ::
    "usize \<Rightarrow> u64 \<times> u64 \<Rightarrow> usize \<Rightarrow> u32 \<Rightarrow> u64 \<Rightarrow> u64
     \<Rightarrow> syscall_error + (usize \<Rightarrow> nat \<Rightarrow> bytes option) \<Rightarrow> (usize \<Rightarrow> nat \<Rightarrow> bytes option) \<Rightarrow> futex_sys
     \<Rightarrow> (syscall_error + usize) option \<times> futex_sys" where
  "futex_wait_enter caller domain addr expected timeout_ticks now view rd' s =
     (case view of
        Err e \<Rightarrow> (Some (Err e), s)
      | Ok rd \<Rightarrow>
          (case wait_check rd addr expected of
             Some r \<Rightarrow> (Some r, s)
           | None \<Rightarrow>
               (case wait_check rd' addr expected of
                  Some r \<Rightarrow> (Some r, s)
                | None \<Rightarrow> wait_park caller (key_for domain addr) (wait_deadline now timeout_ticks) s)))"

definition futex_wait_resume :: "usize \<Rightarrow> futex_key \<Rightarrow> futex_sys \<Rightarrow> (syscall_error + usize) \<times> futex_sys" where
  "futex_wait_resume caller key s =
     (Ok (case bt_get (sc_tasks (fx_sched s)) caller of None \<Rightarrow> OUTCOME_WOKEN | Some t \<Rightarrow> t_result t),
      s\<lparr>fx_waiters := remove_waiter key caller (fx_waiters s)\<rparr>)"

fun waits_on :: "futex_key \<Rightarrow> task_state \<Rightarrow> bool" where
  "waits_on key (TFutexWait k d) \<longleftrightarrow> k = key"
| "waits_on key _ \<longleftrightarrow> False"

primrec wake_candidates :: "futex_key \<Rightarrow> usize list \<Rightarrow> usize \<Rightarrow> sched \<Rightarrow> usize \<times> sched" where
  "wake_candidates key [] woken s = (woken, s)"
| "wake_candidates key (tid # candidates) woken s =
     (case bt_get (sc_tasks s) tid of
        None \<Rightarrow> wake_candidates key candidates woken s
      | Some t \<Rightarrow>
          if waits_on key (t_state t)
          then wake_candidates key candidates (woken + 1)
                 (push_ready tid (put_task tid (t\<lparr>t_state := TReady, t_result := OUTCOME_WOKEN\<rparr>) s))
          else wake_candidates key candidates woken s)"

definition futex_wake ::
    "usize \<Rightarrow> u64 \<times> u64 \<Rightarrow> usize \<Rightarrow> usize \<Rightarrow> futex_sys \<Rightarrow> (syscall_error + usize) \<times> futex_sys" where
  "futex_wake caller domain addr cnt s =
     (if \<not> bt_contains (sc_tasks (fx_sched s)) caller then (Err SE_PermissionDenied, s)
      else
        let key = key_for domain addr;
            (candidates, W) = take_waiters key cnt (fx_waiters s);
            (woken, sc) = wake_candidates key candidates 0 (fx_sched s)
        in (Ok woken, s\<lparr>fx_waiters := W, fx_sched := sc\<rparr>))"

text \<open>The dispatch arm of \<open>FutexWake\<close>: every refusal becomes \<open>Unknown\<close>.\<close>

definition sys_futex_wake ::
    "usize \<Rightarrow> u64 \<times> u64 \<Rightarrow> usize \<Rightarrow> usize \<Rightarrow> futex_sys \<Rightarrow> (syscall_error + usize) \<times> futex_sys" where
  "sys_futex_wake caller domain addr cnt s =
     (case futex_wake caller domain addr cnt s of
        (Ok n, s') \<Rightarrow> (Ok n, s')
      | (Err _, s') \<Rightarrow> (Err SE_Unknown, s'))"

text \<open>The futex arm of the deadline sweep.\<close>

definition futex_on_deadline :: "tcb \<Rightarrow> usize \<Rightarrow> futex_key \<Rightarrow> waiters \<Rightarrow> tcb \<times> waiters" where
  "futex_on_deadline t tid key W = (t\<lparr>t_result := OUTCOME_TIMED_OUT\<rparr>, remove_waiter key tid W)"

definition sweep_futex_deadline :: "usize \<Rightarrow> u64 \<Rightarrow> futex_sys \<Rightarrow> futex_sys" where
  "sweep_futex_deadline tid now s =
     (case bt_get (sc_tasks (fx_sched s)) tid of
        None \<Rightarrow> s
      | Some t \<Rightarrow>
          (case t_state t of
             TFutexWait key (Some d) \<Rightarrow>
               if d \<le> now
               then let (t', W) = futex_on_deadline t tid key (fx_waiters s)
                    in s\<lparr>fx_waiters := W, fx_sched := push_ready tid (put_task tid (t'\<lparr>t_state := TReady\<rparr>) (fx_sched s))\<rparr>
               else s
           | _ \<Rightarrow> s))"

definition on_task_leaves_wait :: "usize \<Rightarrow> waiters \<Rightarrow> waiters" where
  "on_task_leaves_wait tid W =
     fold (\<lambda>key W. remove_waiter key tid W) (map fst (filter (\<lambda>(key, queue). tid \<in> set queue) W)) W"

section \<open>Queue lemmas\<close>

definition futex_queue :: "waiters \<Rightarrow> futex_key \<Rightarrow> usize list" where
  "futex_queue W k = (case bt_get W k of None \<Rightarrow> [] | Some q \<Rightarrow> q)"

lemma queue_enqueue:
  "futex_queue (futex_enqueue k t W) k' =
     (if k' = k then if t \<in> set (futex_queue W k) then futex_queue W k else futex_queue W k @ [t] else futex_queue W k')"
  by (auto simp: futex_queue_def futex_enqueue_def Let_def split: option.splits)

lemma queue_remove:
  "futex_queue (remove_waiter k t W) k' = (if k' = k then filter (\<lambda>q. q \<noteq> t) (futex_queue W k) else futex_queue W k')"
  by (auto simp: futex_queue_def remove_waiter_def Let_def split: option.splits)

lemma pop_waiters_all: "pop_waiters 0 out q = (out @ q, [])"
  by (induction q arbitrary: out) auto

lemma pop_waiters_append: "pop_waiters n out q = (out', q') \<Longrightarrow> out' @ q' = out @ q"
  by (induction n out q rule: pop_waiters.induct) (auto split: if_splits)

lemma pop_waiters_length:
  "0 < n \<Longrightarrow> length out \<le> n \<Longrightarrow> pop_waiters n out q = (out', q') \<Longrightarrow> length out' = min n (length out + length q)"
  by (induction n out q rule: pop_waiters.induct) (auto split: if_splits)

lemma take_waiters_queue:
  assumes "take_waiters k n W = (out, W')"
  shows "futex_queue W' k' = (if k' = k then drop (length out) (futex_queue W k) else futex_queue W k')"
    and "out = (if n = 0 then futex_queue W k else take n (futex_queue W k))"
proof -
  let ?q = "futex_queue W k"
  obtain o' q' where p: "pop_waiters n [] ?q = (o', q')" by (cases "pop_waiters n [] ?q")
  have sp: "?q = o' @ q'" using pop_waiters_append [OF p] by simp
  have out: "out = o'" and w: "futex_queue W' k' = (if k' = k then q' else futex_queue W k')"
    using assms p sp by (auto simp: take_waiters_def futex_queue_def split: option.splits if_splits)
  show "futex_queue W' k' = (if k' = k then drop (length out) ?q else futex_queue W k')"
    using w sp out by simp
  have "0 < n \<Longrightarrow> length o' = min n (length ?q)" using pop_waiters_length [OF _ _ p] by simp
  then have "0 < n \<Longrightarrow> o' = take n ?q" using sp by (cases "n \<le> length o'") (simp_all add: min_def split: if_splits)
  moreover have "n = 0 \<Longrightarrow> o' = ?q" using p by (simp add: pop_waiters_all)
  ultimately show "out = (if n = 0 then ?q else take n ?q)" using out by simp
qed

lemma queue_fold_remove:
  "futex_queue (fold (\<lambda>k W. remove_waiter k t W) ks W) k' =
     (if k' \<in> set ks then filter (\<lambda>q. q \<noteq> t) (futex_queue W k') else futex_queue W k')"
  by (induction ks arbitrary: W) (auto simp: queue_remove)

lemma queue_leaves: "futex_queue (on_task_leaves_wait t W) k = filter (\<lambda>q. q \<noteq> t) (futex_queue W k)"
proof -
  let ?ks = "map fst (filter (\<lambda>(key, queue). t \<in> set queue) W)"
  have "k \<notin> set ?ks \<Longrightarrow> t \<notin> set (futex_queue W k)"
  proof (rule ccontr, simp only: not_not)
    assume k: "k \<notin> set ?ks" and "t \<in> set (futex_queue W k)"
    then obtain q where "bt_get W k = Some q" "t \<in> set q" by (cases "bt_get W k") (auto simp: futex_queue_def)
    then have "(k, q) \<in> set (filter (\<lambda>(key, queue). t \<in> set queue) W)" by (auto dest: map_of_SomeD)
    then have "fst (k, q) \<in> set ?ks" unfolding set_map by (rule imageI)
    then have "k \<in> set ?ks" by (simp only: fst_conv)
    with k show False by contradiction
  qed
  then have "k \<notin> set ?ks \<Longrightarrow> filter (\<lambda>q. q \<noteq> t) (futex_queue W k) = futex_queue W k"
    by (intro filter_True) auto
  then show ?thesis by (simp add: on_task_leaves_wait_def queue_fold_remove del: set_map)
qed

end
