(* ===== verification/Futex_Props.thy ===== *)
theory Futex_Props
  imports Futex Sched_Props
begin

text \<open>
  Waits and wakes interleaved with stores to user memory.  The deciding read of a wait and the park
  that follows are two steps under one lock: a store may fall between them, a wake may not.  The keys
  \<open>fw_owed\<close> are those whose word was stored to and that nobody has woken since with a count of zero;
  \<open>fw_expected\<close> is the value each task waits on.  Both are only recorded, no operation reads them.
\<close>

section \<open>Runs\<close>

record futex_world =
  fw_sys :: futex_sys
  fw_mem :: "u64 \<times> u64 \<Rightarrow> usize \<Rightarrow> nat \<Rightarrow> bytes option"
  fw_lock :: "(usize \<times> futex_key \<times> u32 \<times> u64 option) option"
  fw_expected :: "usize \<Rightarrow> u32"
  fw_owed :: "futex_key set"

definition word_at :: "(u64 \<times> u64 \<Rightarrow> usize \<Rightarrow> nat \<Rightarrow> bytes option) \<Rightarrow> futex_key \<Rightarrow> syscall_error + u32" where
  "word_at m k = read_word (m (fk_space k, fk_generation k)) (fk_addr k)"

abbreviation ftask :: "futex_sys \<Rightarrow> usize \<Rightarrow> tcb option" where
  "ftask s \<equiv> bt_get (sc_tasks (fx_sched s))"

definition parked_on :: "futex_sys \<Rightarrow> usize \<Rightarrow> futex_key \<Rightarrow> bool" where
  "parked_on s t k \<longleftrightarrow> (case ftask s t of None \<Rightarrow> False | Some tc \<Rightarrow> waits_on k (t_state tc))"

definition not_futex :: "task_state \<Rightarrow> bool" where
  "not_futex st \<longleftrightarrow> (\<forall>k. \<not> waits_on k st)"

text \<open>
  \<open>fs_state\<close> is any other part of the kernel that moves a task: the scheduler, a completion wake
  (\<open>deliver_pending_wakes\<close>), a pipe wake, a hot swap.  It may take a task out of a futex wait; only
  \<open>wait\<close> puts one in.  A task resumes from \<open>wait\<close> only when it runs.
\<close>

inductive futex_step :: "futex_world \<Rightarrow> futex_world \<Rightarrow> bool" where
  fs_store: "\<forall>k. k \<notin> K \<longrightarrow> word_at m (k::futex_key) = word_at (fw_mem w) k \<Longrightarrow>
    futex_step w (w\<lparr>fw_mem := m, fw_owed := fw_owed w \<union> K\<rparr>)"
| fs_decide: "fw_lock w = None \<Longrightarrow> wait_check (fw_mem w domain) addr e = None \<Longrightarrow>
    futex_step w (w\<lparr>fw_lock := Some (t, key_for domain addr, e, wait_deadline now ticks)\<rparr>)"
| fs_park: "fw_lock w = Some (t, k, e, d) \<Longrightarrow> wait_park t k d (fw_sys w) = (r, s) \<Longrightarrow>
    futex_step w (w\<lparr>fw_lock := None, fw_sys := s, fw_expected := (fw_expected w)(t := e)\<rparr>)"
| fs_wake: "fw_lock w = None \<Longrightarrow> futex_wake t domain addr n (fw_sys w) = (r, s) \<Longrightarrow>
    futex_step w (w\<lparr>fw_sys := s,
      fw_owed := (if n = 0 \<and> ftask (fw_sys w) t \<noteq> None then fw_owed w - {key_for domain addr} else fw_owed w)\<rparr>)"
| fs_resume: "\<not> parked_on (fw_sys w) t k \<Longrightarrow> futex_wait_resume t k (fw_sys w) = (r, s) \<Longrightarrow>
    futex_step w (w\<lparr>fw_sys := s\<rparr>)"
| fs_deadline: "fw_lock w = None \<Longrightarrow> futex_step w (w\<lparr>fw_sys := sweep_futex_deadline t now (fw_sys w)\<rparr>)"
| fs_leave: "fw_lock w = None \<Longrightarrow> ftask (fw_sys w) t = Some tc \<Longrightarrow> not_futex st \<Longrightarrow>
    futex_step w (w\<lparr>fw_sys := (fw_sys w)\<lparr>fx_waiters := on_task_leaves_wait t (fx_waiters (fw_sys w)),
                                     fx_sched := put_task t (tc\<lparr>t_state := st\<rparr>) (fx_sched (fw_sys w))\<rparr>\<rparr>)"
| fs_state: "not_futex (t_state tc) \<Longrightarrow>
    futex_step w (w\<lparr>fw_sys := (fw_sys w)\<lparr>fx_sched := put_task t tc (fx_sched (fw_sys w))\<rparr>\<rparr>)"
| fs_reap: "futex_step w (w\<lparr>fw_sys := (fw_sys w)\<lparr>fx_sched := (fx_sched (fw_sys w))\<lparr>sc_tasks := bt_remove t (sc_tasks (fx_sched (fw_sys w)))\<rparr>\<rparr>\<rparr>)"
| fs_ready: "futex_step w (w\<lparr>fw_sys := (fw_sys w)\<lparr>fx_sched := (fx_sched (fw_sys w))\<lparr>sc_ready := rs, sc_hart := hart\<rparr>\<rparr>\<rparr>)"

inductive futex_run :: "futex_world \<Rightarrow> futex_world \<Rightarrow> bool" where
  futex_refl: "futex_run w w"
| futex_trans: "futex_run w w1 \<Longrightarrow> futex_step w1 w2 \<Longrightarrow> futex_run w w2"

definition futex_boot :: "sched \<Rightarrow> (u64 \<times> u64 \<Rightarrow> usize \<Rightarrow> nat \<Rightarrow> bytes option) \<Rightarrow> futex_world" where
  "futex_boot sc m = \<lparr>fw_sys = \<lparr>fx_waiters = [], fx_sched = sc\<lparr>sc_tasks := []\<rparr>\<rparr>, fw_mem = m, fw_lock = None,
     fw_expected = (\<lambda>_. 0), fw_owed = {}\<rparr>"

section \<open>The invariant\<close>

definition covered :: "futex_world \<Rightarrow> futex_key \<Rightarrow> u32 \<Rightarrow> bool" where
  "covered w k e \<longleftrightarrow> word_at (fw_mem w) k = Ok e \<or> k \<in> fw_owed w"

definition futex_inv :: "futex_world \<Rightarrow> bool" where
  "futex_inv w \<longleftrightarrow>
     (\<forall>t k. parked_on (fw_sys w) t k \<longrightarrow> t \<in> set (futex_queue (fx_waiters (fw_sys w)) k) \<and> covered w k (fw_expected w t))
   \<and> (\<forall>k. distinct (futex_queue (fx_waiters (fw_sys w)) k))
   \<and> (\<forall>t k e d. fw_lock w = Some (t, k, e, d) \<longrightarrow> covered w k e)"

lemma wait_check_word: "wait_check (m domain) addr e = None \<longleftrightarrow> word_at m (key_for domain addr) = Ok e"
  by (auto simp: wait_check_def word_at_def key_for_def split: sum.splits if_splits)

definition woken :: "futex_key \<Rightarrow> tcb \<Rightarrow> tcb" where
  "woken key t = (if waits_on key (t_state t) then t\<lparr>t_state := TReady, t_result := OUTCOME_WOKEN\<rparr> else t)"

lemma woken_waits [simp]: "waits_on k (t_state (woken key t)) \<longleftrightarrow> waits_on k (t_state t) \<and> k \<noteq> key"
  by (cases "t_state t") (auto simp: woken_def)

lemma wake_candidates_get:
  "wake_candidates key cs n s = (n', s') \<Longrightarrow>
     bt_get (sc_tasks s') i = (if i \<in> set cs then map_option (woken key) (bt_get (sc_tasks s) i) else bt_get (sc_tasks s) i)"
  by (induction cs arbitrary: n s) (auto simp: woken_def split: option.splits if_splits)

lemma wake_candidates_woken:
  "wake_candidates key cs n s = (n', s') \<Longrightarrow> distinct cs \<Longrightarrow>
     n' = n + length (filter (\<lambda>i. case bt_get (sc_tasks s) i of None \<Rightarrow> False | Some t \<Rightarrow> waits_on key (t_state t)) cs)"
proof (induction cs arbitrary: n s)
  case (Cons c cs)
  show ?case
  proof (cases "case bt_get (sc_tasks s) c of None \<Rightarrow> False | Some t \<Rightarrow> waits_on key (t_state t)")
    case True
    then obtain t where t: "bt_get (sc_tasks s) c = Some t" "waits_on key (t_state t)" by (auto split: option.splits)
    let ?s = "push_ready c (put_task c (t\<lparr>t_state := TReady, t_result := OUTCOME_WOKEN\<rparr>) s)"
    have "wake_candidates key cs (n + 1) ?s = (n', s')" using Cons.prems t by simp
    from Cons.IH [OF this] show ?thesis using Cons.prems(2) t by (simp cong: filter_cong) (auto intro!: arg_cong [where f = length] filter_cong)
  next
    case False
    then have "wake_candidates key cs n s = (n', s')" using Cons.prems(1) by (auto split: option.splits if_splits)
    from Cons.IH [OF this] show ?thesis using Cons.prems(2) False by simp
  qed
qed simp

section \<open>Every step keeps it\<close>

lemma futex_invI:
  assumes "\<And>t k. parked_on (fw_sys w) t k \<Longrightarrow> t \<in> set (futex_queue (fx_waiters (fw_sys w)) k)"
    and "\<And>t k. parked_on (fw_sys w) t k \<Longrightarrow> covered w k (fw_expected w t)"
    and "\<And>k. distinct (futex_queue (fx_waiters (fw_sys w)) k)"
    and "\<And>t k e d. fw_lock w = Some (t, k, e, d) \<Longrightarrow> covered w k e"
  shows "futex_inv w"
  using assms by (simp add: futex_inv_def)

lemma futex_invD:
  assumes "futex_inv w"
  shows "parked_on (fw_sys w) t k \<Longrightarrow> t \<in> set (futex_queue (fx_waiters (fw_sys w)) k)"
    and "parked_on (fw_sys w) t k \<Longrightarrow> covered w k (fw_expected w t)"
    and "distinct (futex_queue (fx_waiters (fw_sys w)) k)"
    and "fw_lock w = Some (t, k, e, d) \<Longrightarrow> covered w k e"
  using assms by (auto simp: futex_inv_def)

text \<open>A change of the system that parks nobody and removes from the queues only tasks that wait no more.\<close>

lemma futex_inv_shrink:
  assumes "futex_inv w"
    and "\<And>t k. parked_on s t k \<Longrightarrow> parked_on (fw_sys w) t k
      \<and> (t \<in> set (futex_queue (fx_waiters (fw_sys w)) k) \<longrightarrow> t \<in> set (futex_queue (fx_waiters s) k))"
    and "\<And>k. distinct (futex_queue (fx_waiters (fw_sys w)) k) \<Longrightarrow> distinct (futex_queue (fx_waiters s) k)"
  shows "futex_inv (w\<lparr>fw_sys := s\<rparr>)"
proof (rule futex_invI)
  show "covered (w\<lparr>fw_sys := s\<rparr>) k (fw_expected (w\<lparr>fw_sys := s\<rparr>) t)" if "parked_on (fw_sys (w\<lparr>fw_sys := s\<rparr>)) t k" for t k
    using assms(2) [of t k] that futex_invD(2) [OF assms(1)] by (simp add: covered_def)
  show "covered (w\<lparr>fw_sys := s\<rparr>) k e" if "fw_lock (w\<lparr>fw_sys := s\<rparr>) = Some (t, k, e, d)" for t k e d
    using that futex_invD(4) [OF assms(1)] by (simp add: covered_def)
qed (use assms(2,3) futex_invD [OF assms(1)] in auto)

lemma futex_wake_effect:
  assumes "futex_wake t domain addr n s = (r, s')" "ftask s t \<noteq> None"
  defines "key \<equiv> key_for domain addr"
  shows "futex_queue (fx_waiters s') k = (if k = key then if n = 0 then [] else drop n (futex_queue (fx_waiters s) key) else futex_queue (fx_waiters s) k)"
    and "ftask s' i = (if i \<in> set (if n = 0 then futex_queue (fx_waiters s) key else take n (futex_queue (fx_waiters s) key))
            then map_option (woken key) (ftask s i) else ftask s i)"
    and "distinct (futex_queue (fx_waiters s) key) \<Longrightarrow>
       r = Ok (length (filter (\<lambda>i. parked_on s i key) (if n = 0 then futex_queue (fx_waiters s) key else take n (futex_queue (fx_waiters s) key))))"
proof -
  obtain cs W where tw: "take_waiters key n (fx_waiters s) = (cs, W)" by (cases "take_waiters key n (fx_waiters s)")
  obtain m sc where wc: "wake_candidates key cs 0 (fx_sched s) = (m, sc)" by (cases "wake_candidates key cs 0 (fx_sched s)")
  have r: "r = Ok m" "s' = s\<lparr>fx_waiters := W, fx_sched := sc\<rparr>"
    using assms(1,2) tw wc by (auto simp: futex_wake_def bt_contains_def key_def Let_def)
  note cs = take_waiters_queue(2) [OF tw]
  show "futex_queue (fx_waiters s') k = (if k = key then if n = 0 then [] else drop n (futex_queue (fx_waiters s) key) else futex_queue (fx_waiters s) k)"
    using take_waiters_queue(1) [OF tw, of k] cs r by (simp add: min_def)
  show "ftask s' i = (if i \<in> set (if n = 0 then futex_queue (fx_waiters s) key else take n (futex_queue (fx_waiters s) key))
            then map_option (woken key) (ftask s i) else ftask s i)"
    using wake_candidates_get [OF wc, of i] cs r by simp
  assume "distinct (futex_queue (fx_waiters s) key)"
  then have "distinct cs" using cs by simp
  from wake_candidates_woken [OF wc this] show "r = Ok (length (filter (\<lambda>i. parked_on s i key) (if n = 0 then futex_queue (fx_waiters s) key else take n (futex_queue (fx_waiters s) key))))"
    using cs r by (simp add: parked_on_def)
qed

lemma parked_on_put [simp]:
  "parked_on (s\<lparr>fx_sched := put_task t tc sc\<rparr>) i k \<longleftrightarrow>
     (if i = t then waits_on k (t_state tc) else parked_on (s\<lparr>fx_sched := sc\<rparr>) i k)"
  "parked_on (s\<lparr>fx_sched := push_ready t sc\<rparr>) i k = parked_on (s\<lparr>fx_sched := sc\<rparr>) i k"
  "parked_on (s\<lparr>fx_waiters := W\<rparr>) i k = parked_on s i k"
  "parked_on (s\<lparr>fx_waiters := W, fx_sched := sc\<rparr>) i k = parked_on (s\<lparr>fx_sched := sc\<rparr>) i k"
  by (simp_all add: parked_on_def)

lemma waits_on_unique: "waits_on k st \<Longrightarrow> waits_on k' st \<Longrightarrow> k = k'"
  by (cases st) auto

lemma park_keeps_inv:
  assumes "futex_inv w" "fw_lock w = Some (t, k, e, d)" "wait_park t k d (fw_sys w) = (r, s)"
  shows "futex_inv (w\<lparr>fw_lock := None, fw_sys := s, fw_expected := (fw_expected w)(t := e)\<rparr>)"
proof (cases "ftask (fw_sys w) t")
  case None
  then have "s = fw_sys w" "\<not> parked_on (fw_sys w) t k'" for k'
    using assms(3) by (auto simp: wait_park_def parked_on_def)
  then show ?thesis using futex_invD [OF assms(1)] by (intro futex_invI) (auto simp: covered_def)
next
  case (Some tc)
  let ?t = "tc\<lparr>t_state := TFutexWait k d, t_result := OUTCOME_WOKEN\<rparr>"
  have s: "s = (fw_sys w)\<lparr>fx_waiters := futex_enqueue k t (fx_waiters (fw_sys w)), fx_sched := put_task t ?t (fx_sched (fw_sys w))\<rparr>"
    using assms(3) Some by (simp add: wait_park_def)
  have park: "parked_on s i k' \<longleftrightarrow> (if i = t then k' = k else parked_on (fw_sys w) i k')" for i k'
    by (auto simp: s)
  have queue: "set (futex_queue (fx_waiters s) k') = set (futex_queue (fx_waiters (fw_sys w)) k') \<union> (if k' = k then {t} else {})" for k'
    by (auto simp: s queue_enqueue)
  show ?thesis
  proof (rule futex_invI)
    fix i k' assume "parked_on (fw_sys (w\<lparr>fw_lock := None, fw_sys := s, fw_expected := (fw_expected w)(t := e)\<rparr>)) i k'"
    then have p: "parked_on s i k'" by simp
    show "i \<in> set (futex_queue (fx_waiters (fw_sys (w\<lparr>fw_lock := None, fw_sys := s, fw_expected := (fw_expected w)(t := e)\<rparr>))) k')"
      using p futex_invD(1) [OF assms(1), of i k'] by (auto simp: park queue split: if_splits)
    show "covered (w\<lparr>fw_lock := None, fw_sys := s, fw_expected := (fw_expected w)(t := e)\<rparr>) k'
        (fw_expected (w\<lparr>fw_lock := None, fw_sys := s, fw_expected := (fw_expected w)(t := e)\<rparr>) i)"
      using p futex_invD(2) [OF assms(1), of i k'] futex_invD(4) [OF assms(1,2)]
      by (auto simp: park covered_def split: if_splits)
  qed (use futex_invD(3) [OF assms(1)] in \<open>auto simp: s queue_enqueue\<close>)
qed

lemma wake_parked:
  assumes "futex_wake t domain addr n s = (r, s')" "parked_on s' i k"
  shows "parked_on s i k
    \<and> (i \<in> set (futex_queue (fx_waiters s) k) \<longrightarrow> i \<in> set (futex_queue (fx_waiters s') k))"
proof (cases "ftask s t = None")
  case True
  then show ?thesis using assms by (auto simp: futex_wake_def bt_contains_def)
next
  case False
  let ?key = "key_for domain addr" and ?q = "futex_queue (fx_waiters s) (key_for domain addr)"
  have tn: "i \<in> set ?q \<Longrightarrow> i \<in> set (take n ?q) \<or> i \<in> set (drop n ?q)"
    by (metis Un_iff append_take_drop_id set_append)
  show ?thesis
    using assms(2) tn futex_wake_effect(1) [OF assms(1) False, of k] futex_wake_effect(2) [OF assms(1) False, of i]
    by (cases "ftask s i") (auto simp: parked_on_def split: if_splits)
qed

lemma wake_distinct:
  assumes "futex_wake t domain addr n s = (r, s')" "distinct (futex_queue (fx_waiters s) k)"
  shows "distinct (futex_queue (fx_waiters s') k)"
  using assms futex_wake_effect(1) [OF assms(1), of k]
  by (cases "ftask s t = None") (auto simp: futex_wake_def bt_contains_def)

lemma sweep_cases:
  obtains "sweep_futex_deadline t now s = s"
  | tc k d where "ftask s t = Some tc" "t_state tc = TFutexWait k d"
      "sweep_futex_deadline t now s = s\<lparr>fx_waiters := remove_waiter k t (fx_waiters s),
         fx_sched := push_ready t (put_task t (tc\<lparr>t_result := OUTCOME_TIMED_OUT, t_state := TReady\<rparr>) (fx_sched s))\<rparr>"
proof (cases "ftask s t")
  case None
  then have "sweep_futex_deadline t now s = s" by (simp add: sweep_futex_deadline_def)
  then show thesis by (rule that(1))
next
  case (Some tc)
  show thesis
  proof (cases "\<exists>k d. t_state tc = TFutexWait k (Some d) \<and> d \<le> now")
    case True
    then obtain k d where "t_state tc = TFutexWait k (Some d)" "d \<le> now" by blast
    with Some show thesis by (intro that(2)) (simp_all add: sweep_futex_deadline_def futex_on_deadline_def)
  next
    case False
    then have "sweep_futex_deadline t now s = s"
      using Some by (auto simp: sweep_futex_deadline_def split: task_state.split option.split)
    then show thesis by (rule that(1))
  qed
qed

lemma sweep_keeps_inv: "futex_inv w \<Longrightarrow> futex_inv (w\<lparr>fw_sys := sweep_futex_deadline t now (fw_sys w)\<rparr>)"
proof (cases rule: sweep_cases [of t now "fw_sys w"])
  case (2 tc k d)
  assume "futex_inv w"
  then show ?thesis
    by (rule futex_inv_shrink) (auto simp: 2(3) queue_remove split: if_splits)
qed simp

lemma futex_step_inv: "futex_step w w' \<Longrightarrow> futex_inv w \<Longrightarrow> futex_inv w'"
proof (induction rule: futex_step.induct)
  case (fs_store K m w)
  have "covered w k e \<Longrightarrow> covered (w\<lparr>fw_mem := m, fw_owed := fw_owed w \<union> K\<rparr>) k e" for k e
    using fs_store(1) by (auto simp: covered_def)
  then show ?case by (intro futex_invI) (use futex_invD [OF fs_store(2)] in auto)
next
  case (fs_decide w domain addr e t now ticks)
  then show ?case
    by (intro futex_invI) (use futex_invD [OF fs_decide(3)] in \<open>auto simp: covered_def wait_check_word\<close>)
next
  case (fs_park w t k e d r s)
  then show ?case by (intro park_keeps_inv)
next
  case (fs_wake w t domain addr n r s)
  let ?O = "if n = 0 \<and> ftask (fw_sys w) t \<noteq> None then fw_owed w - {key_for domain addr} else fw_owed w"
  have inv: "futex_inv (w\<lparr>fw_sys := s\<rparr>)"
    by (rule futex_inv_shrink [OF fs_wake(3)])
      (use wake_parked [OF fs_wake(2)] wake_distinct [OF fs_wake(2)] in \<open>blast+\<close>)
  have "k \<noteq> key_for domain addr" if "n = 0" "ftask (fw_sys w) t \<noteq> None" "parked_on s i k" for i k
    using futex_invD(1) [OF inv, of i k] futex_wake_effect(1) [OF fs_wake(2) that(2), of k] that by auto
  then show ?case
    by (intro futex_invI) (use fs_wake(1) futex_invD [OF inv] in \<open>auto simp: covered_def\<close>)
next
  case (fs_resume w t k r s)
  have s: "s = (fw_sys w)\<lparr>fx_waiters := remove_waiter k t (fx_waiters (fw_sys w))\<rparr>"
    using fs_resume(2) by (simp add: futex_wait_resume_def)
  show ?case using fs_resume(1) by (intro futex_inv_shrink [OF fs_resume(3)]) (auto simp: s queue_remove)
next
  case (fs_deadline w t now)
  then show ?case by (intro sweep_keeps_inv)
next
  case (fs_leave w t tc st)
  then show ?case by (intro futex_inv_shrink [OF fs_leave(4)]) (auto simp: queue_leaves not_futex_def split: if_splits)
next
  case (fs_state tc w t)
  then show ?case by (intro futex_inv_shrink [OF fs_state(2)]) (auto simp: not_futex_def split: if_splits)
next
  case (fs_reap w t)
  then show ?case by (intro futex_inv_shrink) (auto simp: parked_on_def split: if_splits)
next
  case (fs_ready w rs hart)
  then show ?case by (intro futex_inv_shrink) (auto simp: parked_on_def)
qed

lemma futex_run_append: "futex_run w w1 \<Longrightarrow> futex_run w1 w2 \<Longrightarrow> futex_run w w2"
  by (rotate_tac 1, induction rule: futex_run.induct) (auto intro: futex_trans)

lemma futex_run_inv: "futex_run w w' \<Longrightarrow> futex_inv w \<Longrightarrow> futex_inv w'"
  by (induction rule: futex_run.induct) (auto intro: futex_step_inv)

lemma futex_inv_boot: "futex_inv (futex_boot sc m)"
  by (simp add: futex_inv_def futex_boot_def parked_on_def futex_queue_def)

section \<open>System calls and runs\<close>

text \<open>A call of \<open>wait\<close> that parks is a run: the two reads and the park, with any steps before the second read.\<close>

lemma wait_is_run:
  assumes "futex_wait_enter t domain addr e ticks now view (fw_mem w domain) (fw_sys w) = (None, s)" "fw_lock w = None"
  shows "futex_run w (w\<lparr>fw_lock := None, fw_sys := s, fw_expected := (fw_expected w)(t := e)\<rparr>)"
proof -
  let ?k = "key_for domain addr" and ?d = "wait_deadline now ticks"
  let ?w = "w\<lparr>fw_lock := Some (t, ?k, e, ?d)\<rparr>"
  have chk: "wait_check (fw_mem w domain) addr e = None" and park: "wait_park t ?k ?d (fw_sys w) = (None, s)"
    using assms(1) by (auto simp: futex_wait_enter_def split: sum.splits option.splits)
  have "futex_step w ?w" by (rule fs_decide [OF assms(2) chk])
  moreover have "futex_step ?w (?w\<lparr>fw_lock := None, fw_sys := s, fw_expected := (fw_expected ?w)(t := e)\<rparr>)"
    by (rule fs_park) (use park in simp_all)
  ultimately show ?thesis using futex_trans [OF futex_trans [OF futex_refl]] by simp
qed

lemma wake_all_spec:
  assumes "futex_inv w" "ftask (fw_sys w) c \<noteq> None"
  shows "\<exists>s. futex_wake c domain addr 0 (fw_sys w) = (Ok (card {t. parked_on (fw_sys w) t (key_for domain addr)}), s)
     \<and> (\<forall>t. \<not> parked_on s t (key_for domain addr))
     \<and> (\<forall>t. parked_on (fw_sys w) t (key_for domain addr) \<longrightarrow>
          (\<exists>tc. ftask s t = Some tc \<and> t_state tc = TReady \<and> t_result tc = OUTCOME_WOKEN))"
proof -
  let ?s = "fw_sys w" and ?k = "key_for domain addr" and ?q = "futex_queue (fx_waiters (fw_sys w)) (key_for domain addr)"
  obtain r s where w: "futex_wake c domain addr 0 ?s = (r, s)" by (cases "futex_wake c domain addr 0 ?s")
  note effect = futex_wake_effect [OF w assms(2)]
  have sub: "{t. parked_on ?s t ?k} = set (filter (\<lambda>i. parked_on ?s i ?k) ?q)" using futex_invD(1) [OF assms(1)] by auto
  have d: "distinct ?q" by (rule futex_invD(3) [OF assms(1)])
  have "r = Ok (card {t. parked_on ?s t ?k})"
    using effect(3) [OF d] distinct_card [OF distinct_filter [OF d]] by (simp add: sub)
  moreover have "\<not> parked_on s t ?k" for t
    using wake_parked [OF w, of t ?k] futex_invD(1) [OF assms(1), of t ?k] effect(1) [of ?k] by auto
  moreover have "\<exists>tc. ftask s t = Some tc \<and> t_state tc = TReady \<and> t_result tc = OUTCOME_WOKEN" if "parked_on ?s t ?k" for t
    using that futex_invD(1) [OF assms(1) that] effect(2) [of t]
    by (auto simp: parked_on_def woken_def split: option.splits)
  ultimately show ?thesis using w by blast
qed

section \<open>A sample run\<close>

definition futex_task :: tcb where
  "futex_task = \<lparr>t_state = TRunning, t_cell_id = 1, t_priority = 1, t_pipe_handles = [], t_result = 9\<rparr>"

definition futex_mem :: "u8 \<Rightarrow> u64 \<times> u64 \<Rightarrow> usize \<Rightarrow> nat \<Rightarrow> bytes option" where
  "futex_mem v = (\<lambda>domain addr n. if domain = (0, 0) \<and> addr = 4096 \<and> n = 4 then Some [v, 0, 0, 0] else None)"

definition futex_start :: futex_world where
  "futex_start = futex_boot \<lparr>sc_tasks = [], sc_ready = ready_init, sc_hart = 0\<rparr> (futex_mem 7)"

definition futex_alive :: futex_world where
  "futex_alive = futex_start\<lparr>fw_sys := (fw_sys futex_start)\<lparr>fx_sched := put_task 3 futex_task (put_task 2 futex_task (put_task 1 futex_task
     (fx_sched (fw_sys futex_start))))\<rparr>\<rparr>"

definition futex_key0 :: futex_key where "futex_key0 = FutexKey 0 0 4096"

lemma futex_alive_run: "futex_run futex_start futex_alive"
proof -
  let ?put = "\<lambda>t w. w\<lparr>fw_sys := (fw_sys w)\<lparr>fx_sched := put_task t futex_task (fx_sched (fw_sys w))\<rparr>\<rparr>"
  have step: "futex_run futex_start w \<Longrightarrow> futex_run futex_start (?put t w)" for t w
    by (erule futex_trans) (simp add: fs_state not_futex_def futex_task_def)
  have "futex_run futex_start (?put 3 (?put 2 (?put 1 futex_start)))" by (intro step futex_refl)
  then show ?thesis by (simp add: futex_alive_def)
qed

definition futex_waiting :: futex_world where
  "futex_waiting = (let s1 = snd (wait_park 1 futex_key0 None (fw_sys futex_alive));
                        s2 = snd (wait_park 2 futex_key0 None s1)
                    in futex_alive\<lparr>fw_sys := s2, fw_expected := (\<lambda>_. 0)(1 := 7, 2 := 7)\<rparr>)"

lemmas futex_sample_defs = futex_waiting_def futex_alive_def futex_start_def futex_boot_def futex_key0_def futex_task_def futex_mem_def

lemma futex_waiting_run: "futex_run futex_start futex_waiting"
proof -
  let ?s1 = "snd (wait_park 1 futex_key0 None (fw_sys futex_alive))"
  let ?s2 = "snd (wait_park 2 futex_key0 None ?s1)"
  let ?w1 = "futex_alive\<lparr>fw_lock := None, fw_sys := ?s1, fw_expected := (fw_expected futex_alive)(1 := 7)\<rparr>"
  have mem: "wait_check (futex_mem 7 (0, 0)) 4096 7 = None"
    by (simp add: wait_check_def read_word_def futex_mem_def)
  have one: "futex_run futex_alive ?w1"
    by (rule wait_is_run [where domain = "(0, 0)" and addr = 4096 and ticks = 0 and now = 0 and view = "Ok (futex_mem 7 (0, 0))"])
      (simp_all add: futex_wait_enter_def mem key_for_def wait_deadline_def wait_park_def put_task_def futex_alive_def futex_start_def futex_boot_def futex_key0_def)
  have "futex_run ?w1 (?w1\<lparr>fw_lock := None, fw_sys := ?s2, fw_expected := (fw_expected ?w1)(2 := 7)\<rparr>)"
    by (rule wait_is_run [where domain = "(0, 0)" and addr = 4096 and ticks = 0 and now = 0 and view = "Ok (futex_mem 7 (0, 0))"])
      (simp_all add: futex_wait_enter_def mem key_for_def wait_deadline_def wait_park_def put_task_def futex_alive_def futex_start_def futex_boot_def futex_key0_def)
  moreover have "?w1\<lparr>fw_lock := None, fw_sys := ?s2, fw_expected := (fw_expected ?w1)(2 := 7)\<rparr> = futex_waiting"
    by (simp add: futex_waiting_def futex_alive_def futex_start_def futex_boot_def Let_def)
  ultimately show ?thesis using futex_run_append [OF futex_run_append [OF futex_alive_run one]] by simp
qed

lemma futex_waiting_parked: "parked_on (fw_sys futex_waiting) 1 futex_key0" "parked_on (fw_sys futex_waiting) 2 futex_key0"
  by (simp_all add: futex_sample_defs parked_on_def wait_park_def Let_def)

definition futex_stored :: futex_world where
  "futex_stored = futex_waiting\<lparr>fw_mem := futex_mem 8, fw_owed := {futex_key0}\<rparr>"

section \<open>Properties\<close>

text \<open>
  C38. No wake-up is lost.  In every interleaving of waits, stores, wakes, deadlines and exits, with
  stores also between the deciding read and the park, a task parked on a word still finds the value it
  waits for there unless the word was stored to and no wake-all on its key has followed.  A wake-all by a
  live task returns the number of tasks parked on the key, leaves none parked on it, and makes each of
  them ready with the outcome \<open>WOKEN\<close>.
\<close>

theorem futex_no_lost_wakeup:
  assumes "futex_run (futex_boot sc m) w"
  shows "(\<forall>t k. parked_on (fw_sys w) t k \<longrightarrow> word_at (fw_mem w) k = Ok (fw_expected w t) \<or> k \<in> fw_owed w)
    \<and> (\<forall>c domain addr. ftask (fw_sys w) c \<noteq> None \<longrightarrow>
        (\<exists>s. futex_wake c domain addr 0 (fw_sys w) = (Ok (card {t. parked_on (fw_sys w) t (key_for domain addr)}), s)
          \<and> (\<forall>t. \<not> parked_on s t (key_for domain addr))
          \<and> (\<forall>t. parked_on (fw_sys w) t (key_for domain addr) \<longrightarrow>
               (\<exists>tc. ftask s t = Some tc \<and> t_state tc = TReady \<and> t_result tc = OUTCOME_WOKEN))))"
proof -
  note inv = futex_run_inv [OF assms futex_inv_boot]
  show ?thesis using futex_invD(2) [OF inv] wake_all_spec [OF inv] by (auto simp: covered_def)
qed

theorem futex_no_lost_wakeup_witness:
  "futex_key0 \<in> fw_owed futex_stored
   \<and> (\<exists>s. futex_wake 3 (0, 0) 4096 0 (fw_sys futex_stored) = (Ok 2, s) \<and> \<not> parked_on s 1 futex_key0)"
proof -
  have key: "key_for (0, 0) 4096 = futex_key0" by (simp add: key_for_def futex_key0_def)
  have other: "word_at (futex_mem 8) k = word_at (futex_mem 7) k" if "k \<notin> {futex_key0}" for k
    using that by (cases k) (auto simp: word_at_def read_word_def futex_mem_def futex_key0_def)
  have view: "fw_mem futex_waiting = futex_mem 7" "fw_owed futex_waiting = {}"
    by (simp_all add: futex_waiting_def futex_alive_def futex_start_def futex_boot_def Let_def)
  have "futex_step futex_waiting (futex_waiting\<lparr>fw_mem := futex_mem 8, fw_owed := fw_owed futex_waiting \<union> {futex_key0}\<rparr>)"
    by (rule fs_store) (simp add: view other)
  then have "futex_step futex_waiting futex_stored" by (simp add: futex_stored_def view)
  then have run: "futex_run (futex_boot \<lparr>sc_tasks = [], sc_ready = ready_init, sc_hart = 0\<rparr> (futex_mem 7)) futex_stored"
    using futex_trans [OF futex_waiting_run] by (simp add: futex_start_def)
  have same: "fw_sys futex_stored = fw_sys futex_waiting" by (simp add: futex_stored_def)
  have "parked_on (fw_sys futex_waiting) t futex_key0 \<longleftrightarrow> t \<in> {1, 2}" for t
    by (auto simp: futex_sample_defs parked_on_def wait_park_def Let_def)
  then have "{t. parked_on (fw_sys futex_stored) t futex_key0} = {1, 2}" by (auto simp: same)
  then have "card {t. parked_on (fw_sys futex_stored) t futex_key0} = 2" by simp
  moreover have live: "ftask (fw_sys futex_stored) 3 \<noteq> None"
    by (simp add: same futex_sample_defs wait_park_def Let_def)
  from futex_no_lost_wakeup [OF run, THEN conjunct2, rule_format, OF live, of "(0, 0)" 4096, unfolded key]
  obtain s where "futex_wake 3 (0, 0) 4096 0 (fw_sys futex_stored) = (Ok (card {t. parked_on (fw_sys futex_stored) t futex_key0}), s)"
    and "\<not> parked_on s 1 futex_key0" by blast
  ultimately show ?thesis by (auto simp: futex_stored_def)
qed

text \<open>
  A wake with a count can be spent on a task that no longer waits: when another part of the kernel has
  made a queued task ready and it has not run yet, \<open>wake\<close> takes its entry, wakes nobody and leaves the
  next waiter parked.
\<close>

theorem futex_wake_slot_lost:
  "\<exists>w s. futex_run futex_start w \<and> parked_on (fw_sys w) 2 futex_key0
     \<and> futex_wake 3 (0, 0) 4096 1 (fw_sys w) = (Ok 0, s) \<and> parked_on s 2 futex_key0"
proof -
  let ?w = "futex_waiting\<lparr>fw_sys := (fw_sys futex_waiting)\<lparr>fx_sched := put_task 1 (futex_task\<lparr>t_state := TReady\<rparr>) (fx_sched (fw_sys futex_waiting))\<rparr>\<rparr>"
  have key: "key_for (0, 0) 4096 = futex_key0" by (simp add: key_for_def futex_key0_def)
  have run: "futex_run futex_start ?w" by (rule futex_trans [OF futex_waiting_run]) (simp add: fs_state not_futex_def)
  have p: "parked_on (fw_sys ?w) 2 futex_key0" "\<not> parked_on (fw_sys ?w) 1 futex_key0"
    using futex_waiting_parked(2) by (simp_all add: parked_on_def)
  have q: "futex_queue (fx_waiters (fw_sys ?w)) futex_key0 = [1, 2]"
    by (simp add: futex_sample_defs wait_park_def Let_def futex_enqueue_def futex_queue_def)
  obtain r s where w: "futex_wake 3 (0, 0) 4096 1 (fw_sys ?w) = (r, s)" by (rule prod.exhaust)
  have live: "ftask (fw_sys ?w) 3 \<noteq> None" by (simp add: futex_sample_defs wait_park_def Let_def)
  note effect = futex_wake_effect [OF w live, unfolded key]
  have "r = Ok 0" using effect(3) q p by simp
  moreover have "parked_on s 2 futex_key0" using effect(2) [of 2] q p by (simp add: parked_on_def)
  ultimately show ?thesis using run p w by blast
qed

end
