(* ===== verification/Completion.thy ===== *)
theory Completion
  imports Kernel_Tasks
begin

text \<open>
  The completion queue of \<open>kernel/src/task/completion.rs\<close>: a slot is reserved when an operation is
  submitted, completed from any context and drained by the cell; a deferred pass turns completions into
  wake-ups.  An index outside an array would panic: \<open>cq_drain\<close> is then \<open>None\<close>.  A queue
  is shared by the tasks of a cell through \<open>Arc\<close>; \<open>cs_queues\<close> is the store of queues and
  \<open>cs_completion\<close> the \<open>completion\<close> field of the task records.
\<close>

section \<open>The queue\<close>

definition QUEUE_CAPACITY :: usize where "QUEUE_CAPACITY = 32"
definition MAX_WAITERS :: usize where "MAX_WAITERS = 32"

type_synonym comp_slot = u16

definition slot_index :: "comp_slot \<Rightarrow> usize" where "slot_index slot = unat slot"

record completion =
  cm_slot :: comp_slot
  cm_source :: u32
  cm_result :: "64 word"

datatype cslot = SlotFree | SlotReserved | SlotDone (done_source: u32) (done_result: "64 word")

record completion_queue =
  cq_cell :: usize
  cq_slots :: "cslot list"
  cq_drainable :: "u16 list"
  cq_head :: usize
  cq_len :: usize
  cq_waiters :: "usize list"
  cq_waiter :: usize
  cq_wake_requested :: bool

definition cq_new :: "usize \<Rightarrow> completion_queue" where
  "cq_new cell = \<lparr>cq_cell = cell, cq_slots = replicate QUEUE_CAPACITY SlotFree, cq_drainable = replicate QUEUE_CAPACITY 0,
     cq_head = 0, cq_len = 0, cq_waiters = [], cq_waiter = 0, cq_wake_requested = False\<rparr>"

definition cq_reserve :: "completion_queue \<Rightarrow> comp_slot option \<times> completion_queue" where
  "cq_reserve q =
     (case position (\<lambda>s. s = SlotFree) (cq_slots q) of
        None \<Rightarrow> (None, q)
      | Some index \<Rightarrow> (Some (of_nat index), q\<lparr>cq_slots := (cq_slots q)[index := SlotReserved]\<rparr>))"

text \<open>The second argument of the result is whether the global flag \<open>WAKES_PENDING\<close> is raised.\<close>

definition complete_from :: "comp_slot \<Rightarrow> u32 \<Rightarrow> 64 word \<Rightarrow> completion_queue \<Rightarrow> bool \<Rightarrow> bool \<times> completion_queue \<times> bool" where
  "complete_from slot source result q pending =
     (let index = slot_index slot in
      if index < length (cq_slots q) \<and> cq_slots q ! index = SlotReserved
      then let position = (cq_head q + cq_len q) mod QUEUE_CAPACITY in
           (True, q\<lparr>cq_slots := (cq_slots q)[index := SlotDone source result],
                    cq_drainable := (cq_drainable q)[position := of_nat index],
                    cq_len := cq_len q + 1,
                    cq_wake_requested := True\<rparr>, True)
      else (False, q, pending))"

definition SOURCE_UNSPECIFIED :: u32 where "SOURCE_UNSPECIFIED = 0"

definition cq_complete :: "comp_slot \<Rightarrow> 64 word \<Rightarrow> completion_queue \<Rightarrow> bool \<Rightarrow> bool \<times> completion_queue \<times> bool" where
  "cq_complete slot result = complete_from slot SOURCE_UNSPECIFIED result"

definition cq_release :: "comp_slot \<Rightarrow> completion_queue \<Rightarrow> bool \<times> completion_queue" where
  "cq_release slot q =
     (let index = slot_index slot in
      if index < length (cq_slots q) \<and> cq_slots q ! index = SlotReserved
      then (True, q\<lparr>cq_slots := (cq_slots q)[index := SlotFree]\<rparr>)
      else (False, q))"

definition cq_drain :: "completion_queue \<Rightarrow> (completion option \<times> completion_queue) option" where
  "cq_drain q =
     (if cq_len q = 0 then Some (None, q)
      else if length (cq_drainable q) \<le> cq_head q then None
      else
        let index = unat (cq_drainable q ! cq_head q);
            q' = q\<lparr>cq_head := (cq_head q + 1) mod QUEUE_CAPACITY, cq_len := cq_len q - 1,
                   cq_wake_requested := (if cq_len q - 1 = 0 then False else cq_wake_requested q)\<rparr>
        in if length (cq_slots q) \<le> index then None
           else (case cq_slots q ! index of
                   SlotDone source result \<Rightarrow>
                     Some (Some \<lparr>cm_slot = of_nat index, cm_source = source, cm_result = result\<rparr>,
                           q'\<lparr>cq_slots := (cq_slots q)[index := SlotFree]\<rparr>)
                 | _ \<Rightarrow> Some (None, q')))"

definition cq_reserved :: "completion_queue \<Rightarrow> usize" where
  "cq_reserved q = length (filter (\<lambda>s. s = SlotReserved) (cq_slots q))"

section \<open>Waiters\<close>

definition register_waiter :: "usize \<Rightarrow> completion_queue \<Rightarrow> completion_queue" where
  "register_waiter tid q =
     q\<lparr>cq_waiter := tid,
       cq_waiters := (if tid \<notin> set (cq_waiters q) \<and> length (cq_waiters q) < MAX_WAITERS
                      then cq_waiters q @ [tid] else cq_waiters q)\<rparr>"

text \<open>\<open>Vec::swap_remove\<close>: the last element takes the place of the removed one.\<close>

definition swap_remove :: "nat \<Rightarrow> 'a list \<Rightarrow> 'a list" where
  "swap_remove pos xs = butlast (xs[pos := last xs])"

definition clear_waiter :: "usize \<Rightarrow> completion_queue \<Rightarrow> bool \<times> completion_queue" where
  "clear_waiter tid q =
     (let q = q\<lparr>cq_waiter := (if cq_waiter q = tid then 0 else cq_waiter q)\<rparr> in
      (case position (\<lambda>x. x = tid) (cq_waiters q) of
         Some pos \<Rightarrow> (True, q\<lparr>cq_waiters := swap_remove pos (cq_waiters q)\<rparr>)
       | None \<Rightarrow> (False, q)))"

definition take_wake_request :: "completion_queue \<Rightarrow> usize option \<times> completion_queue" where
  "take_wake_request q =
     (if \<not> cq_wake_requested q then (None, q)
      else (if cq_waiter q = 0 then None else Some (cq_waiter q), q\<lparr>cq_wake_requested := False\<rparr>))"

definition push_waiter :: "usize \<Rightarrow> usize list \<Rightarrow> usize list" where
  "push_waiter tid out = (if tid \<noteq> 0 \<and> tid \<notin> set out then out @ [tid] else out)"

definition drain_wake_requests :: "completion_queue \<Rightarrow> usize list \<Rightarrow> usize list \<times> completion_queue" where
  "drain_wake_requests q out =
     (if \<not> cq_wake_requested q then (out, q)
      else (push_waiter (cq_waiter q) (fold push_waiter (cq_waiters q) out), q\<lparr>cq_wake_requested := False\<rparr>))"

section \<open>The queues of the system\<close>

record comp_sys =
  cs_sched :: sched
  cs_queues :: "(nat, completion_queue) btree"
  cs_completion :: "(usize, nat) btree"
  cs_next :: nat
  cs_pending :: bool

definition queue_for :: "usize \<Rightarrow> comp_sys \<Rightarrow> nat option \<times> comp_sys" where
  "queue_for tid s =
     (case bt_get (sc_tasks (cs_sched s)) tid of
        None \<Rightarrow> (None, s)
      | Some t \<Rightarrow>
          (case bt_get (cs_completion s) tid of
             Some existing \<Rightarrow> (Some existing, s)
           | None \<Rightarrow>
               (case List.find (\<lambda>(i, u). t_cell_id u = t_cell_id t \<and> bt_get (cs_completion s) i \<noteq> None) (sc_tasks (cs_sched s)) of
                  Some (i, u) \<Rightarrow>
                    (let queue = the (bt_get (cs_completion s) i)
                     in (Some queue, s\<lparr>cs_completion := bt_insert tid queue (cs_completion s)\<rparr>))
                | None \<Rightarrow>
                    (let queue = cs_next s
                     in (Some queue, s\<lparr>cs_queues := bt_insert queue (cq_new (t_cell_id t)) (cs_queues s), cs_next := queue + 1,
                          cs_completion := bt_insert tid queue (cs_completion s)\<rparr>)))))"

fun is_parked :: "task_state \<Rightarrow> bool" where
  "is_parked TReady \<longleftrightarrow> False"
| "is_parked TRunning \<longleftrightarrow> False"
| "is_parked TTerminated \<longleftrightarrow> False"
| "is_parked TRetiring \<longleftrightarrow> False"
| "is_parked (TFrozen _) \<longleftrightarrow> False"
| "is_parked _ \<longleftrightarrow> True"

text \<open>The three loops of \<open>deliver_pending_wakes\<close>.\<close>

definition collect_wakes :: "usize \<Rightarrow> usize list \<times> comp_sys \<Rightarrow> usize list \<times> comp_sys" where
  "collect_wakes tid = (\<lambda>(out, s).
     (case bt_get (cs_completion s) tid of
        None \<Rightarrow> (out, s)
      | Some i \<Rightarrow>
          (case bt_get (cs_queues s) i of
             None \<Rightarrow> (out, s)
           | Some q \<Rightarrow> (let (out, q') = drain_wake_requests q out in (out, s\<lparr>cs_queues := bt_insert i q' (cs_queues s)\<rparr>)))))"

definition ready_parked :: "usize \<Rightarrow> usize list \<times> sched \<Rightarrow> usize list \<times> sched" where
  "ready_parked tid = (\<lambda>(runnable, s).
     (case bt_get (sc_tasks s) tid of
        None \<Rightarrow> (runnable, s)
      | Some t \<Rightarrow>
          if is_parked (t_state t) then (runnable @ [tid], put_task tid (t\<lparr>t_state := TReady\<rparr>) s) else (runnable, s)))"

definition deliver_pending_wakes :: "comp_sys \<Rightarrow> comp_sys" where
  "deliver_pending_wakes s =
     (if \<not> cs_pending s then s
      else
        let (requested, s) = fold collect_wakes (map fst (sc_tasks (cs_sched s))) ([], s\<lparr>cs_pending := False\<rparr>);
            (runnable, sc) = fold ready_parked requested ([], cs_sched s)
        in s\<lparr>cs_sched := fold push_ready runnable sc\<rparr>)"

end
