(* ===== verification/Completion_Props.thy ===== *)
theory Completion_Props
  imports Completion Pipe_Ring
begin

text \<open>
  What a completion queue promises: every operation is one critical section of the queue's own lock, so
  a list of operations is any interleaving.  The ring of drainable slots is shown to be the
  list of completed and undrained slots in completion order, which gives first-in first-out delivery,
  exactly one delivery per completion, and that completing a reserved slot never fails.
\<close>

section \<open>Runs\<close>

datatype cq_op = OpReserve | OpComplete comp_slot u32 "64 word" | OpRelease comp_slot | OpDrain
  | OpRegister usize | OpClear usize | OpTakeWake | OpDrainWakes "usize list"

datatype cq_event = Reserved comp_slot | Accepted completion | Released comp_slot | Drained completion

fun cq_exec :: "cq_op \<Rightarrow> completion_queue \<Rightarrow> (cq_event list \<times> completion_queue) option" where
  "cq_exec OpReserve q = (case cq_reserve q of (None, q') \<Rightarrow> Some ([], q') | (Some s, q') \<Rightarrow> Some ([Reserved s], q'))"
| "cq_exec (OpComplete slot source result) q =
     (case complete_from slot source result q False of
        (ok, q', _) \<Rightarrow> Some (if ok then [Accepted \<lparr>cm_slot = slot, cm_source = source, cm_result = result\<rparr>] else [], q'))"
| "cq_exec (OpRelease slot) q = (case cq_release slot q of (ok, q') \<Rightarrow> Some (if ok then [Released slot] else [], q'))"
| "cq_exec OpDrain q =
     (case cq_drain q of None \<Rightarrow> None | Some (None, q') \<Rightarrow> Some ([], q') | Some (Some c, q') \<Rightarrow> Some ([Drained c], q'))"
| "cq_exec (OpRegister tid) q = Some ([], register_waiter tid q)"
| "cq_exec (OpClear tid) q = Some ([], snd (clear_waiter tid q))"
| "cq_exec OpTakeWake q = Some ([], snd (take_wake_request q))"
| "cq_exec (OpDrainWakes out) q = Some ([], snd (drain_wake_requests q out))"

primrec cq_run :: "cq_op list \<Rightarrow> completion_queue \<Rightarrow> (cq_event list \<times> completion_queue) option" where
  "cq_run [] q = Some ([], q)"
| "cq_run (op # ops) q =
     (case cq_exec op q of
        None \<Rightarrow> None
      | Some (es, q') \<Rightarrow> (case cq_run ops q' of None \<Rightarrow> None | Some (es', q'') \<Rightarrow> Some (es @ es', q'')))"

text \<open>The slots reserved and neither completed nor released, the accepted and the drained completions of a run.\<close>

fun ev_outstanding :: "cq_event \<Rightarrow> nat set \<Rightarrow> nat set" where
  "ev_outstanding (Reserved s) R = insert (slot_index s) R"
| "ev_outstanding (Accepted c) R = R - {slot_index (cm_slot c)}"
| "ev_outstanding (Released s) R = R - {slot_index s}"
| "ev_outstanding (Drained c) R = R"

definition outstanding :: "cq_event list \<Rightarrow> nat set" where
  "outstanding evs = fold ev_outstanding evs {}"

fun ev_accepted :: "cq_event \<Rightarrow> completion list" where
  "ev_accepted (Accepted c) = [c]"
| "ev_accepted _ = []"

fun ev_drained :: "cq_event \<Rightarrow> completion list" where
  "ev_drained (Drained c) = [c]"
| "ev_drained _ = []"

section \<open>The ring is the list of undrained slots\<close>

fun is_done :: "cslot \<Rightarrow> bool" where
  "is_done (SlotDone _ _) \<longleftrightarrow> True"
| "is_done _ \<longleftrightarrow> False"

definition cq_pending :: "completion_queue \<Rightarrow> nat list" where
  "cq_pending q = map (\<lambda>i. unat (cq_drainable q ! ((cq_head q + i) mod 32))) [0..<cq_len q]"

definition slot_completion :: "cslot list \<Rightarrow> nat \<Rightarrow> completion" where
  "slot_completion slots i = \<lparr>cm_slot = of_nat i, cm_source = done_source (slots ! i), cm_result = done_result (slots ! i)\<rparr>"

definition cq_done :: "completion_queue \<Rightarrow> completion list" where
  "cq_done q = map (slot_completion (cq_slots q)) (cq_pending q)"

definition cq_held :: "completion_queue \<Rightarrow> nat set" where
  "cq_held q = {i. i < 32 \<and> cq_slots q ! i = SlotReserved}"

definition cq_ok :: "completion_queue \<Rightarrow> bool" where
  "cq_ok q \<longleftrightarrow> length (cq_slots q) = 32 \<and> length (cq_drainable q) = 32 \<and> cq_head q < 32 \<and> distinct (cq_pending q)
     \<and> set (cq_pending q) = {i. i < 32 \<and> is_done (cq_slots q ! i)} \<and> (cq_wake_requested q \<longrightarrow> 0 < cq_len q)"

lemma cq_new_ok: "cq_ok (cq_new cell)"
  by (auto simp: cq_ok_def cq_new_def cq_pending_def QUEUE_CAPACITY_def)

lemma unat_u16 [simp]: "i < 32 \<Longrightarrow> unat (of_nat i :: u16) = i"
  by (simp add: unat_of_nat)

lemma u16_index [simp]: "(of_nat (slot_index s) :: u16) = s"
  by (simp add: slot_index_def)

lemma pending_length [simp]: "length (cq_pending q) = cq_len q"
  by (simp add: cq_pending_def)

lemma pending_fields [simp]:
  "cq_pending (q\<lparr>cq_slots := sl\<rparr>) = cq_pending q" "cq_pending (q\<lparr>cq_wake_requested := b\<rparr>) = cq_pending q"
  "cq_pending (q\<lparr>cq_waiters := ws\<rparr>) = cq_pending q" "cq_pending (q\<lparr>cq_waiter := t\<rparr>) = cq_pending q"
  by (simp_all add: cq_pending_def)

lemma len_bound:
  assumes "cq_ok q" "i \<in> cq_held q"
  shows "cq_len q < 32"
proof -
  have "{j. j < 32 \<and> is_done (cq_slots q ! j)} \<subseteq> {..<32} - {i}" using assms(2) by (auto simp: cq_held_def)
  then have "card {j. j < 32 \<and> is_done (cq_slots q ! j)} \<le> card ({..<32} - {i})" by (rule card_mono [rotated]) simp
  also have "\<dots> < card {..<32::nat}" using assms(2) by (intro card_Diff1_less) (simp_all add: cq_held_def)
  finally show ?thesis using assms(1) distinct_card [of "cq_pending q"] by (simp add: cq_ok_def)
qed

lemma pending_push:
  assumes "cq_ok q" "cq_len q < 32" "i < 32"
  shows "cq_pending (q\<lparr>cq_drainable := (cq_drainable q)[(cq_head q + cq_len q) mod 32 := of_nat i], cq_len := Suc (cq_len q)\<rparr>)
    = cq_pending q @ [i]"
proof -
  let ?at = "\<lambda>j. (cq_head q + j) mod 32"
  have len: "length (cq_drainable q) = 32" using assms(1) by (simp add: cq_ok_def)
  have old: "(cq_drainable q)[?at (cq_len q) := of_nat i] ! ?at j = cq_drainable q ! ?at j" if "j < cq_len q" for j
  proof (rule nth_list_update_neq, rule notI)
    assume eq: "?at (cq_len q) = ?at j"
    have "j < 32" using that assms(2) by (rule less_trans)
    then have "cq_len q = j" by (rule mod_add_inj [OF assms(2) _ eq])
    with that show False by (simp only: less_irrefl)
  qed
  have new: "unat ((cq_drainable q)[?at (cq_len q) := of_nat i] ! ?at (cq_len q)) = i"
    by (subst nth_list_update_eq) (simp_all only: len unat_u16 [OF assms(3)] mod_less_divisor zero_less_numeral)
  show ?thesis by (simp add: cq_pending_def old new)
qed

lemma pending_pop:
  assumes "cq_ok q" "0 < cq_len q"
  shows "cq_pending q = unat (cq_drainable q ! cq_head q) # cq_pending (q\<lparr>cq_head := (cq_head q + 1) mod 32, cq_len := cq_len q - 1\<rparr>)"
proof -
  have "[0..<cq_len q] = 0 # map Suc [0..<cq_len q - 1]"
    using assms(2) by (simp add: map_Suc_upt upt_conv_Cons)
  then show ?thesis using assms by (simp add: cq_pending_def cq_ok_def mod_add_left_eq)
qed

section \<open>Every operation keeps it\<close>

definition cq_moves :: "completion_queue \<Rightarrow> cq_event list \<Rightarrow> completion_queue \<Rightarrow> bool" where
  "cq_moves q es q' \<longleftrightarrow> cq_ok q' \<and> cq_held q' = fold ev_outstanding es (cq_held q)
     \<and> cq_done q @ concat (map ev_accepted es) = concat (map ev_drained es) @ cq_done q'"

lemma cq_moves_waiters:
  assumes "cq_ok q" "cq_slots q' = cq_slots q" "cq_drainable q' = cq_drainable q" "cq_head q' = cq_head q" "cq_len q' = cq_len q"
    and "cq_wake_requested q' \<longrightarrow> cq_wake_requested q"
  shows "cq_moves q [] q'"
proof -
  have "cq_pending q' = cq_pending q" using assms by (simp add: cq_pending_def)
  then show ?thesis using assms by (simp add: cq_moves_def cq_ok_def cq_held_def cq_done_def)
qed

lemma done_update:
  "i \<notin> set (cq_pending q) \<Longrightarrow> map (slot_completion ((cq_slots q)[i := v])) (cq_pending q) = cq_done q"
proof -
  assume i: "i \<notin> set (cq_pending q)"
  have "slot_completion ((cq_slots q)[i := v]) j = slot_completion (cq_slots q) j" if "j \<in> set (cq_pending q)" for j
    using i that by (cases "i = j") (auto simp: slot_completion_def)
  then show ?thesis by (simp add: cq_done_def)
qed

text \<open>An update of a slot that holds no result and gets none.\<close>

lemma cq_ok_slot:
  assumes "cq_ok q" "i < 32" "\<not> is_done (cq_slots q ! i)" "\<not> is_done v"
  shows "cq_ok (q\<lparr>cq_slots := (cq_slots q)[i := v]\<rparr>) \<and> cq_done (q\<lparr>cq_slots := (cq_slots q)[i := v]\<rparr>) = cq_done q"
proof -
  have "i \<notin> set (cq_pending q)" using assms(1,3) by (simp add: cq_ok_def)
  from done_update [OF this] have "cq_done (q\<lparr>cq_slots := (cq_slots q)[i := v]\<rparr>) = cq_done q" by (simp add: cq_done_def)
  moreover have "is_done ((cq_slots q)[i := v] ! j) \<longleftrightarrow> is_done (cq_slots q ! j)" if "j < 32" for j
    using assms that by (auto simp: cq_ok_def nth_list_update)
  ultimately show ?thesis using assms(1) by (auto simp: cq_ok_def)
qed

lemma reserve_moves:
  assumes "cq_ok q" "cq_reserve q = (r, q')"
  shows "case r of None \<Rightarrow> q' = q | Some s \<Rightarrow> cq_moves q [Reserved s] q'"
proof (cases "position (\<lambda>s. s = SlotFree) (cq_slots q)")
  case (Some i)
  from position_SomeD [OF Some] assms(1) have i: "i < 32" "cq_slots q ! i = SlotFree" by (auto simp: cq_ok_def)
  have q': "r = Some (of_nat i)" "q' = q\<lparr>cq_slots := (cq_slots q)[i := SlotReserved]\<rparr>"
    using assms(2) Some by (auto simp: cq_reserve_def)
  have "cq_held q' = insert i (cq_held q)" using assms(1) i by (auto simp: q' cq_held_def cq_ok_def nth_list_update)
  then show ?thesis using cq_ok_slot [OF assms(1) i(1), of SlotReserved] i by (simp add: q' cq_moves_def slot_index_def)
qed (use assms in \<open>simp add: cq_reserve_def\<close>)

lemma held_index: "cq_ok q \<Longrightarrow> slot_index s < length (cq_slots q) \<and> cq_slots q ! slot_index s = SlotReserved \<longleftrightarrow> slot_index s \<in> cq_held q"
  by (simp add: cq_ok_def cq_held_def)

lemma release_moves:
  assumes "cq_ok q" "cq_release s q = (ok, q')"
  shows "cq_moves q (if ok then [Released s] else []) q'"
proof (cases "slot_index s \<in> cq_held q")
  case True
  then have i: "slot_index s < 32" "cq_slots q ! slot_index s = SlotReserved" by (simp_all add: cq_held_def)
  have q': "ok" "q' = q\<lparr>cq_slots := (cq_slots q)[slot_index s := SlotFree]\<rparr>"
    using assms True by (auto simp: cq_release_def held_index Let_def)
  have "cq_held q' = cq_held q - {slot_index s}" using assms(1) i by (auto simp: q' cq_held_def cq_ok_def nth_list_update)
  then show ?thesis using cq_ok_slot [OF assms(1) i(1), of SlotFree] i q'(1) by (simp add: q'(2) cq_moves_def)
next
  case False
  then have "\<not> ok" "q' = q" using assms by (auto simp: cq_release_def held_index Let_def)
  then show ?thesis using assms(1) by (simp add: cq_moves_def)
qed

lemma complete_held: "cq_ok q \<Longrightarrow> fst (complete_from s source result q p) \<longleftrightarrow> slot_index s \<in> cq_held q"
  by (simp add: complete_from_def held_index Let_def)

lemma complete_moves:
  assumes "cq_ok q" "complete_from s source result q p = (ok, q', p')"
  shows "cq_moves q (if ok then [Accepted \<lparr>cm_slot = s, cm_source = source, cm_result = result\<rparr>] else []) q'"
proof (cases "slot_index s \<in> cq_held q")
  case True
  let ?i = "slot_index s"
  have i: "?i < 32" "cq_slots q ! ?i = SlotReserved" using True by (simp_all add: cq_held_def)
  have ok: "ok" using complete_held [OF assms(1), of s source result p] True assms(2) by simp
  define q1 where "q1 = q\<lparr>cq_drainable := (cq_drainable q)[(cq_head q + cq_len q) mod 32 := of_nat ?i], cq_len := Suc (cq_len q)\<rparr>"
  have q': "q' = q1\<lparr>cq_slots := (cq_slots q)[?i := SlotDone source result], cq_wake_requested := True\<rparr>"
    using assms True by (auto simp: complete_from_def held_index Let_def q1_def QUEUE_CAPACITY_def)
  have pend: "cq_pending q' = cq_pending q @ [?i]"
    using pending_push [OF assms(1) len_bound [OF assms(1) True] i(1)] by (simp add: q' q1_def)
  have new: "?i \<notin> set (cq_pending q)" using assms(1) i by (simp add: cq_ok_def)
  have sl: "cq_slots q' = (cq_slots q)[?i := SlotDone source result]" by (simp add: q')
  have "slot_completion (cq_slots q') ?i = \<lparr>cm_slot = s, cm_source = source, cm_result = result\<rparr>"
    using assms(1) i by (simp add: sl slot_completion_def cq_ok_def)
  then have "cq_done q' = cq_done q @ [\<lparr>cm_slot = s, cm_source = source, cm_result = result\<rparr>]"
    using done_update [OF new] by (simp add: cq_done_def [of q'] pend sl)
  moreover have "cq_held q' = cq_held q - {?i}" using assms(1) i by (auto simp: sl cq_held_def cq_ok_def nth_list_update)
  moreover have "{j. j < 32 \<and> is_done (cq_slots q' ! j)} = insert ?i {j. j < 32 \<and> is_done (cq_slots q ! j)}"
    using assms(1) i by (auto simp: sl cq_ok_def nth_list_update)
  then have "set (cq_pending q') = {j. j < 32 \<and> is_done (cq_slots q' ! j)}" using assms(1) by (simp add: pend cq_ok_def)
  moreover have "distinct (cq_pending q')" using assms(1) new by (simp add: pend cq_ok_def)
  moreover have "length (cq_slots q') = 32" "length (cq_drainable q') = 32" "cq_head q' < 32" "0 < cq_len q'"
    using assms(1) by (simp_all add: cq_ok_def q' q1_def)
  ultimately show ?thesis using ok by (simp add: cq_moves_def cq_ok_def)
next
  case False
  then have "\<not> ok" "q' = q" using assms by (auto simp: complete_from_def held_index Let_def)
  then show ?thesis using assms(1) by (simp add: cq_moves_def)
qed

lemma held_update:
  assumes "length sl = n" "sl ! i \<noteq> SlotReserved" "v \<noteq> SlotReserved"
  shows "{j. j < n \<and> sl[i := v] ! j = SlotReserved} = {j. j < n \<and> sl ! j = SlotReserved}"
proof -
  have "sl[i := v] ! j = SlotReserved \<longleftrightarrow> sl ! j = SlotReserved" if "j < n" for j
    using that assms by (cases "i = j") auto
  then show ?thesis by blast
qed

lemma drain_moves:
  assumes "cq_ok q"
  shows "\<exists>r q'. cq_drain q = Some (r, q') \<and> cq_moves q (case r of None \<Rightarrow> [] | Some c \<Rightarrow> [Drained c]) q'
    \<and> r = (case cq_done q of [] \<Rightarrow> None | c # cs \<Rightarrow> Some c)"
proof (cases "cq_len q = 0")
  case True
  then have "cq_done q = []" by (simp add: cq_done_def cq_pending_def)
  with True assms show ?thesis by (simp add: cq_drain_def cq_moves_def)
next
  case False
  let ?i = "unat (cq_drainable q ! cq_head q)"
  define q1 where "q1 = q\<lparr>cq_head := (cq_head q + 1) mod 32, cq_len := cq_len q - 1\<rparr>"
  have pend: "cq_pending q = ?i # cq_pending q1" using pending_pop [OF assms] False by (simp add: q1_def)
  then have i: "?i < 32" "is_done (cq_slots q ! ?i)" "?i \<notin> set (cq_pending q1)"
    using assms by (auto simp: cq_ok_def)
  then obtain source result where sl: "cq_slots q ! ?i = SlotDone source result" by (cases "cq_slots q ! ?i") auto
  define q' where "q' = q1\<lparr>cq_wake_requested := (if cq_len q - 1 = 0 then False else cq_wake_requested q),
    cq_slots := (cq_slots q)[?i := SlotFree]\<rparr>"
  have drain: "cq_drain q = Some (Some (slot_completion (cq_slots q) ?i), q')"
    using assms False i sl by (simp add: cq_drain_def cq_ok_def Let_def slot_completion_def q'_def q1_def QUEUE_CAPACITY_def)
  have pend': "cq_pending q' = cq_pending q1" "cq_slots q' = (cq_slots q)[?i := SlotFree]" by (simp_all add: q'_def)
  have "map (slot_completion ((cq_slots q1)[?i := SlotFree])) (cq_pending q1) = cq_done q1" by (rule done_update [OF i(3)])
  then have fifo: "cq_done q = slot_completion (cq_slots q) ?i # cq_done q'"
    by (simp add: cq_done_def pend pend') (simp add: q1_def)
  have "{j. j < 32 \<and> is_done (cq_slots q' ! j)} = {j. j < 32 \<and> is_done (cq_slots q ! j)} - {?i}"
    using assms i by (auto simp: pend' cq_ok_def nth_list_update)
  also have "\<dots> = set (cq_pending q')" using assms pend i(3) by (auto simp: pend' cq_ok_def)
  finally have "set (cq_pending q') = {j. j < 32 \<and> is_done (cq_slots q' ! j)}" by (rule sym)
  moreover have "distinct (cq_pending q')" using assms pend by (simp add: pend'(1) cq_ok_def)
  moreover have "length (cq_slots q') = 32" "length (cq_drainable q') = 32" "cq_head q' < 32" "cq_wake_requested q' \<longrightarrow> 0 < cq_len q'"
    using assms by (simp_all add: cq_ok_def q'_def q1_def)
  ultimately have "cq_ok q'" by (simp add: cq_ok_def)
  moreover have "cq_held q' = cq_held q"
    unfolding cq_held_def pend'(2) by (rule held_update) (use assms sl in \<open>simp_all add: cq_ok_def\<close>)
  ultimately show ?thesis unfolding drain fifo by (intro exI conjI) (simp_all add: cq_moves_def fifo)
qed

lemma exec_moves:
  assumes "cq_ok q"
  shows "\<exists>es q'. cq_exec op q = Some (es, q') \<and> cq_moves q es q'"
proof (cases op)
  case OpReserve
  obtain r q' where r: "cq_reserve q = (r, q')" by (cases "cq_reserve q")
  have "cq_moves q [] q" using assms by (simp add: cq_moves_def)
  with reserve_moves [OF assms r] show ?thesis by (cases r) (simp_all add: OpReserve r)
next
  case (OpComplete s source result)
  obtain ok q' p where "complete_from s source result q False = (ok, q', p)" by (cases "complete_from s source result q False")
  with complete_moves [OF assms this] show ?thesis by (simp add: OpComplete)
next
  case (OpRelease s)
  obtain ok q' where "cq_release s q = (ok, q')" by (cases "cq_release s q")
  with release_moves [OF assms this] show ?thesis by (simp add: OpRelease)
next
  case OpDrain
  from drain_moves [OF assms] obtain r q' where "cq_drain q = Some (r, q')" "cq_moves q (case r of None \<Rightarrow> [] | Some c \<Rightarrow> [Drained c]) q'"
    by blast
  then show ?thesis by (cases r) (simp_all add: OpDrain)
next
  case (OpRegister t)
  have "cq_moves q [] (register_waiter t q)" by (rule cq_moves_waiters [OF assms]) (simp_all add: register_waiter_def)
  then show ?thesis by (simp add: OpRegister)
next
  case (OpClear t)
  have "cq_moves q [] (snd (clear_waiter t q))"
    by (rule cq_moves_waiters [OF assms]) (simp_all add: clear_waiter_def Let_def split: option.split)
  then show ?thesis by (simp add: OpClear)
next
  case OpTakeWake
  have "cq_moves q [] (snd (take_wake_request q))" by (rule cq_moves_waiters [OF assms]) (simp_all add: take_wake_request_def)
  then show ?thesis by (simp add: OpTakeWake)
next
  case (OpDrainWakes out)
  have "cq_moves q [] (snd (drain_wake_requests q out))"
    by (rule cq_moves_waiters [OF assms]) (simp_all add: drain_wake_requests_def)
  then show ?thesis by (simp add: OpDrainWakes)
qed

lemma run_moves: "cq_ok q \<Longrightarrow> \<exists>es q'. cq_run ops q = Some (es, q') \<and> cq_moves q es q'"
proof (induction ops arbitrary: q)
  case (Cons op ops)
  from exec_moves [OF Cons.prems] obtain es q1 where one: "cq_exec op q = Some (es, q1)" "cq_moves q es q1" by blast
  with Cons.IH [of q1] obtain es' q2 where two: "cq_run ops q1 = Some (es', q2)" "cq_moves q1 es' q2" by (auto simp: cq_moves_def)
  have "cq_done q @ concat (map ev_accepted es) @ concat (map ev_accepted es') = concat (map ev_drained es) @ concat (map ev_drained es') @ cq_done q2"
    using one(2) two(2) unfolding cq_moves_def by (metis append.assoc)
  then have "cq_moves q (es @ es') q2" using one(2) two(2) by (simp add: cq_moves_def)
  with one two show ?case by simp
qed (simp add: cq_moves_def)

lemma card_split_below:
  assumes "\<And>i. i < n \<Longrightarrow> P i \<longleftrightarrow> \<not> Q i"
  shows "card {i. i < n \<and> P i} + card {i. i < n \<and> Q i} = (n :: nat)"
proof -
  have "{i. i < n \<and> Q i} = {..<n} - {i. i < n \<and> P i}" using assms by auto
  moreover have "{i. i < n \<and> P i} \<subseteq> {..<n}" by auto
  moreover from this have "card {i. i < n \<and> P i} \<le> card {..<n}" by (rule card_mono [rotated]) simp
  ultimately show ?thesis by (simp add: card_Diff_subset)
qed

lemma reserve_fresh:
  assumes "cq_ok q"
  shows "case fst (cq_reserve q) of
      None \<Rightarrow> card (cq_held q) + length (cq_done q) = 32
    | Some s \<Rightarrow> slot_index s < 32 \<and> slot_index s \<notin> cq_held q \<and> s \<notin> cm_slot ` set (cq_done q)"
proof (cases "position (\<lambda>s. s = SlotFree) (cq_slots q)")
  case None
  have split: "cq_slots q ! i = SlotReserved \<longleftrightarrow> \<not> is_done (cq_slots q ! i)" if "i < 32" for i
    using position_NoneD [OF None, of i] assms that by (cases "cq_slots q ! i") (auto simp: cq_ok_def)
  have "card (cq_held q) + card {i. i < 32 \<and> is_done (cq_slots q ! i)} = 32"
    unfolding cq_held_def by (rule card_split_below) (rule split)
  moreover have "length (cq_done q) = card {i. i < 32 \<and> is_done (cq_slots q ! i)}"
    using assms distinct_card [of "cq_pending q"] by (simp add: cq_ok_def cq_done_def)
  ultimately show ?thesis using None by (simp add: cq_reserve_def)
next
  case (Some i)
  from position_SomeD [OF Some] assms have i: "i < 32" "cq_slots q ! i = SlotFree" by (auto simp: cq_ok_def)
  have "of_nat i \<noteq> (of_nat j :: u16)" if "j \<in> set (cq_pending q)" for j
  proof
    assume "of_nat i = (of_nat j :: u16)"
    then have "unat (of_nat i :: u16) = unat (of_nat j :: u16)" by simp
    then have "i = j" using i that assms by (simp add: cq_ok_def)
    with that i assms show False by (simp add: cq_ok_def)
  qed
  then have "of_nat i \<notin> cm_slot ` set (cq_done q)" unfolding cq_done_def set_map image_image by (auto simp: slot_completion_def image_iff)
  then show ?thesis using i Some by (simp add: cq_reserve_def cq_held_def slot_index_def)
qed

section \<open>Waiters and deferred wake-ups\<close>

text \<open>A waiter replaced by another is still found and removed by its own clear, which returns true.\<close>

lemma clear_replaced_waiter:
  "cq_waiters q = [] \<Longrightarrow> a \<noteq> b \<Longrightarrow> cq_waiter (register_waiter b (register_waiter a q)) = b
     \<and> fst (clear_waiter a (register_waiter b (register_waiter a q)))"
  by (simp add: register_waiter_def clear_waiter_def MAX_WAITERS_def)

lemma set_swap_remove:
  assumes "distinct xs" "i < length xs"
  shows "set (swap_remove i xs) = set xs - {xs ! i}"
proof -
  obtain ys z where xs: "xs = ys @ [z]" using assms(2) by (cases xs rule: rev_cases) auto
  show ?thesis
  proof (cases "i < length ys")
    case True
    then have "set (ys[i := z]) = insert z (set ys - {ys ! i})"
      using assms(1) by (intro set_update_distinct) (simp_all add: xs)
    moreover have "z \<noteq> ys ! i" using assms(1) True by (auto simp: xs)
    ultimately show ?thesis using True by (auto simp: swap_remove_def xs list_update_append nth_append butlast_append)
  next
    case False
    then have "i = length ys" using assms(2) by (simp add: xs)
    then show ?thesis using assms(1) by (auto simp: swap_remove_def xs)
  qed
qed

lemma clear_waiter_gone:
  assumes "distinct (cq_waiters q)"
  shows "set (cq_waiters (snd (clear_waiter t q))) = set (cq_waiters q) - {t}"
proof (cases "position (\<lambda>x. x = t) (cq_waiters q)")
  case None
  then have "t \<notin> set (cq_waiters q)" by (auto simp: position_None_iff)
  with None show ?thesis by (simp add: clear_waiter_def Let_def)
next
  case (Some i)
  from position_SomeD [OF Some] have i: "i < length (cq_waiters q)" "cq_waiters q ! i = t" by auto
  then have "set (swap_remove i (cq_waiters q)) = set (cq_waiters q) - {t}" using set_swap_remove [OF assms i(1)] by simp
  then show ?thesis using Some by (simp add: clear_waiter_def Let_def)
qed

lemma ready_parked_fold:
  "fold ready_parked req (rs, s) = (rs', s') \<Longrightarrow>
     bt_get (sc_tasks s') i = map_option (\<lambda>t. if i \<in> set req \<and> is_parked (t_state t) then t\<lparr>t_state := TReady\<rparr> else t) (bt_get (sc_tasks s) i)"
proof (induction req arbitrary: rs s)
  case Nil
  then show ?case by (simp add: option.map_ident)
next
  case (Cons a req)
  obtain r1 s1 where one: "ready_parked a (rs, s) = (r1, s1)" by (cases "ready_parked a (rs, s)")
  then have "bt_get (sc_tasks s1) i = map_option (\<lambda>t. if i = a \<and> is_parked (t_state t) then t\<lparr>t_state := TReady\<rparr> else t) (bt_get (sc_tasks s) i)"
    by (cases "bt_get (sc_tasks s) a"; cases "bt_get (sc_tasks s) i") (auto simp: ready_parked_def split: if_splits)
  moreover have "fold ready_parked req (r1, s1) = (rs', s')" using Cons.prems one by simp
  ultimately show ?case using Cons.IH by (cases "bt_get (sc_tasks s) i") auto
qed

lemma collect_wakes_sched: "cs_sched (snd (fold collect_wakes ts (out, s))) = cs_sched s"
proof (induction ts arbitrary: out s)
  case (Cons t ts)
  obtain o1 s1 where one: "collect_wakes t (out, s) = (o1, s1)" by (cases "collect_wakes t (out, s)")
  then have "cs_sched s1 = cs_sched s" by (auto simp: collect_wakes_def split: option.splits prod.splits)
  then show ?case using Cons one by simp
qed simp

lemma push_ready_fold [simp]: "sc_tasks (fold push_ready ts s) = sc_tasks s"
  by (induction ts arbitrary: s) simp_all

text \<open>The deferred pass changes a task only from a parked state to ready: it revives no dead and thaws no frozen task.\<close>

lemma deliver_only_readies:
  "bt_get (sc_tasks (cs_sched s)) i = Some t \<Longrightarrow>
     bt_get (sc_tasks (cs_sched (deliver_pending_wakes s))) i = Some t
     \<or> is_parked (t_state t) \<and> bt_get (sc_tasks (cs_sched (deliver_pending_wakes s))) i = Some (t\<lparr>t_state := TReady\<rparr>)"
proof (cases "cs_pending s")
  case True
  assume t: "bt_get (sc_tasks (cs_sched s)) i = Some t"
  obtain req s1 where c: "fold collect_wakes (map fst (sc_tasks (cs_sched s))) ([], s\<lparr>cs_pending := False\<rparr>) = (req, s1)"
    by (rule prod.exhaust)
  obtain rs sc where r: "fold ready_parked req ([], cs_sched s1) = (rs, sc)" by (rule prod.exhaust)
  have s1: "cs_sched s1 = cs_sched s"
    using collect_wakes_sched [of "map fst (sc_tasks (cs_sched s))" "[]" "s\<lparr>cs_pending := False\<rparr>"] c by simp
  have "deliver_pending_wakes s = s1\<lparr>cs_sched := fold push_ready rs sc\<rparr>"
    using True c r by (simp add: deliver_pending_wakes_def)
  then show ?thesis using ready_parked_fold [OF r, of i] t s1 by auto
qed (simp add: deliver_pending_wakes_def)

section \<open>Properties\<close>

text \<open>
  C39. A completion queue delivers exactly once, in order, and never fails a reserved slot.  Every
  sequence of operations on a new queue runs without a panic; the accepted completions are the drained
  ones followed by those still in the ring; a completion is accepted exactly when its slot is
  outstanding; a reservation is refused exactly when the 32 slots are outstanding or undrained and
  otherwise returns a slot that is neither; a drain returns the oldest undrained completion; and
  a wake is never requested for an empty ring.
\<close>

theorem completion_queue_exactly_once:
  "\<exists>evs q. cq_run ops (cq_new cell) = Some (evs, q)
    \<and> concat (map ev_accepted evs) = concat (map ev_drained evs) @ cq_done q
    \<and> (\<forall>s source result p. fst (complete_from s source result q p) \<longleftrightarrow> slot_index s \<in> outstanding evs)
    \<and> (case fst (cq_reserve q) of
         None \<Rightarrow> card (outstanding evs) + length (cq_done q) = 32
       | Some s \<Rightarrow> slot_index s < 32 \<and> slot_index s \<notin> outstanding evs \<and> s \<notin> cm_slot ` set (cq_done q))
    \<and> map_option fst (cq_drain q) = Some (case cq_done q of [] \<Rightarrow> None | c # cs \<Rightarrow> Some c)
    \<and> \<not> (cq_wake_requested q \<and> cq_done q = [])"
proof -
  from run_moves [OF cq_new_ok, of ops cell] obtain evs q where run: "cq_run ops (cq_new cell) = Some (evs, q)" "cq_moves (cq_new cell) evs q"
    by blast
  then have ok: "cq_ok q" by (simp add: cq_moves_def)
  have "cq_held (cq_new cell) = {}" "cq_done (cq_new cell) = []"
    by (auto simp: cq_held_def cq_done_def cq_pending_def cq_new_def QUEUE_CAPACITY_def)
  then have held: "cq_held q = outstanding evs" and fifo: "concat (map ev_accepted evs) = concat (map ev_drained evs) @ cq_done q"
    using run(2) by (simp_all add: cq_moves_def outstanding_def)
  have "\<not> (cq_wake_requested q \<and> cq_done q = [])" using ok by (auto simp: cq_ok_def cq_done_def cq_pending_def)
  moreover have "map_option fst (cq_drain q) = Some (case cq_done q of [] \<Rightarrow> None | c # cs \<Rightarrow> Some c)"
    using drain_moves [OF ok] by auto
  ultimately show ?thesis
    by (intro exI [of _ evs] exI [of _ q] conjI allI run(1) fifo complete_held [OF ok, unfolded held] reserve_fresh [OF ok, unfolded held])
qed

end
