(* ===== verification/Service_Registry.thy ===== *)
theory Service_Registry
  imports Kernel_Tasks File_Syscalls
begin

text \<open>
  The service registry of \<open>kernel/src/cell/service_registry.rs\<close>: the map from a well-known service
  identifier to the task that provides it, with the pause barrier of a hot swap.  Log lines are left out.
\<close>

section \<open>Operations\<close>

definition MAX_SERVICES :: usize where "MAX_SERVICES = 32"

datatype service_entry =
    Active (entry_tid: usize) (entry_cell: u64) (entry_generation: u64)
  | Paused (entry_tid: usize) (entry_cell: u64) (entry_generation: u64)

type_synonym registry = "(u16, service_entry) btree"

definition entry_identity :: "service_entry \<Rightarrow> (u64 \<times> u64) option" where
  "entry_identity e = (if entry_cell e \<noteq> 0 \<and> entry_generation e \<noteq> 0 then Some (entry_cell e, entry_generation e) else None)"

definition sr_register :: "u16 \<Rightarrow> usize \<Rightarrow> u64 \<Rightarrow> u64 \<Rightarrow> registry \<Rightarrow> bool \<times> registry" where
  "sr_register service_id tid cell_id generation m =
     (if tid = 0 then (False, m)
      else if MAX_SERVICES \<le> length m \<and> \<not> bt_contains m service_id then (False, m)
      else (True, bt_insert service_id (Active tid cell_id generation) m))"

definition sr_lookup :: "u16 \<Rightarrow> registry \<Rightarrow> usize option" where
  "sr_lookup service_id m =
     (case bt_get m service_id of
        Some (Active tid _ _) \<Rightarrow> Some tid
      | Some (Paused _ _ _) \<Rightarrow> None
      | None \<Rightarrow> None)"

definition lookup_bound :: "u16 \<Rightarrow> registry \<Rightarrow> (usize \<times> u64 \<times> u64) option" where
  "lookup_bound service_id m =
     (case bt_get m service_id of
        None \<Rightarrow> None
      | Some (Paused _ _ _) \<Rightarrow> None
      | Some (Active tid cell_id generation) \<Rightarrow>
          (case entry_identity (Active tid cell_id generation) of
             None \<Rightarrow> None
           | Some (c, g) \<Rightarrow> Some (tid, c, g)))"

definition sr_pause :: "u16 \<Rightarrow> usize \<Rightarrow> registry \<Rightarrow> bool \<times> registry" where
  "sr_pause service_id expected_tid m =
     (case bt_get m service_id of
        Some (Active tid cell_id generation) \<Rightarrow>
          if tid = expected_tid then (True, bt_insert service_id (Paused expected_tid cell_id generation) m) else (False, m)
      | Some (Paused tid _ _) \<Rightarrow> (tid = expected_tid, m)
      | None \<Rightarrow> (False, m))"

definition commit_paused :: "u16 \<Rightarrow> usize \<Rightarrow> usize \<Rightarrow> u64 \<Rightarrow> u64 \<Rightarrow> registry \<Rightarrow> bool \<times> registry" where
  "commit_paused service_id old_tid new_tid cell_id generation m =
     (if new_tid = 0 then (False, m)
      else
        (case bt_get m service_id of
           Some (Paused tid _ _) \<Rightarrow>
             if tid = old_tid then (True, bt_insert service_id (Active new_tid cell_id generation) m) else (False, m)
         | _ \<Rightarrow> (False, m)))"

definition paused_matches :: "u16 \<Rightarrow> usize \<Rightarrow> registry \<Rightarrow> bool" where
  "paused_matches service_id expected_tid m =
     (case bt_get m service_id of Some (Paused tid _ _) \<Rightarrow> tid = expected_tid | _ \<Rightarrow> False)"

fun paused_provider :: "usize \<Rightarrow> service_entry \<Rightarrow> bool" where
  "paused_provider tid (Paused provider _ _) \<longleftrightarrow> provider = tid"
| "paused_provider tid (Active _ _ _) \<longleftrightarrow> False"

definition is_paused_tid :: "usize \<Rightarrow> registry \<Rightarrow> bool" where
  "is_paused_tid tid m \<longleftrightarrow> list_ex (\<lambda>(_, entry). paused_provider tid entry) m"

definition is_registered_tid :: "usize \<Rightarrow> registry \<Rightarrow> bool" where
  "is_registered_tid tid m \<longleftrightarrow> list_ex (\<lambda>(_, entry). entry_tid entry = tid) m"

definition clear_tid :: "usize \<Rightarrow> registry \<Rightarrow> registry" where
  "clear_tid tid m = bt_retain (\<lambda>_ entry. entry_tid entry \<noteq> tid) m"

text \<open>
  The supervisor's path of \<open>RegisterService\<close> is two critical sections: the liveness check under the
  scheduler lock and the registration under the registry's own.  \<open>gen\<close> is the generation field of the
  task records.
\<close>

definition register_check :: "sched \<Rightarrow> (usize \<Rightarrow> u64) \<Rightarrow> usize \<Rightarrow> syscall_error + u64 \<times> u64" where
  "register_check sc gen tid =
     (case bt_get (sc_tasks sc) tid of
        None \<Rightarrow> Err SE_InvalidInput
      | Some t \<Rightarrow>
          if t_state t = TRetiring \<or> t_state t = TTerminated then Err SE_InvalidInput
          else Ok (of_nat (t_cell_id t), gen tid))"

definition register_publish :: "u16 \<Rightarrow> usize \<Rightarrow> u64 \<times> u64 \<Rightarrow> registry \<Rightarrow> (syscall_error + usize) \<times> registry" where
  "register_publish service_id tid identity m =
     (case sr_register service_id tid (fst identity) (snd identity) m of
        (ok, m') \<Rightarrow> (if ok then Ok 0 else Err SE_InvalidInput, m'))"

definition sys_lookup_service :: "u16 \<Rightarrow> registry \<Rightarrow> syscall_error + usize" where
  "sys_lookup_service service_id m = Ok (case sr_lookup service_id m of None \<Rightarrow> 0 | Some tid \<Rightarrow> tid)"

section \<open>Histories\<close>

datatype sr_op =
    OpRegister u16 usize u64 u64
  | OpPause u16 usize
  | OpCommit u16 usize usize u64 u64
  | OpClearTid usize

fun sr_apply :: "sr_op \<Rightarrow> registry \<Rightarrow> bool \<times> registry" where
  "sr_apply (OpRegister sid tid c g) m = sr_register sid tid c g m"
| "sr_apply (OpPause sid tid) m = sr_pause sid tid m"
| "sr_apply (OpCommit sid old tid c g) m = commit_paused sid old tid c g m"
| "sr_apply (OpClearTid tid) m = (True, clear_tid tid m)"

definition sr_run :: "sr_op list \<Rightarrow> registry" where
  "sr_run ops = fold (\<lambda>op m. snd (sr_apply op m)) ops []"

text \<open>The operations of a history that were accepted, in order.\<close>

fun accepted_from :: "registry \<Rightarrow> sr_op list \<Rightarrow> sr_op list" where
  "accepted_from m [] = []"
| "accepted_from m (op # ops) =
     (if fst (sr_apply op m) then [op] else []) @ accepted_from (snd (sr_apply op m)) ops"

definition sr_accepted :: "sr_op list \<Rightarrow> sr_op list" where
  "sr_accepted ops = accepted_from [] ops"

text \<open>
  What the accepted operations promise, without the map.  A registration or a commit publishes an
  identity for its service.  The service is routed to that identity as long as no later accepted operation
  published another one for it or cleared the task; it is paused when a later accepted operation paused it.
\<close>

fun publishes :: "sr_op \<Rightarrow> u16 \<Rightarrow> usize \<Rightarrow> u64 \<Rightarrow> u64 \<Rightarrow> bool" where
  "publishes (OpRegister sid tid c g) s t c' g' \<longleftrightarrow> sid = s \<and> tid = t \<and> c = c' \<and> g = g'"
| "publishes (OpCommit sid old tid c g) s t c' g' \<longleftrightarrow> sid = s \<and> tid = t \<and> c = c' \<and> g = g'"
| "publishes _ _ _ _ _ \<longleftrightarrow> False"

fun pauses :: "u16 \<Rightarrow> sr_op \<Rightarrow> bool" where
  "pauses s (OpPause sid _) \<longleftrightarrow> sid = s"
| "pauses _ _ \<longleftrightarrow> False"

definition ends_route :: "u16 \<Rightarrow> usize \<Rightarrow> sr_op \<Rightarrow> bool" where
  "ends_route s t op \<longleftrightarrow> op = OpClearTid t \<or> (\<exists>t' c g. publishes op s t' c g)"

definition routed :: "sr_op list \<Rightarrow> u16 \<Rightarrow> usize \<Rightarrow> u64 \<Rightarrow> u64 \<Rightarrow> bool \<Rightarrow> bool" where
  "routed evs s t c g paused \<longleftrightarrow>
     (\<exists>pre ev post. evs = pre @ ev # post \<and> publishes ev s t c g
        \<and> \<not> list_ex (ends_route s t) post \<and> paused = list_ex (pauses s) post)"

definition provided :: "sr_op list \<Rightarrow> u16 \<Rightarrow> bool" where
  "provided evs s \<longleftrightarrow> (\<exists>t c g paused. routed evs s t c g paused)"

lemma ends_route_simps [simp]:
  "ends_route s t (OpRegister sid tid c g) \<longleftrightarrow> sid = s"
  "ends_route s t (OpCommit sid old tid c g) \<longleftrightarrow> sid = s"
  "ends_route s t (OpPause sid tid) \<longleftrightarrow> False"
  "ends_route s t (OpClearTid tid) \<longleftrightarrow> tid = t"
  by (simp_all add: ends_route_def)

lemma routed_Nil [simp]: "\<not> routed [] s t c g p"
  by (simp add: routed_def)

lemma routed_snoc:
  "routed (evs @ [x]) s t c g p \<longleftrightarrow>
     publishes x s t c g \<and> \<not> p
     \<or> \<not> ends_route s t x \<and> (\<exists>q. routed evs s t c g q \<and> p = (q \<or> pauses s x))"
  (is "?l \<longleftrightarrow> ?now \<or> ?before")
proof
  assume ?l
  then obtain pre ev post where w: "evs @ [x] = pre @ ev # post" "publishes ev s t c g"
    "\<not> list_ex (ends_route s t) post" "p = list_ex (pauses s) post" by (auto simp: routed_def)
  show "?now \<or> ?before"
  proof (cases post rule: rev_cases)
    case Nil
    then show ?thesis using w by simp
  next
    case (snoc post' y)
    then have "evs = pre @ ev # post'" "x = y" using w(1) by simp_all
    then have "routed evs s t c g (list_ex (pauses s) post')" "\<not> ends_route s t x"
      using w snoc unfolding routed_def by auto
    then show ?thesis using w(4) snoc \<open>x = y\<close> by auto
  qed
next
  assume "?now \<or> ?before"
  then show ?l
  proof
    assume ?now
    then show ?l unfolding routed_def by (intro exI [of _ evs] exI [of _ x] exI [of _ "[]"]) simp
  next
    assume b: ?before
    then obtain pre ev post where "evs = pre @ ev # post" "publishes ev s t c g"
      "\<not> list_ex (ends_route s t) post" "p = (list_ex (pauses s) post \<or> pauses s x)" by (auto simp: routed_def)
    then show ?l using b unfolding routed_def
      by (intro exI [of _ pre] exI [of _ ev] exI [of _ "post @ [x]"]) simp
  qed
qed

section \<open>The map implements the routes\<close>

definition sr_ok :: "registry \<Rightarrow> bool" where
  "sr_ok m \<longleftrightarrow> bt_wf m \<and> length m \<le> MAX_SERVICES \<and> (\<forall>s e. bt_get m s = Some e \<longrightarrow> entry_tid e \<noteq> 0)"

lemma sr_run_Nil [simp]: "sr_run [] = []"
  by (simp add: sr_run_def)

lemma sr_run_snoc [simp]: "sr_run (ops @ [op]) = snd (sr_apply op (sr_run ops))"
  by (simp add: sr_run_def)

lemma accepted_from_append:
  "accepted_from m (xs @ ys) = accepted_from m xs @ accepted_from (fold (\<lambda>op m. snd (sr_apply op m)) xs m) ys"
  by (induction xs arbitrary: m) simp_all

lemma sr_accepted_Nil [simp]: "sr_accepted [] = []"
  by (simp add: sr_accepted_def)

lemma sr_accepted_snoc [simp]:
  "sr_accepted (ops @ [op]) = sr_accepted ops @ (if fst (sr_apply op (sr_run ops)) then [op] else [])"
  by (simp add: sr_accepted_def sr_run_def accepted_from_append)

lemma sr_ok_insert:
  "sr_ok m \<Longrightarrow> entry_tid e \<noteq> 0 \<Longrightarrow> bt_contains m s \<or> length m < MAX_SERVICES \<Longrightarrow> sr_ok (bt_insert s e m)"
  by (auto simp: sr_ok_def length_bt_insert)

lemma sr_apply_ok: "sr_ok m \<Longrightarrow> sr_ok (snd (sr_apply op m))"
proof (cases op)
  case (OpClearTid t)
  assume ok: "sr_ok m"
  then have "length (clear_tid t m) \<le> MAX_SERVICES"
    by (simp add: clear_tid_def bt_retain_def sr_ok_def) (meson length_filter_le order_trans)
  then show ?thesis using ok OpClearTid by (auto simp: sr_ok_def clear_tid_def bt_get_retain split: option.splits if_splits)
next
  case (OpPause s t)
  assume ok: "sr_ok m"
  have "sr_ok (bt_insert s (Paused t c g) m)" if e: "bt_get m s = Some (Active t c g)" for c g
  proof (rule sr_ok_insert [OF ok])
    have "entry_tid (Active t c g) \<noteq> 0" using ok e unfolding sr_ok_def by blast
    then show "entry_tid (Paused t c g) \<noteq> 0" by simp
  qed (simp add: bt_contains_def e)
  then show ?thesis using OpPause ok by (auto simp: sr_pause_def split: option.split service_entry.split)
qed (auto simp: sr_register_def commit_paused_def intro!: sr_ok_insert simp: bt_contains_def split: option.split service_entry.split)

lemma sr_run_ok: "sr_ok (sr_run ops)"
  by (induction ops rule: rev_induct) (simp_all add: sr_apply_ok, simp add: sr_ok_def)

lemma sr_rejected: "\<not> fst (sr_apply op m) \<Longrightarrow> snd (sr_apply op m) = m"
  by (cases op) (auto simp: sr_register_def sr_pause_def commit_paused_def split: if_splits option.splits service_entry.splits)

definition route_entry :: "usize \<Rightarrow> u64 \<Rightarrow> u64 \<Rightarrow> bool \<Rightarrow> service_entry" where
  "route_entry t c g paused = (if paused then Paused t c g else Active t c g)"

lemma accepted_step:
  assumes "bt_wf m" "fst (sr_apply op m)"
  shows "bt_get (snd (sr_apply op m)) s = Some (route_entry t c g p) \<longleftrightarrow>
    publishes op s t c g \<and> \<not> p
    \<or> \<not> ends_route s t op \<and> (\<exists>q. bt_get m s = Some (route_entry t c g q) \<and> p = (q \<or> pauses s op))"
  using assms unfolding ex_bool_eq
  by (cases op; cases p)
    (auto simp: sr_register_def sr_pause_def commit_paused_def clear_tid_def bt_get_retain route_entry_def
      split: if_splits option.splits service_entry.splits)

lemma registry_is_routes: "bt_get (sr_run ops) s = Some (route_entry t c g p) \<longleftrightarrow> routed (sr_accepted ops) s t c g p"
proof (induction ops arbitrary: p rule: rev_induct)
  case (snoc op ops)
  have wf: "bt_wf (sr_run ops)" using sr_run_ok [of ops] by (simp add: sr_ok_def)
  show ?case
  proof (cases "fst (sr_apply op (sr_run ops))")
    case True
    then show ?thesis by (simp add: routed_snoc accepted_step [OF wf True] snoc.IH)
  next
    case False
    then show ?thesis by (simp add: sr_rejected snoc.IH)
  qed
qed simp

lemma provided_iff: "provided (sr_accepted ops) s \<longleftrightarrow> bt_contains (sr_run ops) s"
proof -
  have "(\<exists>t c g p. v = Some (route_entry t c g p)) \<longleftrightarrow> v \<noteq> None" for v
    by (cases v; cases "the v") (simp_all add: ex_bool_eq route_entry_def)
  then show ?thesis by (simp add: provided_def bt_contains_def registry_is_routes [symmetric])
qed

lemma card_provided: "card (Collect (provided (sr_accepted ops))) = length (sr_run ops)"
proof -
  have d: "distinct (map fst (sr_run ops))" using sr_run_ok [of ops] by (simp add: sr_ok_def bt_wf_distinct)
  have "Collect (provided (sr_accepted ops)) = set (map fst (sr_run ops))"
    by (simp add: provided_iff bt_contains_def map_of_eq_None_iff set_eq_iff)
  then show ?thesis by (simp only: distinct_card [OF d] length_map)
qed

lemma registry_entries: "(s, e) \<in> set (sr_run ops) \<longleftrightarrow> bt_get (sr_run ops) s = Some e"
  using sr_run_ok [of ops] by (simp add: sr_ok_def bt_wf_distinct)

lemma registry_scan:
  "list_ex (\<lambda>(_, e). P e) (sr_run ops) \<longleftrightarrow>
     (\<exists>s t c g p. routed (sr_accepted ops) s t c g p \<and> P (route_entry t c g p))"
proof -
  have "(\<exists>t c g p. e = route_entry t c g p \<and> P (route_entry t c g p)) \<longleftrightarrow> P e" for e
    by (cases e) (auto simp: ex_bool_eq route_entry_def)
  then have "list_ex (\<lambda>(_, e). P e) (sr_run ops) \<longleftrightarrow>
      (\<exists>s e. bt_get (sr_run ops) s = Some e \<and> (\<exists>t c g p. e = route_entry t c g p \<and> P (route_entry t c g p)))"
    by (simp add: list_ex_iff split_def Bex_def registry_entries [symmetric] split_paired_Ex)
  then show ?thesis unfolding registry_is_routes [symmetric] by blast
qed

lemmas route_lookups =
  registry_is_routes [where p = False, unfolded route_entry_def, simplified, symmetric]
  registry_is_routes [where p = True, unfolded route_entry_def, simplified, symmetric]

section \<open>Properties\<close>

text \<open>
  C40. The registry routes exactly what its accepted operations promise.  After any history of
  registrations, pauses, commits and clears from an empty registry there are at most 32 entries.  A lookup
  returns a task exactly when the last accepted publication of that service named it, no later operation
  cleared it and none paused it; a bound lookup returns the identity of that publication exactly when it is
  complete.  A service is paused for a task exactly when that publication was later paused, and a task is
  reported as registered or paused exactly when some service is so routed to it.  Whether an operation is accepted is decided by the same promises: a registration of a task other than 0 exactly when
  the service is provided already or fewer than 32 are; a pause exactly for the current provider; a commit
  exactly for a paused provider and a successor other than 0.  No service is routed to task 0.
\<close>

theorem registry_routes_exact:
  "length (sr_run ops) \<le> MAX_SERVICES
   \<and> (sr_lookup s (sr_run ops) = Some t \<longleftrightarrow> (\<exists>c g. routed (sr_accepted ops) s t c g False))
   \<and> (lookup_bound s (sr_run ops) = Some (t, c, g) \<longleftrightarrow> routed (sr_accepted ops) s t c g False \<and> c \<noteq> 0 \<and> g \<noteq> 0)
   \<and> (paused_matches s t (sr_run ops) \<longleftrightarrow> (\<exists>c g. routed (sr_accepted ops) s t c g True))
   \<and> (is_paused_tid t (sr_run ops) \<longleftrightarrow> (\<exists>s c g. routed (sr_accepted ops) s t c g True))
   \<and> (is_registered_tid t (sr_run ops) \<longleftrightarrow> (\<exists>s c g p. routed (sr_accepted ops) s t c g p))
   \<and> (fst (sr_register s t c g (sr_run ops)) \<longleftrightarrow>
        t \<noteq> 0 \<and> (provided (sr_accepted ops) s \<or> card (Collect (provided (sr_accepted ops))) < MAX_SERVICES))
   \<and> (fst (sr_pause s t (sr_run ops)) \<longleftrightarrow> (\<exists>c g p. routed (sr_accepted ops) s t c g p))
   \<and> (fst (commit_paused s old t c g (sr_run ops)) \<longleftrightarrow>
        t \<noteq> 0 \<and> (\<exists>c g. routed (sr_accepted ops) s old c g True))
   \<and> \<not> (\<exists>c g p. routed (sr_accepted ops) s 0 c g p)"
proof (intro conjI)
  let ?m = "sr_run ops"
  note ok = sr_run_ok [of ops]
  show "length ?m \<le> MAX_SERVICES" using ok by (simp add: sr_ok_def)
  show "sr_lookup s ?m = Some t \<longleftrightarrow> (\<exists>c g. routed (sr_accepted ops) s t c g False)"
    by (auto simp: sr_lookup_def route_lookups split: option.splits service_entry.splits)
  show "lookup_bound s ?m = Some (t, c, g) \<longleftrightarrow> routed (sr_accepted ops) s t c g False \<and> c \<noteq> 0 \<and> g \<noteq> 0"
    by (auto simp: lookup_bound_def entry_identity_def route_lookups split: option.splits service_entry.splits if_splits)
  show "paused_matches s t ?m \<longleftrightarrow> (\<exists>c g. routed (sr_accepted ops) s t c g True)"
    by (auto simp: paused_matches_def route_lookups split: option.splits service_entry.splits)
  show "is_paused_tid t ?m \<longleftrightarrow> (\<exists>s c g. routed (sr_accepted ops) s t c g True)"
    unfolding is_paused_tid_def registry_scan by (simp add: ex_bool_eq route_entry_def)
  show "is_registered_tid t ?m \<longleftrightarrow> (\<exists>s c g p. routed (sr_accepted ops) s t c g p)"
    unfolding is_registered_tid_def registry_scan by (auto simp: ex_bool_eq route_entry_def)
  show "fst (sr_register s t c g ?m) \<longleftrightarrow>
      t \<noteq> 0 \<and> (provided (sr_accepted ops) s \<or> card (Collect (provided (sr_accepted ops))) < MAX_SERVICES)"
    unfolding card_provided by (auto simp: sr_register_def provided_iff)
  show "fst (sr_pause s t ?m) \<longleftrightarrow> (\<exists>c g p. routed (sr_accepted ops) s t c g p)"
    by (auto simp: sr_pause_def ex_bool_eq route_lookups split: option.splits service_entry.splits)
  show "fst (commit_paused s old t c g ?m) \<longleftrightarrow> t \<noteq> 0 \<and> (\<exists>c g. routed (sr_accepted ops) s old c g True)"
    by (auto simp: commit_paused_def route_lookups split: option.splits service_entry.splits)
  have "entry_tid (route_entry 0 c g p) = 0" for c g p by (simp add: route_entry_def)
  then show "\<not> (\<exists>c g p. routed (sr_accepted ops) s 0 c g p)"
    using ok unfolding registry_is_routes [symmetric] sr_ok_def by blast
qed

theorem registry_routes_exact_witness:
  "routed (sr_accepted [OpRegister 1 4 7 3, OpPause 1 4]) 1 4 7 3 True
   \<and> \<not> fst (commit_paused 1 6 9 8 2 (sr_run [OpRegister 1 4 7 3, OpPause 1 4]))
   \<and> routed (sr_accepted [OpRegister 1 4 7 3, OpPause 1 4, OpCommit 1 4 9 8 2]) 1 9 8 2 False
   \<and> lookup_bound 1 (sr_run [OpRegister 1 4 7 3, OpPause 1 4, OpCommit 1 4 9 8 2]) = Some (9, 8, 2)"
proof -
  let ?a = "[OpRegister 1 4 7 3, OpPause 1 4]" and ?b = "[OpRegister 1 4 7 3, OpPause 1 4, OpCommit 1 4 9 8 2]"
  note eval = sr_run_def sr_accepted_def sr_register_def sr_pause_def commit_paused_def MAX_SERVICES_def
    lookup_bound_def entry_identity_def paused_matches_def
  have "lookup_bound 1 (sr_run ?b) = Some (9, 8, 2)" by (simp add: eval)
  moreover have "routed (sr_accepted ?b) 1 9 8 2 False"
    using registry_routes_exact [of ?b 1 9 8 2 0] calculation by blast
  moreover have "routed (sr_accepted ?a) 1 4 7 3 True"
    unfolding routed_def by (rule exI [of _ "[]"], rule exI [of _ "OpRegister 1 4 7 3"], rule exI [of _ "[OpPause 1 4]"]) (simp add: eval)
  moreover have "\<not> fst (commit_paused 1 6 9 8 2 (sr_run ?a))" by (simp add: eval)
  ultimately show ?thesis by blast
qed

text \<open>
  The two sections of \<open>RegisterService\<close> leave a gap: when the provider exits between them, its entries are
  cleared first and the registration then publishes the dead task.
\<close>

theorem register_after_exit_is_stale:
  assumes "bt_get (sc_tasks sc) tid = Some t" "t_state t = TRunning" "tid \<noteq> 0" "length m < MAX_SERVICES"
  shows "\<exists>identity. register_check sc gen tid = Ok identity
    \<and> fst (register_publish s tid identity (clear_tid tid m)) = Ok 0
    \<and> sr_lookup s (snd (register_publish s tid identity (clear_tid tid m))) = Some tid"
proof -
  have "length (clear_tid tid m) < MAX_SERVICES"
    using assms(4) by (simp add: clear_tid_def bt_retain_def) (meson le_less_trans length_filter_le)
  then show ?thesis using assms by (simp add: register_check_def register_publish_def sr_register_def sr_lookup_def)
qed

end
