(* ===== verification/Spec2Isabelle.thy ===== *)
theory Spec2Isabelle
  imports Samples File_Syscalls Spawn_Props Resource_Props Sched_Props Loader_Props Pipe_Props Futex_Props Completion_Props Service_Registry
begin

text \<open>
  Verification of the authority, admission, resource and blocking core of the Cellos kernel.

  Cellos runs untrusted programs (Cells) under a kernel that decides which authority each of them
  gets, keeps track of it, and multiplexes processors, memory and wake-ups among them.  This
  development models those decisions and state changes as pure functions over explicit state,
  translated from the Rust sources under \<open>src/kernel/src\<close> and \<open>src/libs/api/src\<close>, and
  proves what they promise.

  \<^bold>\<open>Conventions.\<close>  \<open>u8\<close> to \<open>u64\<close> are words that wrap; \<open>usize\<close> is \<open>nat\<close>
  where the code bounds or saturates it and a 64-bit word where wrap-around is observable.  Structures
  are records, enumerations datatypes, \<open>Result\<close> is a sum with \<open>Err\<close> on the left, a
  \<open>BTreeMap\<close> is a key-sorted association list (\<open>btree\<close> of the prelude).  A panic or a deadlock is
  \<open>None\<close>.  Code outside the sources (the Ed25519 crate, the heap below the charging allocator, file
  objects) and the copies from and to user memory are arguments.  What several processors can do
  concurrently is a step relation whose steps are the critical sections or atomic
  operations of the code, so a run is any interleaving of them.

  \<^bold>\<open>Prelude.\<close>  \<^theory_text>\<open>Cellos_Prelude\<close> has the shared types, checked and saturating arithmetic, byte
  encodings and the ordered map with its laws.

  \<^bold>\<open>Capability spaces\<close> (\<open>cell/cspace.rs\<close>, \<open>cell/cap_registry.rs\<close>, file arms of \<open>task/syscall.rs\<close>).
  \<^theory_text>\<open>CSpace_Wire\<close> is the byte formats, \<^theory_text>\<open>CSpace\<close> the slot arena of one Cell, \<^theory_text>\<open>CSpace_Inv\<close> and
  \<^theory_text>\<open>CSpace_Revoke\<close> its invariant and what revocation cuts, \<^theory_text>\<open>Authority_Table\<close> the table of
  authorities and the two control system calls, \<^theory_text>\<open>Cap_Registry\<close> the leased capabilities,
  \<^theory_text>\<open>File_Syscalls\<close> the file system calls and \<^theory_text>\<open>Samples\<close> concrete states.  C1 to C15, in this theory:
  revocation is complete, exact and permanent, lineage only attenuates, the calls are total and
  isolated, slots do not leak, encodings round-trip, files go back to their ticket (for a file call with
  no other call between its two locked sections).

  \<^bold>\<open>Admission of a spawn\<close> (\<open>loader/governed_spawn.rs\<close> and what it calls).  \<^theory_text>\<open>Manifest\<close>, \<^theory_text>\<open>CapSet\<close>,
  \<^theory_text>\<open>Policy\<close> (the operator policy, with the encoder of \<open>scripts/sign-policy.py\<close>), \<^theory_text>\<open>Launch_Profile\<close> (boot
  ceilings and launch edges), \<^theory_text>\<open>Elf_Sections\<close> (section reader, manifest section, signatures), \<^theory_text>\<open>Admission\<close>
  (the owner's two-slot registry) and \<^theory_text>\<open>Spawn_Grant\<close>, which composes them as \<open>prepare_gated\<close> does
  and has the three entry points: governed bytes, a governed path, and the kernel's own \<open>init\<close>.
  C16 to C24, in \<^theory_text>\<open>Spawn_Props\<close>: the granted authority is within the request, the spawner's
  ceiling and the policy; an unfenced Cell is signed or is \<open>init\<close>; privileged rights follow reviewed
  paths; launch edges convey KMS, hardware and device rights exactly where the tables were reviewed; a
  broken policy fails closed; the policy and the admission decision are exact.

  \<^bold>\<open>Resources.\<close>  \<^theory_text>\<open>Quota\<close> models \<open>memory/cell_quota.rs\<close>, the charging allocator of
  \<open>memory/heap.rs\<close> and the identity claim of \<open>task/launch.rs\<close>; \<^theory_text>\<open>VA_Alloc\<close> models
  \<open>loader/va_alloc.rs\<close>.  C25 to C28 (\<^theory_text>\<open>Resource_Props\<close>): no Cell exceeds its quota and
  charges are decided exactly; under concurrent charges and refunds of any size the excess is at most the
  bytes refunded without being held, until a refused charge wraps the counter; refused allocations
  cost nothing.  C33 and C34 (\<^theory_text>\<open>Loader_Props\<close>): address ranges of live Cells are disjoint and none is lost.

  \<^bold>\<open>Ready queues\<close> (\<open>task/hart_local/ready.rs\<close>).  \<^theory_text>\<open>Ready_Queue\<close> has the operations, \<^theory_text>\<open>Ready_Rollback\<close>
  the positions of vacated entries, \<^theory_text>\<open>Ready_Promises\<close> and \<^theory_text>\<open>Ready_World\<close> the reservations under all
  interleavings, \<^theory_text>\<open>Ready_Steal\<close> work stealing.  C29 to C32 (\<^theory_text>\<open>Sched_Props\<close>).

  \<^bold>\<open>Blocking.\<close>  \<^theory_text>\<open>Kernel_Tasks\<close> has the task states of \<open>task/tcb.rs\<close> and the wake-up of a task.
  \<^theory_text>\<open>Pipe\<close> models \<open>task/pipe.rs\<close> and the pipe system calls; the ring implements a byte queue (locale
  \<open>byte_queue\<close> of \<^theory_text>\<open>Pipe_Ring\<close>), \<^theory_text>\<open>Pipe_World\<close>, \<^theory_text>\<open>Pipe_Ends\<close> and \<^theory_text>\<open>Pipe_Inv\<close> carry the invariants
  over runs, and C35 to C37 (\<^theory_text>\<open>Pipe_Props\<close>) say that bytes come out in order, that the end
  counts are exact, and that a reader can miss a wake-up.  The runs include a task record reaped with
  ends in its table, which are lost, and a zero-length write that closes an end already taken away; both
  are shown to happen, and the exactness of counts is stated for the pipes the second has not damaged.
  \<^theory_text>\<open>Futex\<close> models \<open>task/futex.rs\<close>; \<^theory_text>\<open>Futex_Props\<close> interleaves its waits and wakes with stores to user
  memory and proves C38, that no wake-up is lost.  \<^theory_text>\<open>Completion\<close> models \<open>task/completion.rs\<close>; C39
  (\<^theory_text>\<open>Completion_Props\<close>) is exactly-once delivery in order.  \<^theory_text>\<open>Service_Registry\<close> models
  \<open>cell/service_registry.rs\<close>; C40 says that it routes exactly what its accepted operations promise.

  \<^bold>\<open>Recursion and bounds.\<close>  No definition runs out of fuel: recursion is structural or over a
  proved measure, and searches are bounded by the capacity of the table they scan (the slot arena, the
  512 address slots, the 32 completion slots).  Where the code would spin forever or panic the model
  is \<open>None\<close>, and the theorems state that a result exists.  The hypotheses of C26 are necessary: lemmas
  of \<^theory_text>\<open>Quota\<close> exhibit the wrap-around by refused charges and the one by a spurious refund.  Runs of pipes leave out the steps that would saturate a
  counter at the largest machine word.

  \<^bold>\<open>Sample states\<close> for the witnesses of the theorems are in \<^theory_text>\<open>Samples\<close> and at the end of each theory of
  properties.

  \<^bold>\<open>Not modelled.\<close>  Message passing, sessions, hot swap and the dispatch, exit and reaping paths of the
  scheduler (they run through most fields of the task record and through assembly context
  switches; their effect on the modelled parts enters the step relations as arbitrary changes of
  task states); page tables, frames, pins, grants and image relocation (raw memory and hardware
  formats); drivers, boot, the hardware abstraction, the file system and the hypervisor (input and
  output); the remaining system calls, which call these; trace and self-test hooks; the user-space Cells,
  libraries and tools, apart from the interface types and parsers the kernel decides by.
\<close>

section \<open>Capability spaces\<close>

text \<open>
  C1. Revocation is complete and permanent.  Revoking a live ticket cuts the whole subtree below it:
  in every later state of that authority, whatever operations ran in between, no ticket of the
  subtree verifies, none can be derived from (and the attempt changes nothing), and none hands out
  its file.
\<close>

theorem revocation_is_permanent:
  assumes "ca_inv a" "live_slot_index a t = Ok k" "revoke_ticket t a = Some (res, a')"
    and "i < length (ca_slots a)" "in_subtree (ca_slots a) k i"
    and "cs_step\<^sup>*\<^sup>* (a', fs) (b, gs)"
  shows "(\<forall>s. verify_ticket b (se_ticket (ca_slots a ! i)) \<noteq> Ok s)
    \<and> (\<exists>st. allocate_slot h j kd r e (Some (se_ticket (ca_slots a ! i))) b = (Err st, b))
    \<and> (\<exists>st. cspace_park_file (se_ticket (ca_slots a ! i)) r b gs = (Err st, gs))"
proof -
  have "ca_inv a'" using ca_inv_revoke_ticket [OF assms(1), of t] assms(3) by auto
  moreover have "ticket_cut a' (se_ticket (ca_slots a ! i))"
    by (rule revoke_cuts_subtree [OF assms(1,2,4,5,3)])
  ultimately have "ticket_cut b (se_ticket (ca_slots a ! i))"
    using ticket_cut_steps [OF assms(6)] by simp
  then show ?thesis
    using ticket_cut_verify ticket_cut_park
      ticket_cut_derive [of b "se_ticket (ca_slots a ! i)" h j kd r e] by (metis surj_pair)
qed

theorem revocation_is_permanent_witness:
  "\<forall>s. verify_ticket (snd (the (revoke_ticket 1 sample_space))) 2 \<noteq> Ok s"
proof -
  have sub: "in_subtree (ca_slots sample_space) 0 1"
    using sample_descends by (simp add: in_subtree_def sample_space_slots del: One_nat_def)
  obtain a' where r: "revoke_ticket 1 sample_space = Some (Ok 1, a')"
    using revoke_ticket_Ok [OF sample_space_inv sample_space_slots(1)] by blast
  show ?thesis
    using revocation_is_permanent [OF sample_space_inv sample_space_slots(1) r _ sub rtranclp.rtrancl_refl,
        where fs = "[] :: unit cspace_files" and h = Kernel and j = Kernel and kd = BootFSFile and r = 0 and e = None]
    by (simp add: r sample_space_slots del: One_nat_def)
qed

text \<open>
  C2. Authority only shrinks along a lineage.  In every state a Cell's authority can reach from its
  creation, a slot carries no right and no lifetime that any of its ancestors lacks, is cut whenever
  an ancestor is cut, and sits strictly deeper than its ancestor within the depth bound.
\<close>

theorem lineage_attenuates:
  assumes "cs_step\<^sup>*\<^sup>* (authority_new c g caps, fs) (b, gs)" "descends (ca_slots b) i k"
  shows "subset_bits (se_rights (ca_slots b ! i)) (se_rights (ca_slots b ! k))
    \<and> expiry_within (se_expiry (ca_slots b ! i)) (se_expiry (ca_slots b ! k))
    \<and> (se_admission_cut (ca_slots b ! k) \<longrightarrow> se_admission_cut (ca_slots b ! i))
    \<and> se_depth (ca_slots b ! k) < se_depth (ca_slots b ! i)
    \<and> se_depth (ca_slots b ! i) \<le> MAX_LINEAGE_DEPTH"
proof -
  have "ca_inv b" using tickets.inv_steps [OF assms(1)] by simp
  then have ok: "lineage_ok (ca_slots b)" by (rule ca_invD)
  note wf = lineage_ok_wf [OF ok]
  show ?thesis
    using descends_attenuates [OF ok assms(2)] descends_irrefl [OF wf assms(2)]
      descends_range [OF wf assms(2)] lineage_okD(3) [OF ok] by auto
qed

theorem lineage_attenuates_witness:
  "subset_bits (se_rights (ca_slots sample_space ! 1)) (se_rights (ca_slots sample_space ! 0))"
  using lineage_attenuates [OF sample_space_reachable [of "[] :: unit cspace_files"] sample_descends] by simp

text \<open>
  C3. The two control syscalls are total and isolated.  On a well-formed authority table, any
  caller and any request bytes, both return (no panic, no endless loop), leave the table well
  formed, and change neither another Cell's authority nor another Cell's files.
\<close>

theorem control_syscalls_total_and_isolated:
  assumes "at_inv t"
  shows "(\<exists>h t' fs'. dispatch_handle_control c g buf t fs = Some (h, t', fs') \<and> at_inv t'
      \<and> (\<forall>k. k \<noteq> (c, g) \<longrightarrow> table_get t' k = table_get t k)
      \<and> (\<forall>c' g' u. (c', g') \<noteq> (c, g) \<longrightarrow> bt_get fs' (c', g', u) = bt_get fs (c', g', u)))
    \<and> (\<exists>h t' fs'. dispatch_cspace_control c g buf t fs = Some (h, t', fs') \<and> at_inv t'
      \<and> (\<forall>k. k \<noteq> (c, g) \<longrightarrow> table_get t' k = table_get t k)
      \<and> (\<forall>c' g' u. (c', g') \<noteq> (c, g) \<longrightarrow> bt_get fs' (c', g', u) = bt_get fs (c', g', u)))"
  using dispatch_handle_correct [OF assms, of c g buf fs] dispatch_cspace_correct [OF assms, of c g buf fs]
  unfolding other_files_same_def by simp

theorem control_syscalls_total_and_isolated_witness:
  "\<exists>h t' fs'. dispatch_handle_control 1 1 (handle_request_bytes
      \<lparr>hcr_version = 1, hcr_action = 2, hcr_ticket = 1, hcr_destination_cell = 0,
       hcr_destination_generation = 0, hcr_rights = 0, hcr_expiry_present = 0, hcr_expiry_tick = 0\<rparr>)
    sample_table ([] :: unit cspace_files) = Some (h, t', fs') \<and> at_inv t'"
  using control_syscalls_total_and_isolated [OF sample_table_inv, of 1 1] by blast

text \<open>
  C4. A closed ticket never comes back.  Closing a live ticket of a well-formed authority succeeds,
  removes the ticket's file, and in every later state the ticket is stale: tickets are not reissued.
\<close>

theorem closed_ticket_stays_stale:
  assumes "ca_inv a" "live_slot_index a t = Ok k"
  shows "\<exists>a' fs'. close_ticket t a fs = Some (Ok (), a', fs') \<and> bt_get fs' (ticket_key a t) = None
    \<and> (\<forall>b gs. cs_step\<^sup>*\<^sup>* (a', fs') (b, gs) \<longrightarrow> live_slot_index b t = Err Stale)"
proof (rule close_ticket_OkE [OF assms, of fs], goal_cases)
  case (1 slots')
  let ?a = "a\<lparr>ca_slots := slots'\<rparr>" and ?fs = "remove_ticket_file (ticket_key a t) fs"
  note L = live_slot_index_OkD [OF assms(2)]
  note T = tickets_okD [OF ca_invD(3) [OF assms(1)]]
  have "\<not> ticket_live ?a t"
  proof
    assume "ticket_live ?a t"
    then obtain i where i: "holds_ticket ?a i t" "se_holder_open (slots' ! i)"
      by (auto simp: ticket_live_def)
    have "i \<noteq> k" using i reclaimed_sel(6) [OF 1(4)] by auto
    moreover from this have "se_in_use (ca_slots a ! i) \<and> se_ticket (ca_slots a ! i) = t"
      using i 1(3) reclaimed_sel [OF 1(5), of i] by (auto simp: holds_ticket_def)
    ultimately show False using T(3) [OF L(2,3), of i] L(5) i 1(3) by (simp add: holds_ticket_def)
  qed
  moreover have "t < ca_next_ticket_counter ?a" using T(2) [OF L(2,3)] L(5) by simp
  ultimately have dead: "\<not> ticket_live b t \<and> ca_inv b" if "cs_step\<^sup>*\<^sup>* (?a, ?fs) (b, gs)" for b gs
    using tickets.dead_stays_dead [OF that] tickets.inv_steps [OF that] 1(2) by simp
  have "live_slot_index b t = Err Stale" if "cs_step\<^sup>*\<^sup>* (?a, ?fs) (b, gs)" for b gs
    using dead [OF that] ticket_live_iff [of b t] L(1)
    by (auto simp: live_slot_index_def split: option.splits)
  then show ?thesis using 1(1)
    by (intro exI [of _ ?a] exI [of _ ?fs]) (auto simp: remove_ticket_file_def)
qed

theorem closed_ticket_stays_stale_witness:
  "\<exists>a' fs'. close_ticket 1 sample_space ([] :: unit cspace_files) = Some (Ok (), a', fs')
    \<and> live_slot_index a' 1 = Err Stale"
  using closed_ticket_stays_stale [OF sample_space_inv sample_space_slots(1), of "[]"] by blast

text \<open>
  C5. Revocation is exact.  Revoking a live ticket always returns; afterwards a ticket that was
  live verifies as it did before, unless its slot lies in the revoked subtree, in which case it
  reports an admission cut.
\<close>

theorem revocation_is_exact:
  assumes "ca_inv a" "live_slot_index a t = Ok k" "live_slot_index a u = Ok i"
  shows "\<exists>a'. revoke_ticket t a = Some (Ok t, a') \<and> verify_ticket a' u =
    (if in_subtree (ca_slots a) k i then Err AdmissionCut else verify_ticket a u)"
proof -
  let ?a = "a\<lparr>ca_slots := cut_where (in_subtree (ca_slots a) k) (ca_slots a)\<rparr>"
  have r: "revoke_ticket t a = Some (Ok t, ?a)" by (rule revoke_ticket_Ok [OF assms(1,2)])
  then have "ca_inv ?a" using ca_inv_revoke_ticket [OF assms(1), of t] by simp
  then have "live_slot_index ?a u = Ok i"
    using live_slot_index_OkD [OF assms(3)] by (simp add: live_slot_index_iff cut_where_sel)
  then have "verify_ticket ?a u = (if in_subtree (ca_slots a) k i then Err AdmissionCut else verify_ticket a u)"
    using live_slot_index_OkD(2) [OF assms(3)] assms(3)
    by (simp add: verify_ticket_def Let_def nth_cut_where)
  with r show ?thesis by blast
qed

theorem revocation_is_exact_witness:
  "\<exists>a'. revoke_ticket 2 sample_space = Some (Ok 2, a') \<and> verify_ticket a' 1 = verify_ticket sample_space 1"
proof -
  have "\<not> in_subtree (ca_slots sample_space) 1 0"
    using descends_irrefl [OF lineage_ok_wf [OF ca_invD(2) [OF sample_space_inv]], of 0 1]
      descends_irrefl [OF lineage_ok_wf [OF ca_invD(2) [OF sample_space_inv]] sample_descends]
    by (auto simp: in_subtree_def)
  then show ?thesis
    using revocation_is_exact [OF sample_space_inv sample_space_slots(2,1)] by simp
qed

text \<open>
  C6. No slot leaks.  In every reachable authority that is not being torn down, once all holders
  have closed their tickets no slot is in use, so the whole arena is free again.
\<close>

theorem no_slot_leak:
  assumes "cs_step\<^sup>*\<^sup>* (authority_new c g caps, fs) (b, gs)" "\<not> ca_revoking b"
    and "list_all (\<lambda>s. \<not> se_holder_open s) (ca_slots b)"
  shows "list_all (\<lambda>s. \<not> se_in_use s) (ca_slots b)"
proof -
  have inv: "ca_inv b" using tickets.inv_steps [OF assms(1)] by simp
  show ?thesis using no_leak [OF inv assms(2)] assms(3) by (simp add: list_all_length)
qed

theorem no_slot_leak_witness: "list_all (\<lambda>s. \<not> se_in_use s) (ca_slots sample_closed)"
  using sample_closed_reachable no_slot_leak [OF _ sample_closed_state] by blast

text \<open>
  C7. The handle-control derive request.  When the syscall reports success, exactly one new slot was
  made in the caller's own authority, in a slot that was free: a child of the named live and uncut
  ticket, of the same kind, with the requested rights, which are a subset of the parent's, an expiry
  within the parent's, and the caller recorded as its issuer.  The parent counts one more child, the
  ticket counter advanced by one, and every other slot, every other field of the authority, every
  other authority and every file is unchanged.
\<close>

theorem handle_derive_attenuates:
  assumes "at_inv t" "table_get t (c, g) = Some a"
    and "handle_request_decode buf = Ok req" "hcr_action req = 1"
    and "dispatch_handle_control c g buf t fs = Some (h, t', fs')" "crh_status h = Success"
  shows "\<exists>a'. t' = table_set (c, g) a' t \<and> fs' = fs
    \<and> derived_child a (hcr_ticket req) (Cell (hcr_destination_cell req) (hcr_destination_generation req))
        (Cell c g) (hcr_rights req) (crh_ticket h) a'"
proof -
  have "on_authority (c, g) (act 1 (hcr_ticket req) (handle_derive c g req)) t fs = Some (h, t', fs')"
    using assms(3-5) by (simp add: dispatch_handle_control_def)
  from on_authority_act_derive [OF assms(2) this assms(6)]
  obtain a' where d: "handle_derive c g req a = (h, a')" "t' = table_set (c, g) a' t" "fs' = fs" by blast
  obtain x y where h: "h = header_new Success (crh_ticket h) x y"
    using handle_derive_header [OF d(1)] assms(6) by auto
  have "handle_derive c g req a = (header_new Success (crh_ticket h) x y, a')" using d(1) h by simp
  then show ?thesis
    using d(2,3) handle_derive_Success [OF at_invD(3) [OF assms(1,2)]] by blast
qed

theorem handle_derive_attenuates_witness:
  "\<exists>(h :: control_result_header) a'. crh_status h = Success \<and> derived_child sample_space 1 (Cell 3 1) (Cell 1 1) 5 (crh_ticket h) a'"
proof -
  obtain h t' fs' where d: "dispatch_handle_control 1 1 (handle_request_bytes sample_handle_derive) sample_table
      ([] :: unit cspace_files) = Some (h, t', fs')" "crh_status h = Success"
    using sample_handle_dispatch by blast
  show ?thesis
    using handle_derive_attenuates [OF sample_table_inv sample_table_get sample_decodes(1) _ d] d(2)
    by auto
qed

text \<open>
  C8. The CSpace derive request.  Success likewise means exactly one attenuated child in a free slot of
  the caller's authority and no other change than the parent's child count and the ticket counter, and in
  addition that the parent is a CSpace-authority slot and the request carried no MMIO or block-region
  mask.
\<close>

theorem cspace_derive_attenuates:
  assumes "at_inv t" "table_get t (c, g) = Some a"
    and "cspace_request_decode buf = Ok req" "csr_action req = 1"
    and "dispatch_cspace_control c g buf t fs = Some (h, t', fs')" "crh_status h = Success"
  shows "csr_mmio_mask req = 0 \<and> csr_block_region_mask req = 0
    \<and> (\<exists>slot. verify_ticket a (csr_parent_ticket req) = Ok slot \<and> se_kind slot = CSpaceAuthority)
    \<and> (\<exists>a'. t' = table_set (c, g) a' t \<and> fs' = fs
        \<and> derived_child a (csr_parent_ticket req) (Cell (csr_target_cell req) (csr_target_generation req))
            (Cell c g) (ucast (csr_class_bits req)) (crh_ticket h) a')"
proof -
  have "on_authority (c, g) (act 1 (csr_parent_ticket req) (cspace_derive c g req)) t fs = Some (h, t', fs')"
    using assms(3-5) by (simp add: dispatch_cspace_control_def)
  from on_authority_act_derive [OF assms(2) this assms(6)]
  obtain a' where d: "cspace_derive c g req a = (h, a')" "t' = table_set (c, g) a' t" "fs' = fs" by blast
  obtain x y where h: "h = header_new Success (crh_ticket h) x y"
    using cspace_derive_header [OF d(1)] assms(6) by auto
  have e: "cspace_derive c g req a = (header_new Success (crh_ticket h) x y, a')" using d(1) h by simp
  then have "csr_mmio_mask req = 0 \<and> csr_block_region_mask req = 0"
    by (auto simp: cspace_derive_def split: if_split_asm)
  then show ?thesis
    using d(2,3) cspace_derive_Success [OF at_invD(3) [OF assms(1,2)] e] by blast
qed

theorem cspace_derive_attenuates_witness:
  "\<exists>(h :: control_result_header) a'. crh_status h = Success \<and> derived_child sample_space 1 (Cell 3 1) (Cell 1 1) 5 (crh_ticket h) a'"
proof -
  obtain h t' fs' where d: "dispatch_cspace_control 1 1 (cspace_request_bytes sample_cspace_derive) sample_table
      ([] :: unit cspace_files) = Some (h, t', fs')" "crh_status h = Success"
    using sample_cspace_dispatch by blast
  show ?thesis
    using cspace_derive_attenuates [OF sample_table_inv sample_table_get sample_decodes(2) _ d] d(2)
    by auto
qed

text \<open>
  C9. Retirement is final.  After \<open>retire_cell_authority\<close> the authority is being torn down in every
  later state: no ticket verifies and every allocation is refused with an admission cut.
\<close>

theorem retirement_is_final:
  assumes "at_inv t" "table_get t (c, g) = Some a"
    and "table_get (retire_cell_authority c g t) (c, g) = Some a'" "cs_step\<^sup>*\<^sup>* (a', fs) (b, gs)"
  shows "ca_revoking b \<and> (\<forall>u s. verify_ticket b u \<noteq> Ok s)
    \<and> allocate_slot h i k r e p b = (Err AdmissionCut, b)"
proof -
  have a': "a' = retire a" using assms(2,3) by (simp add: retire_cell_authority_def)
  then have "ca_inv a'" "ca_revoking a'"
    using ca_inv_retire [OF at_invD(3) [OF assms(1,2)]] by (simp_all add: retire_def)
  then have "ca_inv b" "ca_revoking b"
    using tickets.inv_steps [OF assms(4)] cs_steps_revoking [OF assms(4)] by simp_all
  then show ?thesis using revoking_refuses by blast
qed

theorem retirement_is_final_witness:
  "\<exists>a'. table_get (retire_cell_authority 1 1 sample_table) (1, 1) = Some a' \<and> ca_revoking a'
    \<and> allocate_slot Kernel Kernel BootFSFile 1 None None a' = (Err AdmissionCut, a')"
proof -
  have g: "table_get sample_table (1, 1) = Some sample_space"
    by (simp add: sample_table_def table_get_def)
  then have r: "table_get (retire_cell_authority 1 1 sample_table) (1, 1) = Some (retire sample_space)"
    by (simp add: retire_cell_authority_def)
  show ?thesis
    using retirement_is_final [OF sample_table_inv g r rtranclp.rtrancl_refl] r
    by blast
qed

section \<open>Wire formats\<close>

text \<open>
  C10. Principal records are canonical.  On a 40-byte buffer the decoder accepts exactly the records
  the encoder writes for admissible principals, and returns the principal, flags and task they were
  written from: encoding and decoding are inverse, and no two buffers decode alike.
\<close>

theorem principal_record_roundtrip:
  assumes "length buf = 40"
  shows "decode_record buf = Ok (p, flags, tid) \<longleftrightarrow> record_ok p flags tid \<and> buf = encode_record p flags tid"
  using encode_decode_record [OF assms, of p flags tid] decode_encode_record by blast

theorem principal_record_roundtrip_witness:
  "decode_record (encode_record (Cell 7 3) 1 9) = Ok (Cell 7 3, 1, 9)"
  using principal_record_roundtrip [of "encode_record (Cell 7 3) 1 9" "Cell 7 3" 1 9]
  by (simp add: record_ok_def)

text \<open>
  C11. Result headers round-trip.  A header of version 1 that was encoded into a buffer decodes to
  itself, and a buffer that decodes is exactly what encoding the result back into it writes.
\<close>

theorem result_header_roundtrip:
  "(crh_version h = 1 \<longrightarrow> header_encode h out = Ok buf \<longrightarrow> header_decode buf = Ok h)
    \<and> (header_decode buf = Ok h \<longrightarrow> crh_version h = 1 \<and> header_encode h buf = Ok buf)"
  using header_decode_encode header_encode_decode by blast

theorem result_header_roundtrip_witness:
  "\<exists>buf. header_encode (header_new AdmissionCut 5 32 0) (replicate 32 0) = Ok buf
    \<and> header_decode buf = Ok (header_new AdmissionCut 5 32 0)"
proof -
  obtain buf where b: "header_encode (header_new AdmissionCut 5 32 0) (replicate 32 0) = Ok buf"
    by (simp add: header_encode_def)
  then show ?thesis
    using result_header_roundtrip [of "header_new AdmissionCut 5 32 0" "replicate 32 0" buf]
    by (auto simp: header_new_def)
qed

text \<open>
  C12. Request decoding is exact.  A 48-byte handle request and a 64-byte CSpace request decode to a
  request precisely when they are its field layout and the request is well formed; in particular
  the fields a close, revoke or query does not use are all zero, and unknown class bits never pass.
\<close>

theorem request_decoding_exact:
  assumes "length hbuf = 48" and "length cbuf = 64"
  shows "(handle_request_decode hbuf = Ok r \<longleftrightarrow> handle_request_ok r \<and> hbuf = handle_request_bytes r)
    \<and> (cspace_request_decode cbuf = Ok q \<longleftrightarrow> cspace_request_ok q \<and> cbuf = cspace_request_bytes q)"
  using assms handle_request_decode_bytes handle_request_bytes_decode
    cspace_request_decode_bytes cspace_request_bytes_decode by blast

theorem request_decoding_exact_witness:
  "handle_request_decode (handle_request_bytes sample_handle_derive) = Ok sample_handle_derive
   \<and> cspace_request_decode (cspace_request_bytes sample_cspace_derive) = Ok sample_cspace_derive"
  using request_decoding_exact [of "handle_request_bytes sample_handle_derive"
      "cspace_request_bytes sample_cspace_derive" sample_handle_derive sample_cspace_derive]
  by (simp add: handle_request_ok_def cspace_request_ok_def handle_request_bytes_def cspace_request_bytes_def
      sample_handle_derive_def sample_cspace_derive_def)

section \<open>Capability table\<close>

text \<open>
  C13. Ownership and leases.  Verification succeeds exactly for the owner of an existing capability
  whose lease has not run out; a failed verification by the owner of an expired lease removes the
  capability, and then no caller at any time in any later state verifies or parks it again,
  because identifiers are never reissued.
\<close>

theorem expired_capability_is_gone:
  assumes "ct_inv t"
  shows "(fst (verify now c who t) = Ok () \<longleftrightarrow> (\<exists>e. bt_get (ct_entries t) c = Some e \<and> ce_owner e = who
      \<and> (\<forall>x. ce_expires_at e = Some x \<longrightarrow> now < x)))
    \<and> (\<forall>e x u. bt_get (ct_entries t) c = Some e \<and> ce_owner e = who \<and> ce_expires_at e = Some x \<and> x \<le> now
        \<and> cap_step\<^sup>*\<^sup>* (snd (verify now c who t)) u
        \<longrightarrow> fst (verify now' c who' u) = Err NotFound \<and> fst (park_file now' c who' perm u) = Err NotFound)"
proof -
  have ok: "fst (verify now c who t) = Ok () \<longleftrightarrow> (\<exists>e. bt_get (ct_entries t) c = Some e \<and> ce_owner e = who
      \<and> (\<forall>x. ce_expires_at e = Some x \<longrightarrow> now < x))"
    by (auto simp: verify_def not_le split: option.splits)
  have gone: "fst (verify now' c who' u) = Err NotFound \<and> fst (park_file now' c who' perm u) = Err NotFound"
    if e: "bt_get (ct_entries t) c = Some e" "ce_owner e = who" "ce_expires_at e = Some x" "x \<le> now"
      and u: "cap_step\<^sup>*\<^sup>* (snd (verify now c who t)) u" for e x u
  proof -
    let ?t = "snd (verify now c who t)"
    have t: "?t = t\<lparr>ct_entries := bt_remove c (ct_entries t)\<rparr>" using e by (simp add: verify_def)
    have "c < ct_next_id ?t" "\<not> ct_live ?t c"
      using assms e(1) by (auto simp: t ct_inv_def ct_live_def bt_contains_def)
    then have "\<not> ct_live u c"
      using caps.dead_stays_dead [OF u ct_inv_verify [OF assms]] by simp
    then show ?thesis by (simp add: ct_live_def bt_contains_def verify_def park_file_def)
  qed
  show ?thesis using ok gone by blast
qed

definition sample_caps :: "unit cap_table" where
  "sample_caps = snd (alloc_with_lease 4 (File (Some ())) 1 100 cap_table_new)"

theorem expired_capability_is_gone_witness:
  "fst (verify 99 1 4 sample_caps) = Ok () \<and> fst (verify 5 1 4 (snd (verify 100 1 4 sample_caps))) = Err NotFound"
proof -
  have inv: "ct_inv sample_caps" by (simp add: sample_caps_def ct_inv_alloc_with_lease)
  have e: "bt_get (ct_entries sample_caps) 1 =
      Some \<lparr>ce_owner = 4, ce_resource = File (Some ()), ce_perms = 1, ce_expires_at = Some 100\<rparr>"
    by code_simp
  show ?thesis
    using expired_capability_is_gone [OF inv, of 99 1 4]
      expired_capability_is_gone [OF inv, of 100 1 4 5 4] e by auto
qed

text \<open>
  C14. File syscalls give the file back.  For a call that runs with no other call between its two locked
  sections: if the file of a ticket is at home, then after any seek,
  write, stat, truncate or sync through the ticket, and after any read that could allocate its
  kernel buffer, whether it succeeded, failed or was refused, the file is at home again and no
  other ticket's file was touched.
\<close>

theorem file_syscalls_return_file:
  assumes "file_home t key cap fs"
    and "r = snd (seek_cap fo key cap offset whence t fs) \<or> r = snd (write_cap fo user_in key cap len t fs)
      \<or> r = snd (stat_cap fo key cap t fs) \<or> r = snd (truncate_cap fo key cap newlen t fs)
      \<or> r = snd (sync_cap fo key cap t fs) \<or> r = snd (read_cap fo True user_out key cap ptr len t fs)"
  shows "file_home t key cap r \<and> only_ticket_changed t key cap fs r"
proof -
  note op = file_op_home_snd [OF assms(1)]
  have same: "only_ticket_changed t key cap fs fs" by (simp add: only_ticket_changed_def)
  have rd: "file_home t key cap (snd (read_cap fo True user_out key cap ptr len t fs))
      \<and> only_ticket_changed t key cap fs (snd (read_cap fo True user_out key cap ptr len t fs))"
    using read_cap_home [OF assms(1)] by (metis prod.collapse)
  show ?thesis
    using assms(2)
  proof (elim disjE)
    assume "r = snd (seek_cap fo key cap offset whence t fs)"
    then show ?thesis by (simp add: op assms(1) same seek_cap_def Let_def)
  next
    assume "r = snd (write_cap fo user_in key cap len t fs)"
    then show ?thesis by (simp add: op assms(1) same write_cap_def split: sum.split)
  qed (simp_all add: op rd stat_cap_def truncate_cap_def sync_cap_def)
qed

theorem file_syscalls_return_file_witness:
  "file_home sample_file_table (1, 1) 1 (snd (stat_cap sample_ops (1, 1) 1 sample_file_table sample_files))"
  using file_syscalls_return_file [OF sample_file_home,
      where fo = sample_ops and r = "snd (stat_cap sample_ops (1, 1) 1 sample_file_table sample_files)"]
  by simp

text \<open>
  C15. A read that runs out of memory loses the file.  When \<open>ReadCap\<close> has taken the file and cannot
  allocate its kernel buffer, it returns out-of-memory without putting the file back; from then on
  every file syscall on that ticket is refused and leaves the store as it is.
\<close>

theorem read_cap_oom_loses_file:
  assumes "take_file key cap CAP_PERM_READ t fs = (Ok f, fs0)" "len \<noteq> 0"
    and "validate_user_buf ptr len MAX_USER_BUF = Ok ()"
    and "read_cap fo False user_out key cap ptr len t fs = (res, fs')"
  shows "file_home t key cap fs \<and> res = Err SE_OutOfMemory \<and> \<not> file_home t key cap fs'
    \<and> (\<forall>perm. \<exists>fs''. take_file key cap perm t fs' = (Err SE_PermissionDenied, fs'')
          \<and> bt_get fs'' = bt_get fs')"
proof -
  have r: "res = Err SE_OutOfMemory" "fs' = fs0" using assms by (auto simp: read_cap_def)
  obtain auth where auth: "table_get t key = Some auth" "bt_get fs (ticket_key auth cap) = Some (Some f)"
    "bt_get fs0 = (bt_get fs)(ticket_key auth cap \<mapsto> None)"
    using take_return [OF assms(1), of f] by blast
  then have nh: "\<not> file_home t key cap fs'" by (simp add: file_home_def r)
  moreover have "file_home t key cap fs" using auth by (auto simp: file_home_def)
  ultimately show ?thesis using r not_home_refused [OF nh] by blast
qed

theorem read_cap_oom_loses_file_witness:
  "\<exists>res fs'. read_cap sample_ops False (\<lambda>_. True) (1, 1) 1 4096 16 sample_file_table sample_files = (res, fs')
    \<and> res = Err SE_OutOfMemory \<and> \<not> file_home sample_file_table (1, 1) 1 fs'"
proof -
  obtain fs0 where t: "take_file (1, 1) 1 CAP_PERM_READ sample_file_table sample_files = (Ok (), fs0)"
    using sample_take_file by blast
  have v: "validate_user_buf 4096 16 MAX_USER_BUF = Ok ()"
    by (simp add: validate_user_buf_def MAX_USER_BUF_def checked_add_def)
  obtain res fs' where r: "read_cap sample_ops False (\<lambda>_. True) (1, 1) 1 4096 16 sample_file_table sample_files = (res, fs')"
    by fastforce
  show ?thesis using read_cap_oom_loses_file [OF t _ v r] r by auto
qed

end
